(* ===== verification/Prelude.thy ===== *)
theory Prelude
  imports Main "HOL-Library.Word"
begin

text \<open>
  Shared vocabulary of the development: the machine types of the Rust sources, results with
  errors as values, the byte-level bit fields that three wire and disk structures use, and the
  generic lemmas on words, lists and results that the component theories rely on.
\<close>

unbundle bit_operations_syntax

type_synonym u8 = "8 word"
type_synonym u16 = "16 word"
type_synonym u32 = "32 word"
type_synonym u64 = "64 word"
type_synonym bytes = "u8 list"

named_theorems word_nat \<comment> \<open>reading word arithmetic as arithmetic on nat\<close>
named_theorems result_simps \<comment> \<open>unfolding of the result combinators\<close>

section \<open>Results\<close>

text \<open>\<open>Result<T, E>\<close> is a sum, \<open>Inl\<close> for the error; \<open>and_then\<close> is the \<open>?\<close> operator.\<close>

definition and_then :: "'e + 'a \<Rightarrow> ('a \<Rightarrow> 'e + 'b) \<Rightarrow> 'e + 'b" where
  "and_then r f = (case r of Inl e \<Rightarrow> Inl e | Inr x \<Rightarrow> f x)"

definition ok_or :: "'e \<Rightarrow> 'a option \<Rightarrow> 'e + 'a" where
  "ok_or e x = (case x of None \<Rightarrow> Inl e | Some v \<Rightarrow> Inr v)"

definition is_ok :: "'e + 'a \<Rightarrow> bool" where
  "is_ok r = (case r of Inl _ \<Rightarrow> False | Inr _ \<Rightarrow> True)"

lemma and_then_simps [simp, result_simps]:
  "and_then (Inl e) f = Inl e" "and_then (Inr x) f = f x"
  by (simp_all add: and_then_def)

lemma and_then_Inr [result_simps]:
  "and_then r f = Inr y \<longleftrightarrow> (\<exists>x. r = Inr x \<and> f x = Inr y)"
  by (cases r) simp_all

lemma and_then_Inl [result_simps]:
  "and_then r f = Inl e \<longleftrightarrow> r = Inl e \<or> (\<exists>x. r = Inr x \<and> f x = Inl e)"
  by (cases r) simp_all

lemma is_ok_simps [simp, result_simps]: "is_ok (Inr x)" "\<not> is_ok (Inl e)"
  by (simp_all add: is_ok_def)

lemma is_ok_iff [result_simps]: "is_ok r \<longleftrightarrow> (\<exists>x. r = Inr x)"
  by (cases r) simp_all

lemma ok_or_simps [simp, result_simps]: "ok_or e None = Inl e" "ok_or e (Some v) = Inr v"
  by (simp_all add: ok_or_def)

text \<open>Collecting a list of results: the first error wins, as \<open>collect::<Result<Vec<_>>>\<close>.\<close>

fun collect_results :: "('e + 'a) list \<Rightarrow> 'e + 'a list" where
  "collect_results [] = Inr []"
| "collect_results (r # rs) =
     and_then r (\<lambda>x. and_then (collect_results rs) (\<lambda>xs. Inr (x # xs)))"

lemma collect_results_Inr:
  "collect_results rs = Inr xs \<longleftrightarrow> rs = map Inr xs"
proof (induction rs arbitrary: xs)
  case Nil
  then show ?case by auto
next
  case (Cons r rs)
  then show ?case by (cases r) (auto simp: and_then_Inr Cons_eq_map_conv)
qed

section \<open>Words as numbers\<close>

lemma unat_lt: "unat (w :: 'a::len word) < 2 ^ LENGTH('a)"
  by (rule unsigned_less)

lemma unat_lt32: "unat (w :: u32) < 2 ^ 32"
  using unat_lt[of w] by simp

lemma unat_ucast [word_nat]: "unat (ucast (w :: 'a::len word) :: 'b::len word) = unat w mod 2 ^ LENGTH('b)"
  by (simp add: unsigned_ucast_eq take_bit_eq_mod)

lemma unat_ucast_32_64 [simp]: "unat (ucast (x :: u32) :: u64) = unat x"
proof -
  have "unat x < 2 ^ 32" using unsigned_less[of x] by simp
  then show ?thesis by (simp add: unat_ucast)
qed

definition U32_MAX :: u32 where "U32_MAX = 0xFFFFFFFF"
definition U64_MAX :: u64 where "U64_MAX = 0xFFFFFFFFFFFFFFFF"

lemma unat_U32_MAX [simp]: "unat U32_MAX = 2 ^ 32 - 1"
  by (simp add: U32_MAX_def)

text \<open>\<open>div_ceil\<close> of the standard library: quotient, plus one when there is a remainder.\<close>

definition div_ceil :: "'a::len word \<Rightarrow> 'a word \<Rightarrow> 'a word" where
  "div_ceil a b = (let d = a div b; r = a mod b in if r > 0 then d + 1 else d)"

definition nat_div_ceil :: "nat \<Rightarrow> nat \<Rightarrow> nat" where
  "nat_div_ceil a b = a div b + (if a mod b > 0 then 1 else 0)"

lemma unat_div_ceil [word_nat]:
  fixes a b :: "'a::len word"
  assumes "b \<noteq> 0"
  shows "unat (div_ceil a b) = nat_div_ceil (unat a) (unat b)"
proof -
  have b: "0 < unat b" using assms by (simp add: unat_gt_0)
  have gt: "a mod b > 0 \<longleftrightarrow> unat a mod unat b > 0"
    by (simp add: word_less_nat_alt unat_mod_distrib)
  have "unat (a div b + 1) = unat a div unat b + 1" if "unat a mod unat b > 0"
  proof -
    have "unat b \<noteq> 1" using that by auto
    with b have "2 \<le> unat b" by simp
    have "unat a div unat b < unat a"
    proof (rule div_less_dividend)
      show "1 < unat b" using \<open>2 \<le> unat b\<close> by simp
      show "0 < unat a" using that by (cases "unat a = 0") auto
    qed
    moreover have "unat a < 2 ^ LENGTH('a)" by (rule unsigned_less)
    ultimately have "unat a div unat b + 1 < 2 ^ LENGTH('a)" by linarith
    then have "unat (a div b) + unat (1 :: 'a word) < 2 ^ LENGTH('a)"
      by (simp add: unat_div_distrib)
    then have "unat (a div b + 1) = unat (a div b) + unat (1 :: 'a word)"
      by (rule unat_add_lem [THEN iffD1])
    then show ?thesis by (simp add: unat_div_distrib)
  qed
  then show ?thesis
    by (simp add: div_ceil_def Let_def gt nat_div_ceil_def unat_div_distrib)
qed

lemma nat_div_ceil_le_iff: "0 < b \<Longrightarrow> nat_div_ceil a b \<le> n \<longleftrightarrow> a \<le> n * b"
proof -
  assume b: "0 < b"
  have a: "a = a div b * b + a mod b" by simp
  show ?thesis
  proof (cases "a mod b = 0")
    case True
    then have "a = a div b * b" by auto
    then have "a \<le> n * b \<longleftrightarrow> a div b * b \<le> n * b" by simp
    also have "\<dots> \<longleftrightarrow> a div b \<le> n" using b by simp
    finally show ?thesis using True by (simp add: nat_div_ceil_def)
  next
    case False
    have "a div b < n \<longleftrightarrow> a \<le> n * b"
    proof
      assume "a div b < n"
      then have "a < n * b" using b by (simp add: div_less_iff_less_mult)
      then show "a \<le> n * b" by simp
    next
      assume "a \<le> n * b"
      moreover have "a \<noteq> n * b" using False by auto
      ultimately have "a < n * b" by simp
      then show "a div b < n" using b by (simp add: div_less_iff_less_mult)
    qed
    then show ?thesis using False by (simp add: nat_div_ceil_def Suc_le_eq)
  qed
qed

lemma less_nat_div_ceil_iff: "0 < b \<Longrightarrow> n < nat_div_ceil a b \<longleftrightarrow> n * b < a"
  by (meson nat_div_ceil_le_iff not_le)

lemma nat_div_ceil_0 [simp]: "nat_div_ceil 0 b = 0"
  by (simp add: nat_div_ceil_def)

text \<open>\<open>count_ones\<close>, the population count of an integer.\<close>

definition count_ones :: "'a::len word \<Rightarrow> nat" where
  "count_ones w = length (filter (bit w) [0..<LENGTH('a)])"

lemma count_ones_card: "count_ones (w :: 'a::len word) = card {k. bit w k}"
proof -
  have "count_ones w = card (set (filter (bit w) [0..<LENGTH('a)]))"
    unfolding count_ones_def by (rule distinct_card [symmetric]) simp
  also have "set (filter (bit w) [0..<LENGTH('a)]) = {k. bit w k}"
    by (auto dest: bit_imp_le_length)
  finally show ?thesis .
qed

lemma count_ones_le: "count_ones (w :: 'a::len word) \<le> LENGTH('a)"
  unfolding count_ones_def by (metis diff_zero length_filter_le length_upt)

lemma single_bit_test: "w AND push_bit k 1 \<noteq> 0 \<longleftrightarrow> bit (w :: 'a::len word) k"
proof -
  have *: "bit (w AND 2 ^ k) n \<longleftrightarrow> n = k \<and> bit w k" for n
    by (auto simp: bit_and_iff push_bit_eq_mult bit_exp_iff dest: bit_imp_le_length)
  have "w AND 2 ^ k \<noteq> 0 \<longleftrightarrow> (\<exists>n. bit (w AND 2 ^ k) n)"
    by (metis bit_0_eq bit_eqI bot_apply bot_bool_def)
  then show ?thesis
    by (simp add: *)
qed

lemma bit_low_mask: "bit (w AND (push_bit n 1 - 1)) k \<longleftrightarrow> bit (w :: 'a::len word) k \<and> k < n"
proof -
  have "push_bit n 1 - 1 = (mask n :: 'a word)"
    by (simp add: mask_eq_exp_minus_1 push_bit_eq_mult)
  then show ?thesis
    by (auto simp: bit_and_iff bit_mask_iff dest: bit_imp_le_length)
qed

end
