(* ===== verification/Bitfield.thy ===== *)
theory Bitfield
  imports Prelude
begin

text \<open>
  Presence bit fields, LSB first: chunk \<open>i\<close> is bit \<open>i mod 8\<close> of byte \<open>i div 8\<close>. The resume
  sidecar, the availability reply and the probe reply each carry one, with a declared number of
  entries that a peer or a disk may have made up. The locale \<open>bitfield\<close> states what the
  rest of the crate relies on; the three structures interpret it in their own theories.
\<close>

definition bit_at :: "bytes \<Rightarrow> nat \<Rightarrow> bool" where
  "bit_at bs k \<longleftrightarrow> k div 8 < length bs \<and> bit (bs ! (k div 8)) (k mod 8)"

definition popcount :: "bytes \<Rightarrow> nat" where
  "popcount bs = sum_list (map count_ones bs)"

lemma bit_at_length: "bit_at bs k \<Longrightarrow> k < 8 * length bs"
  by (auto simp: bit_at_def)

lemma finite_bit_at [simp]: "finite {k. bit_at bs k}"
  by (rule finite_subset [of _ "{..<8 * length bs}"]) (auto dest: bit_at_length)

lemma bit_at_snoc:
  "bit_at (bs @ [b]) k \<longleftrightarrow> bit_at bs k \<or> (k div 8 = length bs \<and> bit b (k mod 8))"
  by (auto simp: bit_at_def nth_append)

lemma bit_push_one: "bit (push_bit r 1 :: u8) k \<longleftrightarrow> k = r \<and> r < 8"
  by (auto simp: push_bit_eq_mult bit_exp_iff)

lemma bit_at_set_bit:
  assumes "j < length bs" and "r < 8"
  shows "bit_at (bs[j := (bs ! j) OR push_bit r 1]) k \<longleftrightarrow> bit_at bs k \<or> k = 8 * j + r"
proof (cases "k div 8 = j")
  case True
  then have "k = 8 * j + k mod 8" by auto
  then have "k = 8 * j + r \<longleftrightarrow> k mod 8 = r" by linarith
  with True assms show ?thesis
    unfolding bit_at_def by (auto simp: bit_or_iff bit_push_one simp del: push_bit_of_1)
next
  case False
  moreover from this assms(2) have "k \<noteq> 8 * j + r" by auto
  ultimately show ?thesis by (simp add: bit_at_def)
qed

lemma popcount_card: "popcount bs = card {k. bit_at bs k}"
proof (induction bs rule: rev_induct)
  case Nil
  then show ?case by (simp add: popcount_def bit_at_def)
next
  case (snoc b bs)
  define new where "new = (\<lambda>j. 8 * length bs + j) ` {j. bit b j}"
  have lt: "j < 8" if "bit b j" for j
    using that by (auto dest: bit_imp_le_length)
  have split: "{k. bit_at (bs @ [b]) k} = {k. bit_at bs k} \<union> new"
    unfolding new_def bit_at_snoc
    by (auto simp: image_iff lt) (metis mult_div_mod_eq)
  have disj: "{k. bit_at bs k} \<inter> new = {}"
    unfolding new_def by (auto dest!: bit_at_length)
  have fin: "finite {j. bit b j}"
    by (rule finite_subset [of _ "{..<8}"]) (auto dest: lt)
  then have "card new = count_ones b"
    unfolding new_def by (subst card_image) (auto simp: inj_on_def count_ones_card)
  moreover have "finite new" using fin by (simp add: new_def)
  ultimately have "card ({k. bit_at bs k} \<union> new) = popcount bs + count_ones b"
    by (simp add: card_Un_disjoint disj snoc.IH)
  then show ?case by (simp add: split popcount_def)
qed

lemma popcount_le: "popcount bs \<le> 8 * length bs"
proof (induction bs)
  case Nil
  then show ?case by (simp add: popcount_def)
next
  case (Cons b bs)
  then show ?case using count_ones_le[of b] by (simp add: popcount_def)
qed

text \<open>Summing population counts in \<open>u32\<close> is exact as long as the total fits.\<close>

lemma unat_sum_count_ones:
  "popcount bs < 2 ^ 32 \<Longrightarrow>
   unat (sum_list (map (\<lambda>b. of_nat (count_ones b)) bs) :: u32) = popcount bs"
proof (induction bs)
  case Nil
  then show ?case by (simp add: popcount_def)
next
  case (Cons b bs)
  let ?s = "sum_list (map (\<lambda>b. of_nat (count_ones b)) bs) :: u32"
  have pc: "popcount (b # bs) = count_ones b + popcount bs" by (simp add: popcount_def)
  with Cons have IH: "unat ?s = popcount bs" by simp
  have "unat (of_nat (count_ones b) :: u32) = count_ones b"
    using count_ones_le[of b] by (simp add: unat_of_nat)
  with IH Cons.prems pc have "unat (of_nat (count_ones b) :: u32) + unat ?s < 2 ^ LENGTH(32)"
    by simp
  then have "unat (of_nat (count_ones b) + ?s) = unat (of_nat (count_ones b) :: u32) + unat ?s"
    by (rule unat_add_lem [THEN iffD1])
  with IH show ?case by (simp add: pc \<open>unat (of_nat (count_ones b)) = count_ones b\<close>)
qed

text \<open>The bits below a limit: at most \<open>limit\<close> of them, whatever the bytes say.\<close>

definition bits_below :: "bytes \<Rightarrow> nat \<Rightarrow> nat set" where
  "bits_below bs n = {k. k < n \<and> bit_at bs k}"

lemma finite_bits_below [simp]: "finite (bits_below bs n)"
  by (rule finite_subset [of _ "{..<n}"]) (auto simp: bits_below_def)

lemma card_bits_below_le: "card (bits_below bs n) \<le> n"
  using card_mono [of "{..<n}" "bits_below bs n"] by (auto simp: bits_below_def)

lemma card_bits_below_eq: "card (bits_below bs n) = n \<longleftrightarrow> (\<forall>k<n. bit_at bs k)"
proof
  assume "card (bits_below bs n) = n"
  then have "bits_below bs n = {..<n}"
    by (intro card_subset_eq) (auto simp: bits_below_def)
  then show "\<forall>k<n. bit_at bs k" by (auto simp: bits_below_def)
next
  assume "\<forall>k<n. bit_at bs k"
  then have "bits_below bs n = {..<n}" by (auto simp: bits_below_def)
  then show "card (bits_below bs n) = n" by simp
qed

text \<open>The raw bit test of the sources, \<open>bits[i / 8] & (1 << (i % 8)) != 0\<close> on \<open>u32\<close> indices.\<close>

definition test_bit :: "bytes \<Rightarrow> u32 \<Rightarrow> bool" where
  "test_bit bs i \<longleftrightarrow> i div 8 < of_nat (length bs)
     \<and> (bs ! unat (i div 8)) AND push_bit (unat (i mod 8)) 1 \<noteq> 0"

lemma unat_div8 [simp]: "unat ((i :: u32) div 8) = unat i div 8"
  by (simp add: unat_div_distrib)

lemma unat_mod8 [simp]: "unat ((i :: u32) mod 8) = unat i mod 8"
  by (simp add: unat_mod_distrib)

lemma test_bit_eq: "length bs < 2 ^ 32 \<Longrightarrow> test_bit bs i \<longleftrightarrow> bit_at bs (unat i)"
  unfolding test_bit_def bit_at_def single_bit_test
  by (simp add: word_less_nat_alt unat_of_nat)

text \<open>Any bit field for a \<open>u32\<close> count has at most \<open>2 ^ 29\<close> bytes.\<close>

definition sized :: "bytes \<Rightarrow> bool" where
  "sized bs \<longleftrightarrow> length bs \<le> 2 ^ 29"

lemma sized_length: "sized bs \<Longrightarrow> length bs < 2 ^ 32"
  by (simp add: sized_def)

lemma test_bit_sized: "sized bs \<Longrightarrow> test_bit bs i \<longleftrightarrow> bit_at bs (unat i)"
  by (rule test_bit_eq [OF sized_length])

lemma sized_div_ceil: "length bs = nat_div_ceil (unat (n :: u32)) 8 \<Longrightarrow> sized bs"
proof -
  have "unat n < 2 ^ 32" using unsigned_less[of n] by simp
  then have "nat_div_ceil (unat n) 8 \<le> 2 ^ 29" by (simp add: nat_div_ceil_le_iff)
  then show "length bs = nat_div_ceil (unat n) 8 \<Longrightarrow> ?thesis" by (simp add: sized_def)
qed

text \<open>
  What clients of a bit field rely on: membership is bounded by the declared limit and the count
  is the number of members, so it can never exceed that limit.
\<close>

locale bitfield =
  fixes bits :: "'s \<Rightarrow> bytes"
    and limit :: "'s \<Rightarrow> u32"
    and is_set :: "'s \<Rightarrow> u32 \<Rightarrow> bool"
    and count :: "'s \<Rightarrow> u32"
  assumes is_set_iff: "sized (bits s) \<Longrightarrow>
            is_set s i \<longleftrightarrow> i < limit s \<and> bit_at (bits s) (unat i)"
    and count_eq: "sized (bits s) \<Longrightarrow> unat (count s) = card (bits_below (bits s) (unat (limit s)))"
begin

lemma bits_below_image:
  "sized (bits s) \<Longrightarrow> bits_below (bits s) (unat (limit s)) = unat ` {i. is_set s i}"
proof (intro set_eqI iffI)
  fix k assume len: "sized (bits s)" and "k \<in> bits_below (bits s) (unat (limit s))"
  then have k: "k < unat (limit s)" "bit_at (bits s) k" by (auto simp: bits_below_def)
  then have "k < 2 ^ LENGTH(32)" using unsigned_less[of "limit s"] by (meson less_trans)
  then have "unat (of_nat k :: u32) = k" by (simp add: unat_of_nat)
  moreover from this k len have "is_set s (of_nat k)"
    by (simp add: is_set_iff word_less_nat_alt)
  ultimately show "k \<in> unat ` {i. is_set s i}" by (metis imageI mem_Collect_eq)
next
  fix k assume "sized (bits s)" "k \<in> unat ` {i. is_set s i}"
  then show "k \<in> bits_below (bits s) (unat (limit s))"
    by (auto simp: bits_below_def is_set_iff word_less_nat_alt)
qed

lemma count_card: "sized (bits s) \<Longrightarrow> unat (count s) = card {i. is_set s i}"
  unfolding count_eq bits_below_image by (rule card_image) (auto simp: inj_on_def word_unat_eq_iff)

lemma count_le_limit: "sized (bits s) \<Longrightarrow> count s \<le> limit s"
  by (simp add: word_le_nat_alt count_eq card_bits_below_le)

lemma count_full_iff:
  assumes "sized (bits s)"
  shows "limit s \<le> count s \<longleftrightarrow> (\<forall>i < limit s. is_set s i)"
proof -
  have "limit s \<le> count s \<longleftrightarrow> card (bits_below (bits s) (unat (limit s))) = unat (limit s)"
    using card_bits_below_le[of "bits s" "unat (limit s)"]
    by (auto simp: word_le_nat_alt count_eq assms)
  also have "\<dots> \<longleftrightarrow> (\<forall>k < unat (limit s). bit_at (bits s) k)"
    by (rule card_bits_below_eq)
  also have "\<dots> \<longleftrightarrow> (\<forall>i < limit s. is_set s i)"
  proof
    assume "\<forall>k < unat (limit s). bit_at (bits s) k"
    then show "\<forall>i < limit s. is_set s i"
      using assms by (metis is_set_iff word_less_nat_alt)
  next
    assume *: "\<forall>i < limit s. is_set s i"
    show "\<forall>k < unat (limit s). bit_at (bits s) k"
    proof (intro allI impI)
      fix k assume k: "k < unat (limit s)"
      then have "k < 2 ^ LENGTH(32)" using unsigned_less[of "limit s"] by (meson less_trans)
      then have "unat (of_nat k :: u32) = k" by (simp add: unat_of_nat)
      with k * show "bit_at (bits s) k"
        by (metis assms is_set_iff word_less_nat_alt)
    qed
  qed
  finally show ?thesis .
qed

end

end
