(* ===== verification/Errors.thy ===== *)
theory Errors
  imports Prelude
begin

text \<open>
  The error type of the crate (\<open>src/src/error.rs\<close>). Every constructor of \<open>BlobError\<close> is kept
  with its typed fields; the free-text diagnostics are not, since no code branches on them.
  Of an I/O error the model keeps the kind, as far as the sources look at it.
\<close>

text \<open>A content hash is 32 raw bytes; \<open>hash_wf\<close> says so for values that come from outside.\<close>

type_synonym hash = bytes

datatype io_error = IoNotFound | IoUnexpectedEof | IoOther

datatype blob_error =
    Zenoh
  | Io io_error
  | Encode
  | Task
  | UnsupportedVersion u16
  | InvalidManifest
  | RootMismatch (expected: hash) (actual: hash)
  | CorruptStore hash
  | ChunkLengthMismatch (expected_len: u32) (actual_len: u32)
  | InvalidRanges
  | NotFound
  | Incomplete (inc_received: u32) (inc_total: u32)
  | Cancelled (can_received: u32) (can_total: u32)
  | DestinationExists
  | PushDenied
  | UnsafePath
  | InvalidPrefix
  | MalformedMessage
  | NotSettled
  | Usage
  | Protocol

datatype error_kind = KTransport | KIo | KUsage | KProtocol | KIntegrity | KCancelled | KInternal

type_synonym 'a res = "blob_error + 'a"

fun error_kind_of :: "blob_error \<Rightarrow> error_kind" where
  "error_kind_of Zenoh = KTransport"
| "error_kind_of NotFound = KTransport"
| "error_kind_of NotSettled = KTransport"
| "error_kind_of (Incomplete _ _) = KTransport"
| "error_kind_of (Io _) = KIo"
| "error_kind_of Task = KInternal"
| "error_kind_of (Cancelled _ _) = KCancelled"
| "error_kind_of (RootMismatch _ _) = KIntegrity"
| "error_kind_of (CorruptStore _) = KIntegrity"
| "error_kind_of (ChunkLengthMismatch _ _) = KIntegrity"
| "error_kind_of InvalidPrefix = KUsage"
| "error_kind_of Usage = KUsage"
| "error_kind_of DestinationExists = KUsage"
| "error_kind_of InvalidRanges = KUsage"
| "error_kind_of Encode = KProtocol"
| "error_kind_of (UnsupportedVersion _) = KProtocol"
| "error_kind_of InvalidManifest = KProtocol"
| "error_kind_of MalformedMessage = KProtocol"
| "error_kind_of UnsafePath = KProtocol"
| "error_kind_of PushDenied = KProtocol"
| "error_kind_of Protocol = KProtocol"

definition is_retriable :: "blob_error \<Rightarrow> bool" where
  "is_retriable e \<longleftrightarrow> error_kind_of e = KTransport"

definition is_cancelled_error :: "blob_error \<Rightarrow> bool" where
  "is_cancelled_error e \<longleftrightarrow> (case e of Cancelled _ _ \<Rightarrow> True | _ \<Rightarrow> False)"

lemma cancelled_not_retriable: "is_cancelled_error e \<Longrightarrow> \<not> is_retriable e"
  by (cases e) (simp_all add: is_cancelled_error_def is_retriable_def)

text \<open>Lifting an I/O result into the crate's error type, the \<open>From\<close> conversion \<open>?\<close> applies.\<close>

definition from_io :: "io_error + 'a \<Rightarrow> 'a res" where
  "from_io r = (case r of Inl e \<Rightarrow> Inl (Io e) | Inr x \<Rightarrow> Inr x)"

lemma from_io_simps [simp, result_simps]: "from_io (Inl e) = Inl (Io e)" "from_io (Inr x) = Inr x"
  by (simp_all add: from_io_def)

lemma from_io_Inr [result_simps]: "from_io r = Inr x \<longleftrightarrow> r = Inr x"
  by (cases r) simp_all

text \<open>The \<open>?\<close> operator in code that changes a state on the way, errors included.\<close>

definition then_io :: "('e + 'a) \<times> 's \<Rightarrow> ('a \<Rightarrow> 's \<Rightarrow> ('e + 'b) \<times> 's) \<Rightarrow> ('e + 'b) \<times> 's" where
  "then_io r f = (case r of (Inl e, s) \<Rightarrow> (Inl e, s) | (Inr x, s) \<Rightarrow> f x s)"

lemma then_io_simps [simp, result_simps]:
  "then_io (Inl e, s) f = (Inl e, s)" "then_io (Inr x, s) f = f x s"
  by (simp_all add: then_io_def)

lemma then_io_cases:
  assumes "then_io r f = out"
  obtains e where "r = (Inl e, snd out)" "fst out = Inl e"
  | x s where "r = (Inr x, s)" "f x s = out"
  using assms by (cases r; cases "fst r") (auto simp: then_io_def)

text \<open>What holds of the state after both steps, however the first one ended.\<close>

lemma then_io_inv:
  assumes "P (snd r)" and "\<And>x s. r = (Inr x, s) \<Longrightarrow> P s \<Longrightarrow> P (snd (f x s))"
  shows "P (snd (then_io r f))"
  using assms by (cases r; cases "fst r") (auto simp: then_io_def)

lemma then_io_Inr:
  "then_io r f = (Inr y, t) \<longleftrightarrow> (\<exists>x s. r = (Inr x, s) \<and> f x s = (Inr y, t))"
  by (cases r; cases "fst r") (auto simp: then_io_def)

lemma then_io_assoc: "then_io (then_io r f) g = then_io r (\<lambda>x s. then_io (f x s) g)"
  by (cases r; cases "fst r") (auto simp: then_io_def)

text \<open>For evaluation: run the first step before looking into the second.\<close>

lemma then_io_cong_weak: "r = r' \<Longrightarrow> then_io r f = then_io r' f"
  by simp

end
