(* ===== verification/HashId.thy ===== *)
theory HashId
  imports Errors
begin

text \<open>
  Content hashes as text and blob identifiers (\<open>src/src/hash.rs\<close>, \<open>src/src/id.rs\<close>). A Rust
  string is its UTF-8 bytes, a \<open>string\<close> here; \<open>length\<close> is \<open>str::len\<close>. BLAKE3 itself is
  code of another crate and appears as a parameter wherever content is hashed.
\<close>

section \<open>Hash algorithm names and hex rendering\<close>

datatype hash_algo = Blake3

fun algo_as_str :: "hash_algo \<Rightarrow> string" where
  "algo_as_str Blake3 = ''blake3''"

definition algo_from_str :: "string \<Rightarrow> hash_algo res" where
  "algo_from_str s = (if s = ''blake3'' then Inr Blake3 else Inl MalformedMessage)"

definition hash_wf :: "hash \<Rightarrow> bool" where
  "hash_wf h \<longleftrightarrow> length h = 32"

definition hex_digit :: "nat \<Rightarrow> char" where
  "hex_digit n = ''0123456789abcdef'' ! n"

text \<open>\<open>write!(f, "{byte:02x}")\<close> for every byte.\<close>

definition byte_hex :: "u8 \<Rightarrow> string" where
  "byte_hex b = [hex_digit (unat b div 16), hex_digit (unat b mod 16)]"

definition hash_display :: "hash \<Rightarrow> string" where
  "hash_display h = concat (map byte_hex h)"

definition hex_val :: "u8 \<Rightarrow> u8 option" where
  "hex_val c =
     (if 0x30 \<le> c \<and> c \<le> 0x39 then Some (c - 0x30)
      else if 0x61 \<le> c \<and> c \<le> 0x66 then Some (c - 0x61 + 10)
      else if 0x41 \<le> c \<and> c \<le> 0x46 then Some (c - 0x41 + 10)
      else None)"

datatype hash_parse_error = HashParseError

text \<open>The loop over \<open>out.iter_mut()\<close>: byte \<open>i\<close> from the characters \<open>2 i\<close> and \<open>2 i + 1\<close>.\<close>

fun hash_pairs :: "string \<Rightarrow> hash_parse_error + hash" where
  "hash_pairs (hi # lo # rest) =
     (case hex_val (of_char hi) of None \<Rightarrow> Inl HashParseError
      | Some h \<Rightarrow> (case hex_val (of_char lo) of None \<Rightarrow> Inl HashParseError
        | Some l \<Rightarrow> and_then (hash_pairs rest) (\<lambda>bs. Inr ((push_bit 4 h OR l) # bs))))"
| "hash_pairs _ = Inr []"

definition hash_from_str :: "string \<Rightarrow> hash_parse_error + hash" where
  "hash_from_str s = (if length s \<noteq> 64 then Inl HashParseError else hash_pairs s)"

lemma hex_val_digit: "n < 16 \<Longrightarrow> hex_val (of_char (hex_digit n)) = Some (of_nat n)"
proof -
  have "\<forall>n \<in> set [0..<16]. hex_val (of_char (hex_digit n)) = Some (of_nat n)" by code_simp
  then show "n < 16 \<Longrightarrow> ?thesis" by simp
qed

lemma join_nibbles: "push_bit 4 (of_nat (unat b div 16)) OR of_nat (unat b mod 16) = (b :: u8)"
proof -
  have "\<forall>n \<in> set [0..<256]. push_bit 4 (of_nat (n div 16)) OR of_nat (n mod 16) = (of_nat n :: u8)"
    by code_simp
  moreover have "unat b < 256" using unsigned_less[of b] by simp
  ultimately have "push_bit 4 (of_nat (unat b div 16)) OR of_nat (unat b mod 16) = (of_nat (unat b) :: u8)"
    by simp
  then show ?thesis by simp
qed

lemma length_hash_display [simp]: "length (hash_display h) = 2 * length h"
  by (induction h) (simp_all add: hash_display_def byte_hex_def)

lemma hash_pairs_display: "hash_pairs (hash_display h) = Inr h"
proof (induction h)
  case Nil
  then show ?case by (simp add: hash_display_def)
next
  case (Cons b h)
  have "unat b < 256" using unsigned_less[of b] by simp
  then have "unat b div 16 < 16" "unat b mod 16 < 16" by auto
  then show ?case
    using Cons by (simp add: hash_display_def byte_hex_def hex_val_digit join_nibbles)
qed

lemma hash_pairs_length: "hash_pairs s = Inr h \<Longrightarrow> length h = length s div 2"
proof (induction s arbitrary: h rule: hash_pairs.induct)
  case (1 hi lo rest)
  then show ?case by (auto simp: and_then_Inr split: option.splits)
qed simp_all

lemma hash_from_str_display: "hash_wf h \<Longrightarrow> hash_from_str (hash_display h) = Inr h"
  by (simp add: hash_from_str_def hash_wf_def hash_pairs_display)

lemma hash_from_str_wf: "hash_from_str s = Inr h \<Longrightarrow> hash_wf h"
  by (auto simp: hash_from_str_def hash_wf_def dest: hash_pairs_length split: if_splits)

lemma hash_display_inj: "hash_display g = hash_display h \<Longrightarrow> g = h"
  by (metis hash_pairs_display sum.inject(2))

lemma hex_digit_char: "n < 16 \<Longrightarrow> hex_digit n \<in> set ''0123456789abcdef''"
  unfolding hex_digit_def by (rule nth_mem) simp

lemma hash_display_chars: "set (hash_display h) \<subseteq> set ''0123456789abcdef''"
proof (induction h)
  case Nil
  then show ?case by (simp add: hash_display_def)
next
  case (Cons b h)
  have b: "unat b < 256" using unsigned_less[of b] by simp
  then have "hex_digit (unat b div 16) \<in> set ''0123456789abcdef''"
    by (intro hex_digit_char) linarith
  moreover have "hex_digit (unat b mod 16) \<in> set ''0123456789abcdef''"
    by (intro hex_digit_char) simp
  moreover have "set (hash_display (b # h)) =
      {hex_digit (unat b div 16), hex_digit (unat b mod 16)} \<union> set (hash_display h)"
    by (auto simp: hash_display_def byte_hex_def)
  ultimately show ?case using Cons by (metis Un_least empty_subsetI insert_subset)
qed

section \<open>Blob identifiers\<close>

text \<open>
  \<open>char::is_whitespace\<close> on a UTF-8 string: the encodings of the White\_Space code points
  (U+0009 to U+000D, U+0020, U+0085, U+00A0, U+1680, U+2000 to U+200A, U+2028, U+2029, U+202F,
  U+205F, U+3000). UTF-8 is self-synchronizing, so looking for the byte sequences is exact.
\<close>

fun starts_with_whitespace :: "nat list \<Rightarrow> bool" where
  "starts_with_whitespace (a # b # c # _) =
     ((9 \<le> a \<and> a \<le> 13) \<or> a = 32 \<or> (a = 0xC2 \<and> (b = 0x85 \<or> b = 0xA0))
      \<or> (a = 0xE1 \<and> b = 0x9A \<and> c = 0x80)
      \<or> (a = 0xE2 \<and> b = 0x80 \<and> ((0x80 \<le> c \<and> c \<le> 0x8A) \<or> c = 0xA8 \<or> c = 0xA9 \<or> c = 0xAF))
      \<or> (a = 0xE2 \<and> b = 0x81 \<and> c = 0x9F) \<or> (a = 0xE3 \<and> b = 0x80 \<and> c = 0x80))"
| "starts_with_whitespace (a # b # _) =
     ((9 \<le> a \<and> a \<le> 13) \<or> a = 32 \<or> (a = 0xC2 \<and> (b = 0x85 \<or> b = 0xA0)))"
| "starts_with_whitespace (a # _) = ((9 \<le> a \<and> a \<le> 13) \<or> a = 32)"
| "starts_with_whitespace [] = False"

fun has_whitespace :: "string \<Rightarrow> bool" where
  "has_whitespace [] = False"
| "has_whitespace (c # s) = (starts_with_whitespace (map of_char (c # s)) \<or> has_whitespace s)"

lemma starts_with_whitespace_ascii:
  "bs \<noteq> [] \<Longrightarrow> 32 < hd bs \<Longrightarrow> hd bs < 128 \<Longrightarrow> \<not> starts_with_whitespace bs"
  by (cases bs rule: starts_with_whitespace.cases) auto

lemma no_whitespace_ascii:
  "(\<And>c. c \<in> set s \<Longrightarrow> 32 < (of_char c :: nat) \<and> (of_char c :: nat) < 128) \<Longrightarrow> \<not> has_whitespace s"
proof (induction s)
  case (Cons c s)
  have "\<not> starts_with_whitespace (map of_char (c # s))"
    using Cons.prems[of c] by (intro starts_with_whitespace_ascii) simp_all
  with Cons show ?case by simp
qed simp

text \<open>An identifier that passed \<open>BlobId::new\<close> is kept as its string.\<close>

type_synonym blob_id = string

definition MAX_ID_LEN :: nat where "MAX_ID_LEN = 200"

definition id_forbidden :: "char list" where
  "id_forbidden = [CHR ''/'', CHR 0x5C, CHR ''*'', CHR ''?'', CHR ''#'', CHR ''$'']"

definition id_is_valid :: "string \<Rightarrow> bool" where
  "id_is_valid s \<longleftrightarrow> s \<noteq> [] \<and> length s \<le> MAX_ID_LEN \<and> s \<noteq> ''..''
     \<and> \<not> (take 1 s = ''@'') \<and> (\<forall>c \<in> set s. c \<notin> set id_forbidden)
     \<and> \<not> has_whitespace s"

definition blob_id_new :: "string \<Rightarrow> blob_id res" where
  "blob_id_new s = (if id_is_valid s then Inr s else Inl InvalidManifest)"

lemma blob_id_new_Inr [result_simps]: "blob_id_new s = Inr i \<longleftrightarrow> i = s \<and> id_is_valid s"
  by (auto simp: blob_id_new_def)

lemma id_is_valid_no_slash: "id_is_valid s \<Longrightarrow> CHR ''/'' \<notin> set s"
  by (auto simp: id_is_valid_def id_forbidden_def)

lemma id_is_valid_no_star: "id_is_valid s \<Longrightarrow> CHR ''*'' \<notin> set s"
  by (auto simp: id_is_valid_def id_forbidden_def)

lemma id_is_valid_no_query: "id_is_valid s \<Longrightarrow> CHR ''?'' \<notin> set s"
  by (auto simp: id_is_valid_def id_forbidden_def)

text \<open>A hex digest is always a legal identifier, so \<open>keyed_by_root\<close> cannot panic.\<close>

lemma hash_display_valid_id:
  assumes "hash_wf h"
  shows "id_is_valid (hash_display h)"
proof -
  have len: "length (hash_display h) = 64" using assms by (simp add: hash_wf_def)
  have hex: "c \<in> set ''0123456789abcdef''" if "c \<in> set (hash_display h)" for c
    using hash_display_chars that by blast
  then have ok: "32 < (of_char c :: nat) \<and> (of_char c :: nat) < 128 \<and> c \<notin> set id_forbidden \<and> c \<noteq> CHR ''@''"
    if "c \<in> set (hash_display h)" for c
    using hex [OF that] by (auto simp: id_forbidden_def)
  have "take 1 (hash_display h) \<noteq> ''@''"
  proof
    assume "take 1 (hash_display h) = ''@''"
    then have "CHR ''@'' \<in> set (hash_display h)"
      by (metis in_set_takeD list.set_intros(1))
    with ok show False by blast
  qed
  moreover have "\<not> has_whitespace (hash_display h)" using ok by (intro no_whitespace_ascii) blast
  moreover have "hash_display h \<noteq> []" "hash_display h \<noteq> ''..''" using len by fastforce+
  ultimately show ?thesis using ok len by (simp add: id_is_valid_def MAX_ID_LEN_def)
qed

end
