(* ===== verification/Wire.thy ===== *)
theory Wire
  imports Bitfield HashId
begin

text \<open>
  The control messages (\<open>src/src/wire.rs\<close>): the extension list, want lists, probe and
  availability replies, index descriptors and tree probes, with the validators a receiver runs
  on them. The postcard encoding is another crate's and is a parameter where messages are sent.
\<close>

definition WIRE_VERSION :: u16 where "WIRE_VERSION = 3"

text \<open>The encoding tags; a \<open>foreign_tag\<close> is any other Zenoh encoding a peer may put.\<close>

datatype wire_tag =
    ENC_MANIFEST | ENC_SLICE | ENC_INDEX | ENC_INDEX_DESC | ENC_CHUNK | ENC_PUSH | ENC_AVAIL
  | ENC_HAVEBITS | ENC_TREEPROBE | ENC_FANOUT | foreign_tag string

section \<open>Little-endian numbers\<close>

definition to_le_bytes :: "nat \<Rightarrow> 'a::len word \<Rightarrow> bytes" where
  "to_le_bytes n w = map (\<lambda>i. ucast (drop_bit (8 * i) w)) [0..<n]"

definition from_le_bytes :: "bytes \<Rightarrow> 'a::len word" where
  "from_le_bytes bs = foldr (\<lambda>b acc. push_bit 8 acc OR ucast b) bs 0"

lemma length_to_le_bytes [simp]: "length (to_le_bytes n w) = n"
  by (simp add: to_le_bytes_def)

lemma bit_at_Cons: "bit_at (b # bs) k \<longleftrightarrow> (if k < 8 then bit b k else bit_at bs (k - 8))"
proof (cases "k < 8")
  case False
  then obtain j where "k = j + 8" by (metis add.commute le_Suc_ex not_less)
  moreover have "(j + 8) div 8 = Suc (j div 8)" by simp
  ultimately show ?thesis by (simp add: bit_at_def del: div_add_self2)
qed (simp add: bit_at_def)

lemma bit_from_le_bytes:
  "bit (from_le_bytes bs :: 'a::len word) k \<longleftrightarrow> k < LENGTH('a) \<and> bit_at bs k"
proof (induction bs arbitrary: k)
  case Nil
  then show ?case by (simp add: from_le_bytes_def bit_at_def)
next
  case (Cons b bs)
  have "bit (from_le_bytes (b # bs) :: 'a word) k \<longleftrightarrow>
      (8 \<le> k \<and> k < LENGTH('a) \<and> bit (from_le_bytes bs :: 'a word) (k - 8))
      \<or> (k < LENGTH('a) \<and> bit b k)"
    by (auto simp: from_le_bytes_def bit_or_iff bit_push_bit_iff bit_ucast_iff)
  also have "\<dots> \<longleftrightarrow> k < LENGTH('a) \<and> bit_at (b # bs) k"
    by (auto simp: Cons.IH bit_at_Cons dest: bit_imp_le_length)
  finally show ?case .
qed

lemma bit_at_to_le_bytes: "bit_at (to_le_bytes n w) k \<longleftrightarrow> k < 8 * n \<and> bit w k"
  by (auto simp: bit_at_def to_le_bytes_def bit_ucast_iff bit_drop_bit_eq)

lemma from_to_le_bytes:
  "LENGTH('a) \<le> 8 * n \<Longrightarrow> from_le_bytes (to_le_bytes n w) = (w :: 'a::len word)"
  by (rule bit_word_eqI) (auto simp: bit_from_le_bytes bit_at_to_le_bytes)

section \<open>The extension list\<close>

type_synonym ext = "(u16 \<times> bytes) list"

definition EXT_MAX_FIELDS :: nat where "EXT_MAX_FIELDS = 16"
definition EXT_MAX_VALUE_LEN :: nat where "EXT_MAX_VALUE_LEN = 256"

definition EXT_MAX_CHUNKS_PER_QUERY :: u16 where "EXT_MAX_CHUNKS_PER_QUERY = 1"
definition EXT_MAX_BLOB_SIZE :: u16 where "EXT_MAX_BLOB_SIZE = 2"

definition ext_new :: ext where "ext_new = []"

definition ext_from_fields :: "(u16 \<times> bytes) list \<Rightarrow> ext res" where
  "ext_from_fields fields =
     (if length fields > EXT_MAX_FIELDS then Inl MalformedMessage
      else (case find (\<lambda>(_, v). length v > EXT_MAX_VALUE_LEN) fields of
              Some _ \<Rightarrow> Inl MalformedMessage | None \<Rightarrow> Inr fields))"

definition ext_get :: "ext \<Rightarrow> u16 \<Rightarrow> bytes option" where
  "ext_get e i = map_option snd (find (\<lambda>(k, _). k = i) e)"

definition ext_get_u32 :: "ext \<Rightarrow> u16 \<Rightarrow> u32 option" where
  "ext_get_u32 e i = (case ext_get e i of None \<Rightarrow> None
     | Some v \<Rightarrow> if length v = 4 then Some (from_le_bytes v) else None)"

definition ext_get_u64 :: "ext \<Rightarrow> u16 \<Rightarrow> u64 option" where
  "ext_get_u64 e i = (case ext_get e i of None \<Rightarrow> None
     | Some v \<Rightarrow> if length v = 8 then Some (from_le_bytes v) else None)"

text \<open>
  \<open>set\<close> mutates in place: the fields are taken out of \<open>self\<close> first, so the second component,
  the state left behind, is empty when the bounds check refuses the new list.
\<close>

definition ext_set :: "ext \<Rightarrow> u16 \<Rightarrow> bytes \<Rightarrow> unit res \<times> ext" where
  "ext_set e i value =
     (let fields = filter (\<lambda>(k, _). k \<noteq> i) e @ [(i, value)] in
      case ext_from_fields fields of Inl err \<Rightarrow> (Inl err, []) | Inr e' \<Rightarrow> (Inr (), e'))"

definition ext_set_u32 :: "ext \<Rightarrow> u16 \<Rightarrow> u32 \<Rightarrow> unit res \<times> ext" where
  "ext_set_u32 e i value = ext_set e i (to_le_bytes 4 value)"

definition ext_set_u64 :: "ext \<Rightarrow> u16 \<Rightarrow> u64 \<Rightarrow> unit res \<times> ext" where
  "ext_set_u64 e i value = ext_set e i (to_le_bytes 8 value)"

definition ext_wf :: "ext \<Rightarrow> bool" where
  "ext_wf e \<longleftrightarrow> length e \<le> EXT_MAX_FIELDS \<and> (\<forall>(_, v) \<in> set e. length v \<le> EXT_MAX_VALUE_LEN)"

lemma ext_from_fields_Inr: "ext_from_fields fs = Inr e \<longleftrightarrow> e = fs \<and> ext_wf fs"
proof -
  have "find (\<lambda>(_, v). length v > EXT_MAX_VALUE_LEN) fs = None
      \<longleftrightarrow> (\<forall>(_, v) \<in> set fs. length v \<le> EXT_MAX_VALUE_LEN)"
    by (auto simp: find_None_iff not_less)
  then show ?thesis
    by (auto simp: ext_from_fields_def ext_wf_def simp del: find_None_iff split: option.splits)
qed

lemma ext_set_wf: "ext_wf (snd (ext_set e i v))"
proof (cases "ext_from_fields (filter (\<lambda>(k, _). k \<noteq> i) e @ [(i, v)])")
  case (Inl err)
  then show ?thesis by (simp add: ext_set_def ext_wf_def)
next
  case (Inr e')
  then show ?thesis by (simp add: ext_set_def) (simp add: ext_from_fields_Inr)
qed

lemma find_filter_other: "j \<noteq> i \<Longrightarrow>
  find (\<lambda>(k, _). k = j) (filter (\<lambda>(k, _). k \<noteq> i) e @ [(i, v)]) = find (\<lambda>(k, _). k = j) e"
  by (induction e) auto

lemma find_filter_same:
  "find (\<lambda>(k, _). k = i) (filter (\<lambda>(k, _). k \<noteq> i) e @ [(i, v)]) = Some (i, v)"
  by (induction e) auto

lemma ext_set_get:
  assumes "ext_set e i v = (Inr (), e')"
  shows "ext_get e' j = (if j = i then Some v else ext_get e j)"
proof -
  have "e' = filter (\<lambda>(k, _). k \<noteq> i) e @ [(i, v)]"
    using assms by (auto simp: ext_set_def Let_def ext_from_fields_Inr split: sum.splits)
  then show ?thesis
    by (simp add: ext_get_def find_filter_other find_filter_same)
qed

lemma ext_set_error: "ext_set e i v = (Inl err, e') \<Longrightarrow> err = MalformedMessage \<and> e' = []"
  by (auto simp: ext_set_def Let_def ext_from_fields_def split: sum.splits if_splits option.splits)

lemma ext_set_u32_get:
  "ext_set_u32 e i n = (Inr (), e') \<Longrightarrow> ext_get_u32 e' i = Some n"
  by (simp add: ext_set_u32_def ext_get_u32_def from_to_le_bytes ext_set_get)

lemma ext_set_u64_get:
  "ext_set_u64 e i n = (Inr (), e') \<Longrightarrow> ext_get_u64 e' i = Some n"
  by (simp add: ext_set_u64_def ext_get_u64_def from_to_le_bytes ext_set_get)

section \<open>Want lists\<close>

record want_list =
  wl_version :: u16
  wl_hashes :: "hash list"

definition MAX_WANT_LIST :: nat where "MAX_WANT_LIST = 512"

definition want_list_new :: "hash list \<Rightarrow> want_list" where
  "want_list_new hs = \<lparr>wl_version = WIRE_VERSION, wl_hashes = hs\<rparr>"

text \<open>The scan with a hash set: the first hash that was already inserted.\<close>

fun first_repeat :: "hash set \<Rightarrow> hash list \<Rightarrow> hash option" where
  "first_repeat seen [] = None"
| "first_repeat seen (h # hs) = (if h \<in> seen then Some h else first_repeat (insert h seen) hs)"

definition want_list_validate :: "want_list \<Rightarrow> nat \<Rightarrow> unit res" where
  "want_list_validate w mx =
     (if wl_version w \<noteq> WIRE_VERSION then Inl (UnsupportedVersion (wl_version w))
      else if wl_hashes w = [] then Inl MalformedMessage
      else if length (wl_hashes w) > mx then Inl MalformedMessage
      else (case first_repeat {} (wl_hashes w) of
              Some dup \<Rightarrow> Inl MalformedMessage | None \<Rightarrow> Inr ()))"

lemma first_repeat_None: "first_repeat seen hs = None \<longleftrightarrow> distinct hs \<and> set hs \<inter> seen = {}"
  by (induction hs arbitrary: seen) auto

lemma want_list_validate_Inr:
  "want_list_validate w mx = Inr () \<longleftrightarrow> wl_version w = WIRE_VERSION \<and> wl_hashes w \<noteq> []
     \<and> length (wl_hashes w) \<le> mx \<and> distinct (wl_hashes w)"
  using first_repeat_None[of "{}" "wl_hashes w"]
  by (auto simp: want_list_validate_def split: option.splits)

section \<open>Probe replies and availability\<close>

definition count_bits :: "bytes \<Rightarrow> u32 \<Rightarrow> u32" where
  "count_bits bs limit =
     (let full = unat (limit div 8);
          n = sum_list (map (\<lambda>b. of_nat (count_ones b)) (take full bs));
          rem = limit mod 8
      in if full < length bs \<and> rem > 0
         then n + of_nat (count_ones ((bs ! full) AND (push_bit (unat rem) 1 - 1)))
         else n)"

record have_bits =
  hb_version :: u16
  hb_count :: u32
  hb_bits :: bytes

text \<open>\<open>from_presence\<close>: the loop over \<open>enumerate()\<close>, with the index, count and bits so far.\<close>

fun presence_loop :: "nat \<Rightarrow> u32 \<Rightarrow> bytes \<Rightarrow> bool list \<Rightarrow> u32 \<times> bytes" where
  "presence_loop i count bits [] = (count, bits)"
| "presence_loop i count bits (yes # rest) =
     (let bits1 = (if i mod 8 = 0 then bits @ [0] else bits);
          last = length bits1 - 1;
          bits2 = (if yes then bits1[last := (bits1 ! last) OR push_bit (i mod 8) 1] else bits1)
      in presence_loop (Suc i) (count + 1) bits2 rest)"

definition have_bits_from_presence :: "bool list \<Rightarrow> have_bits" where
  "have_bits_from_presence present =
     (let (count, bits) = presence_loop 0 0 [] present in
      \<lparr>hb_version = WIRE_VERSION, hb_count = count, hb_bits = bits\<rparr>)"

definition have_bits_is_set :: "have_bits \<Rightarrow> u32 \<Rightarrow> bool" where
  "have_bits_is_set h i \<longleftrightarrow> i < hb_count h \<and> test_bit (hb_bits h) i"

definition have_bits_count_set :: "have_bits \<Rightarrow> u32" where
  "have_bits_count_set h = count_bits (hb_bits h) (hb_count h)"

definition have_bits_validate :: "have_bits \<Rightarrow> nat \<Rightarrow> unit res" where
  "have_bits_validate h asked =
     (if hb_version h \<noteq> WIRE_VERSION then Inl (UnsupportedVersion (hb_version h))
      else if unat (hb_count h) \<noteq> asked then Inl MalformedMessage
      else if length (hb_bits h) \<noteq> unat (div_ceil (hb_count h) 8) then Inl MalformedMessage
      else Inr ())"

record availability =
  av_version :: u16
  av_chunk_count :: u32
  av_bits :: bytes

definition availability_full :: "u32 \<Rightarrow> availability" where
  "availability_full n =
     (let bits = replicate (unat (div_ceil n 8)) 0xff;
          bits' = (if bits \<noteq> [] \<and> n mod 8 \<noteq> 0
                   then bits[length bits - 1 := push_bit (unat (n mod 8)) 1 - 1] else bits)
      in \<lparr>av_version = WIRE_VERSION, av_chunk_count = n, av_bits = bits'\<rparr>)"

definition availability_is_set :: "availability \<Rightarrow> u32 \<Rightarrow> bool" where
  "availability_is_set a i \<longleftrightarrow> i < av_chunk_count a \<and> test_bit (av_bits a) i"

definition availability_count :: "availability \<Rightarrow> u32" where
  "availability_count a = count_bits (av_bits a) (av_chunk_count a)"

definition availability_validate :: "availability \<Rightarrow> u32 \<Rightarrow> unit res" where
  "availability_validate a max_chunks =
     (if av_version a \<noteq> WIRE_VERSION then Inl (UnsupportedVersion (av_version a))
      else if av_chunk_count a > max_chunks then Inl MalformedMessage
      else if length (av_bits a) \<noteq> unat (div_ceil (av_chunk_count a) 8) then Inl MalformedMessage
      else Inr ())"

section \<open>Index descriptors and tree probes\<close>

record chunk_ref =
  cr_hash :: hash
  cr_len :: u32

record index_descriptor =
  id_version :: u16
  id_root :: hash
  id_algo :: hash_algo
  id_index_chunks :: "chunk_ref list"
  id_index_len :: u64
  id_ext :: ext

text \<open>\<open>.map(|c| c.len as u64).sum()\<close>, in wrapping 64-bit arithmetic.\<close>

definition sum_lens :: "chunk_ref list \<Rightarrow> u64" where
  "sum_lens cs = sum_list (map (\<lambda>c. ucast (cr_len c)) cs)"

definition index_descriptor_validate :: "index_descriptor \<Rightarrow> nat \<Rightarrow> unit res" where
  "index_descriptor_validate d max_index_bytes =
     (if id_version d \<noteq> WIRE_VERSION then Inl (UnsupportedVersion (id_version d))
      else if id_index_chunks d = [] then Inl MalformedMessage
      else if unat (id_index_len d) > max_index_bytes then Inl InvalidManifest
      else if sum_lens (id_index_chunks d) \<noteq> id_index_len d then Inl MalformedMessage
      else Inr ())"

record tree_probe =
  tp_version :: u16
  tp_have_index :: bool
  tp_chunks_present :: u32
  tp_chunks_total :: u32

definition tree_probe_validate :: "tree_probe \<Rightarrow> unit res" where
  "tree_probe_validate p =
     (if tp_version p \<noteq> WIRE_VERSION then Inl (UnsupportedVersion (tp_version p))
      else if tp_chunks_present p > tp_chunks_total p then Inl MalformedMessage
      else Inr ())"

definition tree_probe_is_complete :: "tree_probe \<Rightarrow> bool" where
  "tree_probe_is_complete p \<longleftrightarrow> tp_have_index p \<and> tp_chunks_present p = tp_chunks_total p"

end
