(* ===== verification/Chunks.thy ===== *)
theory Chunks
  imports Errors
begin

text \<open>
  Chunk geometry (\<open>src/src/chunk.rs\<close>): the fixed-size transfer chunks of tier 1, all arithmetic
  at the machine widths of the source, and the content-defined chunking parameters of tier 2.
  The FastCDC cutter itself belongs to another crate and is a parameter where it is used.
\<close>

section \<open>Transfer chunks\<close>

definition GROUP_SIZE :: u64 where "GROUP_SIZE = 16 * 1024"

definition MIN_CHUNK_SIZE :: u32 where "MIN_CHUNK_SIZE = 64 * 1024"
definition MAX_CHUNK_SIZE :: u32 where "MAX_CHUNK_SIZE = 4 * 1024 * 1024"
definition DEFAULT_CHUNK_SIZE :: u32 where "DEFAULT_CHUNK_SIZE = 256 * 1024"

lemmas chunk_consts = GROUP_SIZE_def MIN_CHUNK_SIZE_def MAX_CHUNK_SIZE_def DEFAULT_CHUNK_SIZE_def

record transfer_chunks =
  tc_chunk_size :: u32
  tc_total_len :: u64

definition validate_chunk_size :: "u32 \<Rightarrow> unit res" where
  "validate_chunk_size cs =
     (if \<not> (MIN_CHUNK_SIZE \<le> cs \<and> cs \<le> MAX_CHUNK_SIZE) then Inl InvalidManifest
      else if \<not> (ucast cs :: u64) mod GROUP_SIZE = 0 then Inl InvalidManifest
      else Inr ())"

definition transfer_chunks_new :: "u32 \<Rightarrow> u64 \<Rightarrow> transfer_chunks res" where
  "transfer_chunks_new cs len =
     and_then (validate_chunk_size cs) (\<lambda>_.
       if div_ceil len (ucast cs) > ucast U32_MAX then Inl InvalidManifest
       else Inr \<lparr>tc_chunk_size = cs, tc_total_len = len\<rparr>)"

definition tc_count :: "transfer_chunks \<Rightarrow> u32" where
  "tc_count c = ucast (div_ceil (tc_total_len c) (ucast (tc_chunk_size c)))"

definition byte_range :: "transfer_chunks \<Rightarrow> u32 \<Rightarrow> u64 \<times> u64" where
  "byte_range c index =
     (let start = min (ucast index * ucast (tc_chunk_size c)) (tc_total_len c);
          end = min (start + ucast (tc_chunk_size c)) (tc_total_len c)
      in (start, end))"

definition len_of :: "transfer_chunks \<Rightarrow> u32 \<Rightarrow> u32" where
  "len_of c index = (let (start, end) = byte_range c index in ucast (end - start))"

text \<open>What a constructed geometry satisfies, in terms of natural numbers.\<close>

definition tc_wf :: "transfer_chunks \<Rightarrow> bool" where
  "tc_wf c \<longleftrightarrow> 65536 \<le> unat (tc_chunk_size c) \<and> unat (tc_chunk_size c) \<le> 4194304
     \<and> unat (tc_chunk_size c) mod 16384 = 0
     \<and> nat_div_ceil (unat (tc_total_len c)) (unat (tc_chunk_size c)) < 2 ^ 32"

lemma validate_chunk_size_Inr:
  "validate_chunk_size cs = Inr () \<longleftrightarrow>
     65536 \<le> unat cs \<and> unat cs \<le> 4194304 \<and> unat cs mod 16384 = 0"
proof -
  have "(ucast cs :: u64) mod GROUP_SIZE = 0 \<longleftrightarrow> unat cs mod 16384 = 0"
    unfolding GROUP_SIZE_def by (simp add: word_unat_eq_iff unat_mod_distrib)
  then show ?thesis
    by (auto simp: validate_chunk_size_def chunk_consts word_le_nat_alt)
qed

lemma transfer_chunks_new_Inr:
  "transfer_chunks_new cs len = Inr c \<longleftrightarrow>
     tc_wf c \<and> tc_chunk_size c = cs \<and> tc_total_len c = len"
proof (cases "validate_chunk_size cs = Inr ()")
  case True
  then have cs: "65536 \<le> unat cs" "unat cs \<le> 4194304" "unat cs mod 16384 = 0"
    by (simp_all add: validate_chunk_size_Inr)
  then have "(ucast cs :: u64) \<noteq> 0" by (auto simp: word_unat_eq_iff)
  then have "unat (div_ceil len (ucast cs :: u64)) = nat_div_ceil (unat len) (unat cs)"
    by (simp add: unat_div_ceil)
  moreover have "unat (ucast U32_MAX :: u64) = 2 ^ 32 - 1"
    by simp
  ultimately have "div_ceil len (ucast cs) > (ucast U32_MAX :: u64)
      \<longleftrightarrow> \<not> nat_div_ceil (unat len) (unat cs) < 2 ^ 32"
    by (simp only: word_less_nat_alt) auto
  with True cs show ?thesis
    by (cases c) (auto simp: transfer_chunks_new_def tc_wf_def)
next
  case False
  then have "\<not> (tc_wf c \<and> tc_chunk_size c = cs)"
    by (auto simp: validate_chunk_size_Inr tc_wf_def)
  with False show ?thesis
    by (cases "validate_chunk_size cs") (auto simp: transfer_chunks_new_def)
qed

text \<open>Below the wire cap nothing wraps: counts and offsets are the natural-number ones.\<close>

lemma unat_tc_count:
  assumes "tc_wf c"
  shows "unat (tc_count c) = nat_div_ceil (unat (tc_total_len c)) (unat (tc_chunk_size c))"
proof -
  have "(ucast (tc_chunk_size c) :: u64) \<noteq> 0"
    using assms by (auto simp: word_unat_eq_iff tc_wf_def)
  then have "unat (div_ceil (tc_total_len c) (ucast (tc_chunk_size c)))
      = nat_div_ceil (unat (tc_total_len c)) (unat (tc_chunk_size c))"
    by (simp add: unat_div_ceil)
  then show ?thesis
    using assms by (simp add: tc_count_def tc_wf_def unat_ucast)
qed

lemma byte_range_nat:
  assumes "tc_wf c"
  shows "unat (fst (byte_range c i)) = min (unat i * unat (tc_chunk_size c)) (unat (tc_total_len c))"
    and "unat (snd (byte_range c i)) = min (Suc (unat i) * unat (tc_chunk_size c)) (unat (tc_total_len c))"
proof -
  let ?cs = "unat (tc_chunk_size c)"
  have cs: "?cs \<le> 4194304" using assms by (simp add: tc_wf_def)
  have i: "unat i < 2 ^ 32" using unsigned_less[of i] by simp
  have mult: "unat i * ?cs \<le> (2 ^ 32 - 1) * 4194304"
    using i cs by (intro mult_le_mono) auto
  then have "unat (ucast i * ucast (tc_chunk_size c) :: u64) = unat i * ?cs"
    by (subst unat_mult_lem [THEN iffD1]) auto
  then show start: "unat (fst (byte_range c i)) = min (unat i * ?cs) (unat (tc_total_len c))"
    by (simp add: byte_range_def Let_def min_def word_le_nat_alt)
  then have "unat (fst (byte_range c i)) + ?cs < 2 ^ LENGTH(64)"
    using mult cs by auto
  then have "unat (fst (byte_range c i) + ucast (tc_chunk_size c)) = unat (fst (byte_range c i)) + ?cs"
    by (subst unat_add_lem [THEN iffD1]) auto
  moreover have "snd (byte_range c i) = min (fst (byte_range c i) + ucast (tc_chunk_size c)) (tc_total_len c)"
    by (simp add: byte_range_def Let_def)
  ultimately show "unat (snd (byte_range c i)) = min (Suc (unat i) * ?cs) (unat (tc_total_len c))"
    by (simp add: start min_def word_le_nat_alt)
qed

lemma unat_len_of:
  assumes "tc_wf c"
  shows "unat (len_of c i) = unat (snd (byte_range c i)) - unat (fst (byte_range c i))"
    and "unat (len_of c i) \<le> unat (tc_chunk_size c)"
proof -
  note br = byte_range_nat [OF assms, of i]
  have le: "fst (byte_range c i) \<le> snd (byte_range c i)"
    unfolding word_le_nat_alt br by auto
  then have d: "unat (snd (byte_range c i) - fst (byte_range c i))
      = unat (snd (byte_range c i)) - unat (fst (byte_range c i))"
    by (simp add: unat_sub)
  also have b: "\<dots> \<le> unat (tc_chunk_size c)" unfolding br by auto
  finally show "unat (len_of c i) = unat (snd (byte_range c i)) - unat (fst (byte_range c i))"
    using assms d by (simp add: len_of_def case_prod_unfold Let_def unat_ucast tc_wf_def)
  with b show "unat (len_of c i) \<le> unat (tc_chunk_size c)" by simp
qed

lemma less_tc_count_iff:
  "tc_wf c \<Longrightarrow> i < tc_count c \<longleftrightarrow> unat i * unat (tc_chunk_size c) < unat (tc_total_len c)"
  by (simp add: word_less_nat_alt unat_tc_count less_nat_div_ceil_iff tc_wf_def)

text \<open>
  Which chunk a byte lies in: \<open>unat b div chunk_size\<close>, for the exactness of the tiling.
\<close>

lemma byte_in_chunk_iff:
  assumes "tc_wf c" and b: "b < tc_total_len c"
  shows "fst (byte_range c i) \<le> b \<and> b < snd (byte_range c i) \<longleftrightarrow>
     unat b div unat (tc_chunk_size c) = unat i"
proof -
  have cs: "0 < unat (tc_chunk_size c)" using assms(1) by (simp add: tc_wf_def)
  have "fst (byte_range c i) \<le> b \<and> b < snd (byte_range c i) \<longleftrightarrow>
     unat i * unat (tc_chunk_size c) \<le> unat b \<and> unat b < Suc (unat i) * unat (tc_chunk_size c)"
    using b by (auto simp: word_le_nat_alt word_less_nat_alt byte_range_nat [OF assms(1)])
  also have "\<dots> \<longleftrightarrow> unat b div unat (tc_chunk_size c) = unat i"
    using cs by (metis div_less_iff_less_mult less_Suc_eq_le less_eq_div_iff_mult_less_eq
        nle_le order_refl)
  finally show ?thesis .
qed

lemma chunk_of_byte_less:
  assumes "tc_wf c" and b: "b < tc_total_len c"
  shows "unat b div unat (tc_chunk_size c) < unat (tc_count c)"
proof -
  have cs: "0 < unat (tc_chunk_size c)" using assms(1) by (simp add: tc_wf_def)
  have "unat b div unat (tc_chunk_size c) * unat (tc_chunk_size c) \<le> unat b" by simp
  also have "\<dots> < unat (tc_total_len c)" using b by (simp add: word_less_nat_alt)
  finally show ?thesis
    by (simp add: unat_tc_count [OF assms(1)] less_nat_div_ceil_iff [OF cs])
qed

lemma chunk_nonempty:
  assumes "tc_wf c" "i < tc_count c"
  shows "fst (byte_range c i) < snd (byte_range c i) \<and> snd (byte_range c i) \<le> tc_total_len c"
proof -
  have "0 < unat (tc_chunk_size c)" using assms(1) by (simp add: tc_wf_def)
  moreover have "unat i * unat (tc_chunk_size c) < unat (tc_total_len c)"
    using less_tc_count_iff [OF assms(1)] assms(2) by simp
  ultimately show ?thesis
    unfolding word_less_nat_alt word_le_nat_alt byte_range_nat [OF assms(1)] by auto
qed

lemma byte_in_one_chunk:
  assumes "tc_wf c" "b < tc_total_len c"
  shows "\<exists>!i. i < tc_count c \<and> fst (byte_range c i) \<le> b \<and> b < snd (byte_range c i)"
proof -
  let ?n = "unat b div unat (tc_chunk_size c)"
  have lt: "?n < unat (tc_count c)" by (rule chunk_of_byte_less [OF assms])
  then have "?n < 2 ^ 32" using unsigned_less[of "tc_count c", where ?'a = nat] by simp
  then have n: "unat (of_nat ?n :: u32) = ?n" by (simp add: unat_of_nat)
  show ?thesis
    unfolding byte_in_chunk_iff [OF assms]
    by (rule ex1I [of _ "of_nat ?n"]) (auto simp: n lt word_less_nat_alt word_unat_eq_iff)
qed

section \<open>Content-defined chunking parameters\<close>

record cdc_params =
  cdc_min :: u32
  cdc_avg :: u32
  cdc_max :: u32
  cdc_normalization :: u8
  cdc_gear_seed :: u64

definition cdc_default :: cdc_params where
  "cdc_default = \<lparr>cdc_min = 16 * 1024, cdc_avg = 64 * 1024, cdc_max = 256 * 1024,
     cdc_normalization = 2, cdc_gear_seed = 0\<rparr>"

definition cdc_with_seed :: "u64 \<Rightarrow> cdc_params" where
  "cdc_with_seed seed = cdc_default\<lparr>cdc_gear_seed := seed\<rparr>"

definition cdc_validate :: "cdc_params \<Rightarrow> unit res" where
  "cdc_validate p =
     (if cdc_min p \<ge> 64 \<and> cdc_min p \<le> cdc_avg p \<and> cdc_avg p \<le> cdc_max p \<and> cdc_avg p \<ge> 256
         \<and> cdc_max p \<le> 16 * 1024 * 1024 \<and> cdc_normalization p \<le> 3
      then Inr () else Inl InvalidManifest)"

datatype cdc_level = Level0 | Level1 | Level2 | Level3

definition cdc_level_of :: "cdc_params \<Rightarrow> cdc_level" where
  "cdc_level_of p =
     (if cdc_normalization p = 0 then Level0 else if cdc_normalization p = 1 then Level1
      else if cdc_normalization p = 3 then Level3 else Level2)"

text \<open>
  \<open>fastcdc::v2020::StreamCDC\<close> is a parameter: the pieces it cuts a reader's bytes into, given
  the sizes, the level and the seed. What the crate relies on of it: no byte is lost or
  invented, no piece is empty, none is longer than the maximum.
\<close>

type_synonym cdc_cutter = "u32 \<Rightarrow> u32 \<Rightarrow> u32 \<Rightarrow> cdc_level \<Rightarrow> u64 \<Rightarrow> bytes \<Rightarrow> bytes list"

definition cdc_chunk_reader :: "cdc_cutter \<Rightarrow> cdc_params \<Rightarrow> bytes \<Rightarrow> bytes list" where
  "cdc_chunk_reader cutter p data =
     cutter (cdc_min p) (cdc_avg p) (cdc_max p) (cdc_level_of p) (cdc_gear_seed p) data"

definition cutter_lossless :: "cdc_cutter \<Rightarrow> bool" where
  "cutter_lossless cutter \<longleftrightarrow> (\<forall>p data. cdc_validate p = Inr () \<longrightarrow>
     concat (cdc_chunk_reader cutter p data) = data
     \<and> (\<forall>piece \<in> set (cdc_chunk_reader cutter p data).
          piece \<noteq> [] \<and> length piece \<le> unat (cdc_max p)))"

lemma cdc_default_valid: "cdc_validate (cdc_with_seed s) = Inr ()"
  by (simp add: cdc_validate_def cdc_with_seed_def cdc_default_def)

lemma cdc_validate_max:
  "cdc_validate p = Inr () \<Longrightarrow> 256 \<le> unat (cdc_max p) \<and> unat (cdc_max p) \<le> 16777216"
  by (auto simp: cdc_validate_def word_le_nat_alt split: if_splits)

end
