(* ===== verification/Paths.thy ===== *)
theory Paths
  imports Strings Errors
begin

text \<open>
  Path safety (\<open>src/src/paths.rs\<close>): the boundary at which remote-controlled paths and symlink
  targets are accepted or refused. \<open>std::path::Path::components\<close> is modelled for Unix, where
  no path has a drive prefix.
\<close>

section \<open>Path components\<close>

datatype component = RootDir | CurDir | ParentDir | Normal string

definition segment_component :: "string \<Rightarrow> component list" where
  "segment_component s =
     (if s = [] \<or> s = ''.'' then [] else if s = ''..'' then [ParentDir] else [Normal s])"

text \<open>Repeated separators and interior dots vanish; a leading dot is kept.\<close>

definition components :: "string \<Rightarrow> component list" where
  "components p =
     (let segs = split_on (CHR ''/'') p in
      (if take 1 p = ''/'' then [RootDir] else if hd segs = ''.'' then [CurDir] else [])
      @ concat (map segment_component segs))"

definition path_is_absolute :: "string \<Rightarrow> bool" where
  "path_is_absolute p \<longleftrightarrow> take 1 p = ''/''"

text \<open>A \<open>PathBuf\<close> built only from \<open>Normal\<close> components is the list of their names.\<close>

type_synonym rel_path = "string list"

fun push_components :: "rel_path \<Rightarrow> component list \<Rightarrow> rel_path res" where
  "push_components out [] = Inr out"
| "push_components out (Normal c # cs) = push_components (out @ [c]) cs"
| "push_components out (_ # cs) = Inl UnsafePath"

definition sanitize_rel_path :: "string \<Rightarrow> rel_path res" where
  "sanitize_rel_path path =
     (if path = [] then Inl UnsafePath
      else and_then (push_components [] (components path)) (\<lambda>out.
        if out = [] then Inl UnsafePath else Inr out))"

fun symlink_depth_walk :: "int \<Rightarrow> component list \<Rightarrow> unit res" where
  "symlink_depth_walk depth [] = Inr ()"
| "symlink_depth_walk depth (Normal _ # cs) = symlink_depth_walk (depth + 1) cs"
| "symlink_depth_walk depth (ParentDir # cs) =
     (if depth - 1 < 0 then Inl UnsafePath else symlink_depth_walk (depth - 1) cs)"
| "symlink_depth_walk depth (CurDir # cs) = symlink_depth_walk depth cs"
| "symlink_depth_walk depth (RootDir # cs) = Inl UnsafePath"

definition sanitize_symlink_target :: "rel_path \<Rightarrow> string \<Rightarrow> unit res" where
  "sanitize_symlink_target link_rel target =
     (if path_is_absolute target then Inl UnsafePath
      else symlink_depth_walk (int (length link_rel) - 1) (components target))"

section \<open>Whole-index symlink confinement\<close>

text \<open>The declared links: sanitized path to raw target.\<close>

type_synonym links = "rel_path \<rightharpoonup> string"

definition MAX_SYMLINK_HOPS :: nat where "MAX_SYMLINK_HOPS = 32"

text \<open>
  \<open>resolve_confined\<close>: the hop budget is a shared mutable counter, returned with the result.
  \<open>resolve_walk\<close> is its loop over the components of one target; entering a nested target
  costs one hop and is refused at zero.
\<close>

function resolve_walk :: "links \<Rightarrow> nat \<Rightarrow> rel_path \<Rightarrow> component list \<Rightarrow> rel_path res \<times> nat" where
  "resolve_walk links budget cur [] = (Inr cur, budget)"
| "resolve_walk links budget cur (CurDir # cs) = resolve_walk links budget cur cs"
| "resolve_walk links budget cur (ParentDir # cs) =
     (if cur = [] then (Inl UnsafePath, budget)
      else resolve_walk links budget (butlast cur) cs)"
| "resolve_walk links budget cur (Normal c # cs) =
     (case links (cur @ [c]) of
        None \<Rightarrow> resolve_walk links budget (cur @ [c]) cs
      | Some nxt \<Rightarrow>
          (if budget = 0 then (Inl UnsafePath, 0)
           else (case resolve_walk links (budget - 1) cur (components nxt) of
                   (Inl e, b) \<Rightarrow> (Inl e, b)
                 | (Inr cur', b) \<Rightarrow> resolve_walk links b cur' cs)))"
| "resolve_walk links budget cur (RootDir # cs) = (Inl UnsafePath, budget)"
  by pat_completeness auto

lemma resolve_walk_budget:
  assumes "resolve_walk_dom (links, budget, cur, cs)"
  shows "snd (resolve_walk links budget cur cs) \<le> budget"
  using assms
proof (induction rule: resolve_walk.pinduct)
  case (4 links budget cur c cs)
  show ?case
  proof (cases "links (cur @ [c])")
    case None
    with 4 show ?thesis by (simp add: resolve_walk.psimps)
  next
    case (Some nxt)
    show ?thesis
    proof (cases "budget = 0")
      case False
      obtain r b where rb: "resolve_walk links (budget - 1) cur (components nxt) = (r, b)"
        by fastforce
      with 4 Some False have "b \<le> budget - 1" by (metis snd_conv)
      with 4 Some False rb show ?thesis
        by (cases r) (fastforce simp: resolve_walk.psimps)+
    qed (use 4 Some in \<open>simp add: resolve_walk.psimps\<close>)
  qed
qed (simp_all add: resolve_walk.psimps)

termination resolve_walk
proof (relation "measures [\<lambda>(links, budget, cur, cs). budget, \<lambda>(links, budget, cur, cs). length cs]",
       goal_cases)
  case (6 links budget cur c cs nxt r b cur')
  then have "snd (resolve_walk links (budget - 1) cur (components nxt)) \<le> budget - 1"
    by (intro resolve_walk_budget) simp
  moreover have "snd (resolve_walk links (budget - 1) cur (components nxt)) = b"
    using 6 by (metis snd_conv)
  ultimately show ?case using 6 by auto
qed auto

definition resolve_confined :: "links \<Rightarrow> nat \<Rightarrow> rel_path \<Rightarrow> string \<Rightarrow> rel_path res \<times> nat" where
  "resolve_confined links budget base target =
     (if budget = 0 then (Inl UnsafePath, 0)
      else resolve_walk links (budget - 1) base (components target))"

text \<open>
  \<open>assert_symlinks_confined\<close> walks the declared links in key order; the list gives that order.
\<close>

fun assert_links :: "links \<Rightarrow> (rel_path \<times> string) list \<Rightarrow> unit res" where
  "assert_links links [] = Inr ()"
| "assert_links links ((link, target) # rest) =
     (case fst (resolve_confined links MAX_SYMLINK_HOPS (butlast link) target) of
        Inl e \<Rightarrow> Inl e | Inr _ \<Rightarrow> assert_links links rest)"

definition assert_symlinks_confined :: "(rel_path \<times> string) list \<Rightarrow> unit res" where
  "assert_symlinks_confined ls = assert_links (map_of ls) ls"

section \<open>What the kernel does with the materialized links\<close>

text \<open>
  Path resolution in a tree whose only symlinks are the declared ones: a component that is a
  link is replaced by its target's components, resolved from the directory it was met in.
  \<open>None\<close> is an escape: a step above the root, or an absolute target.
\<close>

inductive kernel_resolve :: "links \<Rightarrow> rel_path \<Rightarrow> component list \<Rightarrow> rel_path option \<Rightarrow> bool"
  for links :: links where
  kr_done: "kernel_resolve links cur [] (Some cur)"
| kr_dot: "kernel_resolve links cur cs r \<Longrightarrow> kernel_resolve links cur (CurDir # cs) r"
| kr_up: "cur \<noteq> [] \<Longrightarrow> kernel_resolve links (butlast cur) cs r \<Longrightarrow>
    kernel_resolve links cur (ParentDir # cs) r"
| kr_above: "kernel_resolve links [] (ParentDir # cs) None"
| kr_absolute: "kernel_resolve links cur (RootDir # cs) None"
| kr_plain: "links (cur @ [c]) = None \<Longrightarrow> kernel_resolve links (cur @ [c]) cs r \<Longrightarrow>
    kernel_resolve links cur (Normal c # cs) r"
| kr_link: "links (cur @ [c]) = Some t \<Longrightarrow> kernel_resolve links cur (components t @ cs) r \<Longrightarrow>
    kernel_resolve links cur (Normal c # cs) r"

inductive_simps kernel_resolve_simps [simp]:
  "kernel_resolve links cur [] r"
  "kernel_resolve links cur (CurDir # cs) r"
  "kernel_resolve links cur (ParentDir # cs) r"
  "kernel_resolve links cur (RootDir # cs) r"
  "kernel_resolve links cur (Normal c # cs) r"

text \<open>A successful walk tells exactly where the kernel goes on from.\<close>

lemma resolve_walk_kernel:
  "resolve_walk links b cur cs = (Inr p, b') \<Longrightarrow>
   kernel_resolve links cur (cs @ rest) r \<longleftrightarrow> kernel_resolve links p rest r"
proof (induction links b cur cs arbitrary: p b' rest rule: resolve_walk.induct)
  case (4 links budget cur c cs)
  show ?case
  proof (cases "links (cur @ [c])")
    case None
    with 4 show ?thesis by simp
  next
    case (Some nxt)
    with "4.prems" obtain q b where nz: "budget \<noteq> 0"
      and inner: "resolve_walk links (budget - 1) cur (components nxt) = (Inr q, b)"
      and outer: "resolve_walk links b q cs = (Inr p, b')"
      by (auto split: if_splits prod.splits sum.splits)
    have "kernel_resolve links cur (components nxt @ cs @ rest) r
        \<longleftrightarrow> kernel_resolve links q (cs @ rest) r"
      by (rule "4.IH"(2) [OF Some nz inner])
    also have "\<dots> \<longleftrightarrow> kernel_resolve links p rest r"
      using "4.IH"(3) [OF Some nz inner [symmetric]] outer by simp
    finally show ?thesis using Some by simp
  qed
qed (auto split: if_splits)

lemma assert_links_ok:
  "assert_links links ls = Inr () \<Longrightarrow> (l, t) \<in> set ls \<Longrightarrow>
   \<exists>p b. resolve_walk links (MAX_SYMLINK_HOPS - 1) (butlast l) (components t) = (Inr p, b)"
proof (induction ls)
  case (Cons x ls)
  obtain l' t' where x: "x = (l', t')" by fastforce
  obtain r b where rw: "resolve_walk links (MAX_SYMLINK_HOPS - 1) (butlast l') (components t') = (r, b)"
    by fastforce
  with Cons.prems(1) obtain q where "r = Inr q" and "assert_links links ls = Inr ()"
    by (cases r) (auto simp: x resolve_confined_def MAX_SYMLINK_HOPS_def)
  with Cons rw x show ?case by auto
qed simp

text \<open>
  Reading any plain path of the materialized tree, through whatever links it meets, never
  leaves the tree.
\<close>

lemma confined_reader:
  assumes "assert_symlinks_confined ls = Inr ()"
  shows "\<not> kernel_resolve (map_of ls) cur (map Normal names) None"
proof (induction names arbitrary: cur)
  case Nil
  then show ?case by simp
next
  case (Cons c names)
  show ?case
  proof (cases "map_of ls (cur @ [c])")
    case None
    with Cons show ?thesis by simp
  next
    case (Some t)
    then have "(cur @ [c], t) \<in> set ls" by (rule map_of_SomeD)
    with assms obtain p b where
      "resolve_walk (map_of ls) (MAX_SYMLINK_HOPS - 1) cur (components t) = (Inr p, b)"
      using assert_links_ok by (fastforce simp: assert_symlinks_confined_def)
    from resolve_walk_kernel [OF this, of "map Normal names" None] Some Cons show ?thesis by simp
  qed
qed

section \<open>Sanitized paths\<close>

lemma push_components_Inr:
  "push_components out cs = Inr p \<longleftrightarrow> (\<exists>names. cs = map Normal names \<and> p = out @ names)"
proof (induction out cs rule: push_components.induct)
  case (2 out c cs)
  then show ?case by (auto simp: Cons_eq_map_conv)
qed auto

lemma concat_segments_Normal:
  "concat (map segment_component ws) = map Normal names \<Longrightarrow>
   names = filter (\<lambda>w. w \<noteq> [] \<and> w \<noteq> ''.'') ws \<and> ''..'' \<notin> set names"
proof (induction ws arbitrary: names)
  case (Cons w ws)
  then show ?case
    by (auto simp: segment_component_def Cons_eq_map_conv split: if_splits)
qed simp

text \<open>
  An accepted path is a non-empty list of plain names: no separator inside, never empty, never
  a dot or a parent reference. Joining it below a directory cannot climb out of it.
\<close>

lemma sanitize_rel_path_Inr:
  assumes "sanitize_rel_path s = Inr p"
  shows "p \<noteq> [] \<and> (\<forall>w \<in> set p. w \<noteq> [] \<and> w \<noteq> ''.'' \<and> w \<noteq> ''..'' \<and> CHR ''/'' \<notin> set w)
     \<and> p = filter (\<lambda>w. w \<noteq> [] \<and> w \<noteq> ''.'') (split_on (CHR ''/'') s)"
proof -
  have "components s = map Normal p" and ne: "p \<noteq> []"
    using assms by (auto simp: sanitize_rel_path_def and_then_Inr push_components_Inr split: if_splits)
  then have eq: "concat (map segment_component (split_on (CHR ''/'') s)) = map Normal p"
    by (auto simp: components_def Let_def Cons_eq_map_conv split: if_splits)
  from concat_segments_Normal [OF eq] ne show ?thesis
    by (auto dest: split_on_no_sep)
qed

end
