(* ===== verification/Manifests.thy ===== *)
theory Manifests
  imports Wire Chunks Paths
begin

text \<open>
  The blob manifest (\<open>src/src/manifest.rs\<close>): the one source of truth of a transfer, and the
  validation an untrusted manifest passes before its sizes are believed.
\<close>

record manifest =
  m_version :: u16
  m_id :: blob_id
  m_filename :: "string option"
  m_total_len :: u64
  m_chunk_size :: u32
  m_root :: hash
  m_created_ms :: int
  m_ext :: ext

definition manifest_validate :: "manifest \<Rightarrow> u64 \<Rightarrow> unit res" where
  "manifest_validate m max_blob_size =
     (if m_version m \<noteq> WIRE_VERSION then Inl (UnsupportedVersion (m_version m))
      else and_then (validate_chunk_size (m_chunk_size m)) (\<lambda>_.
        if m_total_len m > max_blob_size then Inl InvalidManifest else Inr ()))"

definition manifest_chunks :: "manifest \<Rightarrow> transfer_chunks res" where
  "manifest_chunks m = transfer_chunks_new (m_chunk_size m) (m_total_len m)"

definition manifest_max_chunks_per_query :: "manifest \<Rightarrow> u32 option" where
  "manifest_max_chunks_per_query m = ext_get_u32 (m_ext m) EXT_MAX_CHUNKS_PER_QUERY"

definition manifest_max_blob_size :: "manifest \<Rightarrow> u64 option" where
  "manifest_max_blob_size m = ext_get_u64 (m_ext m) EXT_MAX_BLOB_SIZE"

definition manifest_chunk_count :: "manifest \<Rightarrow> u32 res" where
  "manifest_chunk_count m = and_then (manifest_chunks m) (\<lambda>c. Inr (tc_count c))"

text \<open>\<open>filter_map\<close> to the \<open>Normal\<close> components, then \<open>next_back\<close>.\<close>

definition normal_name :: "component \<Rightarrow> string option" where
  "normal_name c = (case c of Normal s \<Rightarrow> Some s | _ \<Rightarrow> None)"

definition suggested_filename :: "manifest \<Rightarrow> string option" where
  "suggested_filename m =
     (case m_filename m of None \<Rightarrow> None
      | Some raw \<Rightarrow>
          (let names = List.map_filter normal_name (components raw) in
           if names = [] then None
           else let name = last names in if name = [] then None else Some name))"

definition validate_id :: "string \<Rightarrow> unit res" where
  "validate_id s = and_then (blob_id_new s) (\<lambda>_. Inr ())"

record blob_spec =
  bs_id :: string
  bs_filename :: "string option"
  bs_chunk_size :: u32
  bs_created_ms :: int

definition blob_spec_new :: "string \<Rightarrow> blob_spec" where
  "blob_spec_new i = \<lparr>bs_id = i, bs_filename = None, bs_chunk_size = DEFAULT_CHUNK_SIZE,
     bs_created_ms = 0\<rparr>"

lemma manifest_validate_Inr:
  "manifest_validate m mx = Inr () \<longleftrightarrow> m_version m = WIRE_VERSION
     \<and> validate_chunk_size (m_chunk_size m) = Inr () \<and> m_total_len m \<le> mx"
  by (auto simp: manifest_validate_def and_then_Inr)

lemma manifest_chunks_Inr:
  "manifest_chunks m = Inr c \<longleftrightarrow>
     tc_wf c \<and> tc_chunk_size c = m_chunk_size m \<and> tc_total_len c = m_total_len m"
  by (simp add: manifest_chunks_def transfer_chunks_new_Inr)

text \<open>
  Below one tebibyte, the default cap of a client, every validated manifest has a geometry:
  the count check of \<open>TransferChunks::new\<close> cannot fail any more.
\<close>

lemma validated_manifest_has_chunks:
  assumes "manifest_validate m mx = Inr ()" and "mx \<le> 2 ^ 40"
  shows "\<exists>c. manifest_chunks m = Inr c"
proof -
  let ?c = "\<lparr>tc_chunk_size = m_chunk_size m, tc_total_len = m_total_len m\<rparr>"
  have cs: "65536 \<le> unat (m_chunk_size m)" "unat (m_chunk_size m) \<le> 4194304"
      "unat (m_chunk_size m) mod 16384 = 0" and len: "unat (m_total_len m) \<le> 2 ^ 40"
    using assms by (auto simp: manifest_validate_Inr validate_chunk_size_Inr word_le_nat_alt)
  have "unat (m_total_len m) \<le> (2 ^ 32 - 1) * unat (m_chunk_size m)"
  proof -
    have "(2::nat) ^ 40 \<le> (2 ^ 32 - 1) * 65536" by simp
    also have "\<dots> \<le> (2 ^ 32 - 1) * unat (m_chunk_size m)" using cs(1) by (intro mult_le_mono2)
    finally show ?thesis using len by linarith
  qed
  then have "nat_div_ceil (unat (m_total_len m)) (unat (m_chunk_size m)) \<le> 2 ^ 32 - 1"
    using cs(1) by (subst nat_div_ceil_le_iff) simp_all
  then have "tc_wf ?c" using cs by (simp add: tc_wf_def)
  then show ?thesis by (intro exI [of _ ?c]) (simp add: manifest_chunks_Inr)
qed

lemma components_Normal:
  "Normal w \<in> set (components p) \<Longrightarrow> w \<noteq> [] \<and> w \<noteq> ''.'' \<and> w \<noteq> ''..'' \<and> CHR ''/'' \<notin> set w"
  by (auto simp: components_def Let_def segment_component_def split: if_splits
      dest: split_on_no_sep)

text \<open>The suggested name is always a single plain component, whatever the server sent.\<close>

lemma suggested_filename_safe:
  assumes "suggested_filename m = Some w"
  shows "w \<noteq> [] \<and> w \<noteq> ''.'' \<and> w \<noteq> ''..'' \<and> CHR ''/'' \<notin> set w"
proof -
  from assms obtain raw where ne: "List.map_filter normal_name (components raw) \<noteq> []"
    and w: "w = last (List.map_filter normal_name (components raw))"
    by (auto simp: suggested_filename_def Let_def split: option.splits if_splits)
  from last_in_set [OF ne] w have "Normal w \<in> set (components raw)"
    by (auto simp: List.map_filter_def normal_name_def split: component.splits)
  then show ?thesis by (rule components_Normal)
qed

end
