(* ===== verification/Keys.thy ===== *)
theory Keys
  imports Strings HashId
begin

text \<open>
  Key expressions, their parsers, and the range-set selector grammar (\<open>src/src/keys.rs\<close>), with
  the role-typed prefixes (\<open>src/src/prefix.rs\<close>). Whether Zenoh accepts a string as a key
  expression is a parameter, \<open>valid_ke\<close>.
\<close>

section \<open>Key builders\<close>

definition manifest_key :: "string \<Rightarrow> string \<Rightarrow> string" where
  "manifest_key prefix bid = prefix @ ''/'' @ bid @ ''/manifest''"

definition slice_key :: "string \<Rightarrow> string \<Rightarrow> u32 \<Rightarrow> string" where
  "slice_key prefix bid index = prefix @ ''/'' @ bid @ ''/slice/'' @ u32_to_string index"

definition availability_key :: "string \<Rightarrow> string \<Rightarrow> string" where
  "availability_key prefix bid = prefix @ ''/'' @ bid @ ''/have''"

definition push_offer_key :: "string \<Rightarrow> string \<Rightarrow> string" where
  "push_offer_key prefix bid = prefix @ ''/'' @ bid @ ''/push/offer''"

definition push_slice_key :: "string \<Rightarrow> string \<Rightarrow> u32 \<Rightarrow> string" where
  "push_slice_key prefix bid index = prefix @ ''/'' @ bid @ ''/push/slice/'' @ u32_to_string index"

definition store_key :: "string \<Rightarrow> hash_algo \<Rightarrow> hash \<Rightarrow> string" where
  "store_key prefix algo h = prefix @ ''/'' @ algo_as_str algo @ ''/'' @ hash_display h"

definition STORE_BATCH :: string where "STORE_BATCH = ''batch''"
definition STORE_HAVE :: string where "STORE_HAVE = ''have''"

definition store_batch_key :: "string \<Rightarrow> hash_algo \<Rightarrow> string" where
  "store_batch_key prefix algo = prefix @ ''/'' @ algo_as_str algo @ ''/'' @ STORE_BATCH"

definition store_have_key :: "string \<Rightarrow> hash_algo \<Rightarrow> string" where
  "store_have_key prefix algo = prefix @ ''/'' @ algo_as_str algo @ ''/'' @ STORE_HAVE"

definition tree_have_key :: "string \<Rightarrow> string \<Rightarrow> string" where
  "tree_have_key prefix bid = prefix @ ''/'' @ bid @ ''/'' @ STORE_HAVE"

definition tree_key :: "string \<Rightarrow> string \<Rightarrow> string" where
  "tree_key prefix bid = prefix @ ''/'' @ bid"

section \<open>Range sets\<close>

text \<open>A \<open>Range<u32>\<close> is the pair of its bounds; it is empty unless the start is below the end.\<close>

type_synonym range = "u32 \<times> u32"

definition span_string :: "range \<Rightarrow> string" where
  "span_string r = (if snd r = fst r + 1 then u32_to_string (fst r)
     else u32_to_string (fst r) @ ''-'' @ u32_to_string (snd r))"

fun format_ranges_loop :: "string \<Rightarrow> range list \<Rightarrow> string" where
  "format_ranges_loop out [] = out"
| "format_ranges_loop out (r # rs) =
     (if \<not> fst r < snd r then format_ranges_loop out rs
      else let out1 = (if out \<noteq> [] then out @ '','' else out) in
           format_ranges_loop (out1 @ span_string r) rs)"

definition format_ranges :: "range list \<Rightarrow> string" where
  "format_ranges rs = format_ranges_loop [] rs"

definition slice_selector :: "string \<Rightarrow> string \<Rightarrow> range list \<Rightarrow> string" where
  "slice_selector prefix bid rs = prefix @ ''/'' @ bid @ ''/**?ranges='' @ format_ranges rs"

definition MAX_RANGE_SPANS :: nat where "MAX_RANGE_SPANS = 128"

definition parse_span :: "string \<Rightarrow> range res" where
  "parse_span span =
     (case split_once (CHR ''-'') span of
        Some (a, b) \<Rightarrow> and_then (ok_or InvalidRanges (parse_u32 a)) (\<lambda>a.
                       and_then (ok_or InvalidRanges (parse_u32 b)) (\<lambda>b. Inr (a, b)))
      | None \<Rightarrow> and_then (ok_or InvalidRanges (parse_u32 span)) (\<lambda>k.
                 if k = U32_MAX then Inl InvalidRanges else Inr (k, k + 1)))"

fun parse_spans :: "u32 \<Rightarrow> u32 \<Rightarrow> range list \<Rightarrow> u64 \<Rightarrow> string list \<Rightarrow> range list res" where
  "parse_spans chunk_count max_chunks out tot [] =
     (if out = [] then Inl InvalidRanges else Inr out)"
| "parse_spans chunk_count max_chunks out tot (span # spans) =
     (if length out \<ge> MAX_RANGE_SPANS then Inl InvalidRanges
      else and_then (parse_span span) (\<lambda>(start, end).
        if start \<ge> end then Inl InvalidRanges
        else if end > chunk_count then Inl InvalidRanges
        else if out \<noteq> [] \<and> start < snd (last out) then Inl InvalidRanges
        else let tot' = tot + ucast (end - start) in
          if tot' > ucast max_chunks then Inl InvalidRanges
          else parse_spans chunk_count max_chunks (out @ [(start, end)]) tot' spans))"

definition ranges_param :: "string \<Rightarrow> string option" where
  "ranges_param params =
     fold (\<lambda>pair spec. case strip_prefix ''ranges='' pair of Some r \<Rightarrow> Some r | None \<Rightarrow> spec)
       (split_on (CHR ''&'') params) None"

definition parse_ranges :: "string \<Rightarrow> u32 \<Rightarrow> u32 \<Rightarrow> range list res" where
  "parse_ranges params chunk_count max_chunks =
     (case ranges_param params of
        None \<Rightarrow> Inl InvalidRanges
      | Some spec \<Rightarrow> parse_spans chunk_count max_chunks [] 0 (split_on (CHR '','') spec))"

section \<open>Key parsers\<close>

text \<open>The positional walk over the prefix segments shared by both parsers.\<close>

fun prefix_segments_match :: "string list \<Rightarrow> string list \<Rightarrow> bool" where
  "prefix_segments_match (want # p) (got # k) =
     (got \<noteq> ''**'' \<and> (want = got \<or> CHR ''*'' \<in> set got) \<and> prefix_segments_match p k)"
| "prefix_segments_match _ _ = True"

definition parse_id :: "string \<Rightarrow> string \<Rightarrow> string option" where
  "parse_id prefix key_expr =
     (let p = split_on (CHR ''/'') prefix; k = split_on (CHR ''/'') key_expr in
      if length k \<le> length p then None
      else if \<not> prefix_segments_match p k then None
      else let bid = k ! length p in
           if bid = [] \<or> CHR ''*'' \<in> set bid then None else Some bid)"

datatype tier2_tail = One string | Two string string

definition parse_tier2_tail :: "string \<Rightarrow> string \<Rightarrow> tier2_tail option" where
  "parse_tier2_tail prefix key_expr =
     (let p = split_on (CHR ''/'') prefix; k = split_on (CHR ''/'') key_expr in
      if length k \<le> length p then None
      else if \<not> prefix_segments_match p k then None
      else (case drop (length p) k of
              [a] \<Rightarrow> Some (One a) | [a, b] \<Rightarrow> Some (Two a b) | _ \<Rightarrow> None))"

section \<open>Prefixes\<close>

type_synonym serve_prefix = string
type_synonym query_prefix = string

definition validate_shape :: "(string \<Rightarrow> bool) \<Rightarrow> string \<Rightarrow> unit res" where
  "validate_shape valid_ke prefix =
     (if prefix = [] then Inl InvalidPrefix
      else if hd prefix = CHR ''/'' \<or> last prefix = CHR ''/'' then Inl InvalidPrefix
      else if ''**'' \<in> set (split_on (CHR ''/'') prefix) then Inl InvalidPrefix
      else if \<not> valid_ke prefix then Inl InvalidPrefix
      else if \<not> valid_ke (prefix @ ''/id/**'') then Inl InvalidPrefix
      else Inr ())"

definition has_wildcard :: "string \<Rightarrow> bool" where
  "has_wildcard prefix \<longleftrightarrow> (\<exists>seg \<in> set (split_on (CHR ''/'') prefix). CHR ''*'' \<in> set seg)"

definition serve_prefix_new :: "(string \<Rightarrow> bool) \<Rightarrow> string \<Rightarrow> serve_prefix res" where
  "serve_prefix_new valid_ke prefix =
     and_then (validate_shape valid_ke prefix) (\<lambda>_.
       if has_wildcard prefix then Inl InvalidPrefix
       else if \<not> valid_ke (prefix @ ''/**'') then Inl InvalidPrefix
       else Inr prefix)"

definition query_prefix_new :: "(string \<Rightarrow> bool) \<Rightarrow> string \<Rightarrow> query_prefix res" where
  "query_prefix_new valid_ke prefix =
     and_then (validate_shape valid_ke prefix) (\<lambda>_. Inr prefix)"

definition is_concrete :: "query_prefix \<Rightarrow> bool" where
  "is_concrete p \<longleftrightarrow> \<not> has_wildcard p"

definition query_from_serve :: "serve_prefix \<Rightarrow> query_prefix" where
  "query_from_serve p = p"

definition serve_try_from_query :: "(string \<Rightarrow> bool) \<Rightarrow> query_prefix \<Rightarrow> serve_prefix res" where
  "serve_try_from_query valid_ke p = serve_prefix_new valid_ke p"

end
