(* ===== verification/Keys_Props.thy ===== *)
theory Keys_Props
  imports Keys
begin

text \<open>
  The selector grammar is sound and round-trips, and every key a client builds is read back by
  the server that serves the blob, also through a wildcard origin.
\<close>

section \<open>Range sets\<close>

definition range_total :: "range list \<Rightarrow> nat" where
  "range_total rs = sum_list (map (\<lambda>r. unat (snd r) - unat (fst r)) rs)"

text \<open>What a server relies on: in bounds, sorted, disjoint, and bounded in number and volume.\<close>

definition ranges_sorted :: "u32 \<Rightarrow> range list \<Rightarrow> bool" where
  "ranges_sorted chunk_count rs \<longleftrightarrow>
     (\<forall>r \<in> set rs. fst r < snd r \<and> snd r \<le> chunk_count)
     \<and> sorted_wrt (\<lambda>r s. snd r \<le> fst s) rs"

definition ranges_ok :: "u32 \<Rightarrow> u32 \<Rightarrow> range list \<Rightarrow> bool" where
  "ranges_ok chunk_count max_chunks rs \<longleftrightarrow> length rs \<le> MAX_RANGE_SPANS
     \<and> ranges_sorted chunk_count rs \<and> range_total rs \<le> unat max_chunks"

lemma range_total_append [simp]: "range_total (rs @ ss) = range_total rs + range_total ss"
  by (simp add: range_total_def)

lemma range_total_Cons [simp]: "range_total (r # rs) = unat (snd r) - unat (fst r) + range_total rs"
  by (simp add: range_total_def)

lemma range_total_Nil [simp]: "range_total [] = 0"
  by (simp add: range_total_def)

lemma ranges_sorted_snoc:
  "ranges_sorted cc (rs @ [r]) \<longleftrightarrow> ranges_sorted cc rs \<and> fst r < snd r \<and> snd r \<le> cc
     \<and> (rs \<noteq> [] \<longrightarrow> snd (last rs) \<le> fst r)"
proof -
  have "snd x \<le> fst r"
    if srt: "ranges_sorted cc rs" and ne: "rs \<noteq> []" and lst: "snd (last rs) \<le> fst r"
      and x: "x \<in> set rs" for x
  proof (cases "x = last rs")
    case False
    have rs: "rs = butlast rs @ [last rs]" using ne by simp
    with False x have "x \<in> set (butlast rs)"
      by (metis Un_iff empty_iff list.set(1) set_ConsD set_append)
    moreover have "sorted_wrt (\<lambda>r s. snd r \<le> fst s) (butlast rs @ [last rs])"
      using srt rs by (simp add: ranges_sorted_def)
    ultimately have "snd x \<le> fst (last rs)" by (simp add: sorted_wrt_append)
    also have "\<dots> < snd (last rs)" using srt ne by (simp add: ranges_sorted_def)
    finally show ?thesis using lst by simp
  qed (use lst in simp)
  then show ?thesis
    by (auto simp: ranges_sorted_def sorted_wrt_append)
       (metis empty_iff empty_set snd_conv)
qed

lemma unat_range_len: "a < b \<Longrightarrow> unat (ucast (b - a :: u32) :: u64) = unat b - unat a"
  by (simp add: unat_sub word_less_nat_alt word_le_nat_alt)

lemma unat_total_add:
  assumes "unat (tot :: u64) \<le> unat (mx :: u32)" and "a < (b :: u32)"
  shows "unat (tot + ucast (b - a)) = unat tot + (unat b - unat a)"
proof -
  have "unat b < 2 ^ 32" "unat mx < 2 ^ 32" using unsigned_less[of b] unsigned_less[of mx] by simp_all
  then have "unat tot + unat (ucast (b - a) :: u64) < 2 ^ LENGTH(64)"
    unfolding unat_range_len [OF assms(2)] using assms(1) by simp
  then have "unat (tot + ucast (b - a)) = unat tot + unat (ucast (b - a) :: u64)"
    by (rule unat_add_lem [THEN iffD1])
  then show ?thesis by (simp only: unat_range_len [OF assms(2)])
qed

lemma parse_spans_sound:
  assumes "parse_spans cc mx out tot spans = Inr rs"
    and "ranges_ok cc mx out" and "unat tot = range_total out"
  shows "rs \<noteq> [] \<and> ranges_ok cc mx rs"
  using assms
proof (induction cc mx out tot spans rule: parse_spans.induct)
  case (1 cc mx out tot)
  then show ?case by (simp split: if_splits)
next
  case (2 cc mx out tot span spans)
  from "2.prems"(1) obtain a b where ab: "parse_span span = Inr (a, b)"
    and len: "length out < MAX_RANGE_SPANS" and lt: "a < b" "b \<le> cc"
    and lst: "out \<noteq> [] \<longrightarrow> snd (last out) \<le> a"
    and tot: "tot + ucast (b - a) \<le> ucast mx"
    and rest: "parse_spans cc mx (out @ [(a, b)]) (tot + ucast (b - a)) spans = Inr rs"
    by (auto simp: and_then_Inr Let_def not_le not_less split: if_splits)
  have "unat tot \<le> unat mx" using "2.prems"(2,3) by (simp add: ranges_ok_def)
  then have tn: "unat (tot + ucast (b - a)) = range_total out + (unat b - unat a)"
    using unat_total_add lt(1) "2.prems"(3) by simp
  with tot have "range_total (out @ [(a, b)]) \<le> unat mx"
    by (simp add: word_le_nat_alt)
  with "2.prems"(2) len lt lst have "ranges_ok cc mx (out @ [(a, b)])"
    by (simp add: ranges_ok_def ranges_sorted_snoc)
  with "2.IH" ab len lt lst tot rest tn show ?case
    by (force simp: not_le not_less Let_def)
qed

lemma ranges_ok_Nil: "ranges_ok cc mx []"
  by (simp add: ranges_ok_def ranges_sorted_def)

lemma parse_ranges_sound:
  "parse_ranges params cc mx = Inr rs \<Longrightarrow> rs \<noteq> [] \<and> ranges_ok cc mx rs"
  by (auto simp: parse_ranges_def ranges_ok_Nil split: option.splits dest!: parse_spans_sound)

lemma parse_span_string: "fst r < snd r \<Longrightarrow> parse_span (span_string r) = Inr r"
proof -
  assume lt: "fst r < snd r"
  have no: "CHR ''-'' \<notin> set (u32_to_string n)" for n by (rule u32_to_string_no) simp
  show ?thesis
  proof (cases "snd r = fst r + 1")
    case True
    have "fst r \<noteq> U32_MAX" using lt True by (auto simp: U32_MAX_def)
    moreover have "split_once (CHR ''-'') (u32_to_string (fst r)) = None"
      using no by (simp add: split_once_None)
    ultimately show ?thesis using True
      by (simp add: parse_span_def span_string_def) (metis prod.collapse)
  next
    case False
    then show ?thesis
      using split_once_append [OF no, of "fst r" "u32_to_string (snd r)"]
      by (simp add: parse_span_def span_string_def)
  qed
qed

lemma parse_spans_complete:
  assumes "ranges_ok cc mx (out @ rs)" and "unat tot = range_total out" and "out @ rs \<noteq> []"
  shows "parse_spans cc mx out tot (map span_string rs) = Inr (out @ rs)"
  using assms
proof (induction rs arbitrary: out tot)
  case Nil
  then show ?case by simp
next
  case (Cons r rs)
  obtain a b where r: "r = (a, b)" by (cases r)
  from Cons.prems(1) have srt: "ranges_sorted cc (out @ [r])"
    by (auto simp: ranges_ok_def ranges_sorted_def sorted_wrt_append)
  then have lt: "a < b" "b \<le> cc" and lst: "out \<noteq> [] \<longrightarrow> snd (last out) \<le> a"
    by (simp_all add: ranges_sorted_snoc r)
  have len: "length out < MAX_RANGE_SPANS" using Cons.prems(1) by (simp add: ranges_ok_def)
  have le: "unat tot \<le> unat mx" using Cons.prems(1,2) by (simp add: ranges_ok_def)
  have tn: "unat (tot + ucast (b - a)) = range_total (out @ [r])"
    using unat_total_add [OF le lt(1)] Cons.prems(2) by (simp add: r)
  then have "tot + ucast (b - a) \<le> ucast mx"
    using Cons.prems(1) by (simp add: word_le_nat_alt ranges_ok_def)
  moreover have "parse_spans cc mx (out @ [r]) (tot + ucast (b - a)) (map span_string rs)
      = Inr ((out @ [r]) @ rs)"
    using Cons.prems(1) tn by (intro Cons.IH) simp_all
  ultimately show ?case
    using lt lst len parse_span_string[of r]
    by (auto simp: r Let_def not_less [symmetric] not_le)
qed

lemma span_string_nonempty [simp]: "span_string r \<noteq> []"
  by (simp add: span_string_def u32_to_string_def)

lemma span_string_no: "c \<notin> set ''-0123456789'' \<Longrightarrow> c \<notin> set (span_string r)"
  using u32_to_string_no[of c] by (auto simp: span_string_def)

lemma join_with_glue: "join_with d ((v @ d # w) # ws) = v @ d # join_with d (w # ws)"
  by (cases ws) simp_all

lemma format_ranges_loop_eq:
  "(\<forall>r \<in> set rs. fst r < snd r) \<Longrightarrow> format_ranges_loop out rs =
     (if out = [] then join_with (CHR '','') (map span_string rs)
      else join_with (CHR '','') (out # map span_string rs))"
proof (induction rs arbitrary: out)
  case (Cons r rs)
  then show ?case
    by (simp add: Let_def join_with_glue)
qed simp

lemma format_ranges_eq:
  "(\<forall>r \<in> set rs. fst r < snd r) \<Longrightarrow> format_ranges rs = join_with (CHR '','') (map span_string rs)"
  by (simp add: format_ranges_def format_ranges_loop_eq)

lemma in_join_with: "c \<in> set (join_with d ws) \<Longrightarrow> c = d \<or> (\<exists>w \<in> set ws. c \<in> set w)"
  by (induction d ws rule: join_with.induct) auto

lemma format_ranges_no:
  assumes "\<forall>r \<in> set rs. fst r < snd r" and "c \<notin> set '',-0123456789''"
  shows "c \<notin> set (format_ranges rs)"
proof
  assume "c \<in> set (format_ranges rs)"
  then have "c = CHR '','' \<or> (\<exists>r \<in> set rs. c \<in> set (span_string r))"
    using in_join_with by (fastforce simp: format_ranges_eq [OF assms(1)])
  then show False using assms(2) span_string_no[of c] by auto
qed

lemma ranges_param_single:
  "CHR ''&'' \<notin> set s \<Longrightarrow> ranges_param (''ranges='' @ s) = Some s"
proof -
  assume "CHR ''&'' \<notin> set s"
  then have "split_on (CHR ''&'') (''ranges='' @ s) = [''ranges='' @ s]"
    by (intro split_on_noop) simp
  then show ?thesis by (simp only: ranges_param_def fold.simps id_apply comp_apply strip_prefix_append option.case)
qed

lemma parse_format_ranges:
  assumes "ranges_ok cc mx rs" and "rs \<noteq> []"
  shows "parse_ranges (''ranges='' @ format_ranges rs) cc mx = Inr rs"
proof -
  have ne: "\<forall>r \<in> set rs. fst r < snd r" using assms(1) by (simp add: ranges_ok_def ranges_sorted_def)
  have "CHR ''&'' \<notin> set (format_ranges rs)" by (rule format_ranges_no [OF ne]) simp
  then have "ranges_param (''ranges='' @ format_ranges rs) = Some (format_ranges rs)"
    by (rule ranges_param_single)
  moreover have "split_on (CHR '','') (format_ranges rs) = map span_string rs"
    unfolding format_ranges_eq [OF ne] using assms(2) span_string_no[of "CHR '',''"]
    by (intro split_join) auto
  moreover have "parse_spans cc mx [] 0 (map span_string rs) = Inr rs"
    using parse_spans_complete[of cc mx "[]" rs 0] assms by simp
  ultimately show ?thesis by (simp only: parse_ranges_def option.case)
qed

section \<open>Keys read back\<close>

text \<open>
  A query prefix reaches a served prefix when it has as many segments and each is the same or a
  single-segment wildcard, which is the case for every origin a client may ask through.
\<close>

definition reaches :: "query_prefix \<Rightarrow> serve_prefix \<Rightarrow> bool" where
  "reaches q p \<longleftrightarrow> length (split_on (CHR ''/'') q) = length (split_on (CHR ''/'') p)
     \<and> prefix_segments_match (split_on (CHR ''/'') p) (split_on (CHR ''/'') q)"

lemma prefix_segments_match_append:
  "length q = length p \<Longrightarrow> prefix_segments_match p (q @ r) = prefix_segments_match p q"
proof (induction p arbitrary: q)
  case (Cons w p)
  then show ?case by (cases q) simp_all
qed simp

lemma prefix_segments_match_refl:
  "(\<forall>w \<in> set p. CHR ''*'' \<notin> set w) \<Longrightarrow> prefix_segments_match p p"
proof (induction p)
  case (Cons w p)
  then have "w \<noteq> ''**''" by auto
  with Cons show ?case by simp
qed simp

lemma reaches_refl: "\<not> has_wildcard p \<Longrightarrow> reaches p p"
  by (auto simp: reaches_def has_wildcard_def intro: prefix_segments_match_refl)

lemma split_key:
  "CHR ''/'' \<notin> set bid \<Longrightarrow>
   split_on (CHR ''/'') (q @ CHR ''/'' # bid @ CHR ''/'' # rest)
     = split_on (CHR ''/'') q @ bid # split_on (CHR ''/'') rest"
  by (simp add: split_on_append_sep split_on_noop)

lemma parse_id_key:
  assumes "reaches q p" and "id_is_valid bid"
  shows "parse_id p (q @ CHR ''/'' # bid @ CHR ''/'' # rest) = Some bid"
proof -
  let ?k = "split_on (CHR ''/'') (q @ CHR ''/'' # bid @ CHR ''/'' # rest)"
  let ?p = "split_on (CHR ''/'') p" and ?q = "split_on (CHR ''/'') q"
  have k: "?k = ?q @ bid # split_on (CHR ''/'') rest"
    by (rule split_key [OF id_is_valid_no_slash [OF assms(2)]])
  have len: "length ?q = length ?p" using assms(1) by (simp add: reaches_def)
  have "prefix_segments_match ?p ?k"
    using assms(1) by (simp add: k prefix_segments_match_append len reaches_def)
  moreover have "?k ! length ?p = bid" by (simp add: k flip: len)
  moreover have "\<not> length ?k \<le> length ?p" by (simp add: k len)
  moreover have "bid \<noteq> []" using assms(2) by (simp add: id_is_valid_def)
  ultimately show ?thesis
    using id_is_valid_no_star [OF assms(2)] by (simp add: parse_id_def Let_def)
qed

lemma parse_tier2_tail_split:
  assumes "reaches q p" and k: "split_on (CHR ''/'') key = split_on (CHR ''/'') q @ tail"
    and "tail \<noteq> []"
  shows "parse_tier2_tail p key =
     (case tail of [a] \<Rightarrow> Some (One a) | [a, b] \<Rightarrow> Some (Two a b) | _ \<Rightarrow> None)"
proof -
  let ?p = "split_on (CHR ''/'') p"
  have len: "length (split_on (CHR ''/'') q) = length ?p"
    using assms(1) by (simp add: reaches_def)
  have "prefix_segments_match ?p (split_on (CHR ''/'') key)"
    using assms(1) by (simp add: k prefix_segments_match_append len reaches_def)
  moreover have "drop (length ?p) (split_on (CHR ''/'') key) = tail" by (simp add: k len)
  moreover have "\<not> length (split_on (CHR ''/'') key) \<le> length ?p" using assms(3) by (simp add: k len)
  ultimately show ?thesis by (simp add: parse_tier2_tail_def Let_def)
qed

lemma parse_tier2_tail_two:
  assumes "reaches q p" and "CHR ''/'' \<notin> set a" and "CHR ''/'' \<notin> set b"
  shows "parse_tier2_tail p (q @ CHR ''/'' # a @ CHR ''/'' # b) = Some (Two a b)"
  using parse_tier2_tail_split [OF assms(1), of _ "[a, b]"] assms(2,3)
  by (simp add: split_key split_on_noop)

lemma parse_tier2_tail_one:
  assumes "reaches q p" and "CHR ''/'' \<notin> set a"
  shows "parse_tier2_tail p (q @ CHR ''/'' # a) = Some (One a)"
  using parse_tier2_tail_split [OF assms(1), of _ "[a]"] assms(2)
  by (simp add: split_on_append_sep split_on_noop)

lemma hash_display_no_slash: "CHR ''/'' \<notin> set (hash_display h)"
  using hash_display_chars[of h] by auto

lemma in_split_on_iff: "c \<noteq> d \<Longrightarrow> (\<exists>w \<in> set (split_on d s). c \<in> set w) \<longleftrightarrow> c \<in> set s"
  by (induction s) (auto split: list.splits)

lemma has_wildcard_iff: "has_wildcard p \<longleftrightarrow> CHR ''*'' \<in> set p"
  by (simp add: has_wildcard_def in_split_on_iff)

lemma serve_prefix_new_Inr:
  "serve_prefix_new valid_ke s = Inr p \<Longrightarrow> p = s \<and> s \<noteq> [] \<and> \<not> has_wildcard s"
  by (auto simp: serve_prefix_new_def validate_shape_def and_then_Inr split: if_splits)

text \<open>
  Anything that may be served may be queried; the reverse holds exactly for concrete prefixes
  whose declaration form Zenoh accepts.
\<close>

lemma serve_prefix_queryable:
  "serve_prefix_new valid_ke s = Inr p \<Longrightarrow>
   query_prefix_new valid_ke s = Inr (query_from_serve p) \<and> is_concrete (query_from_serve p)
   \<and> reaches (query_from_serve p) p"
  by (auto simp: serve_prefix_new_def query_prefix_new_def query_from_serve_def is_concrete_def
      reaches_refl and_then_Inr split: if_splits)

end
