(* ===== verification/Wire_Props.thy ===== *)
theory Wire_Props
  imports Wire
begin

text \<open>
  The wire bit fields answer the \<open>bitfield\<close> contract, their constructors build what they
  claim, and accepted messages satisfy the bounds their consumers rely on.
\<close>

section \<open>Counting bits below a declared limit\<close>

lemma bit_at_take: "bit_at (take n bs) k \<longleftrightarrow> k < 8 * n \<and> bit_at bs k"
  by (auto simp: bit_at_def)

lemma bits_below_split:
  fixes bs :: bytes and L :: nat
  defines "full \<equiv> L div 8" and "rem \<equiv> L mod 8"
  shows "bits_below bs L = {k. bit_at (take full bs @
     (if full < length bs \<and> 0 < rem then [(bs ! full) AND (push_bit rem 1 - 1)] else [])) k}"
proof (cases "full < length bs \<and> 0 < rem")
  case True
  have L: "L = 8 * full + rem" by (simp add: full_def rem_def)
  have "bit_at (take full bs @ [(bs ! full) AND (push_bit rem 1 - 1)]) k \<longleftrightarrow> k < L \<and> bit_at bs k" for k
  proof -
    have "length (take full bs) = full" using True by simp
    then have "bit_at (take full bs @ [(bs ! full) AND (push_bit rem 1 - 1)]) k \<longleftrightarrow>
        (k < 8 * full \<and> bit_at bs k) \<or> (k div 8 = full \<and> bit (bs ! full) (k mod 8) \<and> k mod 8 < rem)"
      unfolding bit_at_snoc bit_at_take bit_low_mask by simp
    also have "\<dots> \<longleftrightarrow> k < L \<and> bit_at bs k"
    proof (cases "k div 8 = full")
      case True
      then have k: "k = 8 * full + k mod 8" by auto
      then have "k < L \<longleftrightarrow> k mod 8 < rem" using L by linarith
      with True \<open>full < length bs \<and> 0 < rem\<close> k show ?thesis by (auto simp: bit_at_def)
    next
      case False
      have "rem < 8" by (simp add: rem_def)
      with False L have "k < L \<longleftrightarrow> k < 8 * full" by auto
      with False show ?thesis by auto
    qed
    finally show ?thesis .
  qed
  then show ?thesis using True by (auto simp: bits_below_def)
next
  case False
  have L: "L = 8 * full + rem" by (simp add: full_def rem_def)
  have "k < 8 * full \<longleftrightarrow> k < L" if "bit_at bs k" for k
    using bit_at_length [OF that] False L by auto
  then show ?thesis using False by (auto simp: bits_below_def bit_at_take)
qed

lemma unat_count_bits: "unat (count_bits bs limit) = card (bits_below bs (unat limit))"
proof -
  let ?full = "unat limit div 8" and ?rem = "unat limit mod 8"
  let ?tail = "if ?full < length bs \<and> 0 < ?rem then [(bs ! ?full) AND (push_bit ?rem 1 - 1)] else []"
  have pc: "popcount (take ?full bs @ ?tail) = card (bits_below bs (unat limit))"
    by (simp only: popcount_card bits_below_split)
  then have "popcount (take ?full bs @ ?tail) \<le> unat limit"
    by (simp add: card_bits_below_le)
  also have "unat limit < 2 ^ 32" using unsigned_less[of limit] by simp
  finally have "unat (sum_list (map (\<lambda>b. of_nat (count_ones b)) (take ?full bs @ ?tail)) :: u32)
      = popcount (take ?full bs @ ?tail)"
    by (rule unat_sum_count_ones)
  moreover have "count_bits bs limit
      = sum_list (map (\<lambda>b. of_nat (count_ones b)) (take ?full bs @ ?tail))"
    by (simp add: count_bits_def Let_def word_less_nat_alt)
  ultimately show ?thesis by (simp only: pc)
qed

interpretation avail: bitfield av_bits av_chunk_count availability_is_set availability_count
  by unfold_locales
     (simp_all add: availability_is_set_def availability_count_def test_bit_sized unat_count_bits)

interpretation haveb: bitfield hb_bits hb_count have_bits_is_set have_bits_count_set
  by unfold_locales
     (simp_all add: have_bits_is_set_def have_bits_count_set_def test_bit_sized unat_count_bits)

section \<open>Constructors\<close>

lemma unat_div_ceil8: "unat (div_ceil (n :: u32) 8) = nat_div_ceil (unat n) 8"
  by (simp add: unat_div_ceil)

lemma bit_ff [simp]: "bit (0xff :: u8) k \<longleftrightarrow> k < 8"
proof -
  have "bit (0xff :: u8) k \<longleftrightarrow> bit (mask 8 :: u8) k" by (simp add: mask_eq_exp_minus_1)
  then show ?thesis unfolding bit_mask_iff by auto
qed

lemma bit_mask_byte: "bit (push_bit n 1 - 1 :: u8) k \<longleftrightarrow> k < n \<and> k < 8"
proof -
  have "bit (push_bit n 1 - 1 :: u8) k \<longleftrightarrow> bit (mask n :: u8) k"
    by (simp add: mask_eq_exp_minus_1 push_bit_eq_mult)
  then show ?thesis unfolding bit_mask_iff by auto
qed

lemma availability_full_bit:
  "k < unat n \<Longrightarrow> bit_at (av_bits (availability_full n)) k"
proof -
  assume k: "k < unat n"
  let ?m = "nat_div_ceil (unat n) 8"
  have m: "k div 8 < ?m" using k by (simp add: less_nat_div_ceil_iff)
  show ?thesis
  proof (cases "unat n mod 8 = 0")
    case True
    then have "\<not> n mod 8 \<noteq> 0" by (simp add: word_unat_eq_iff)
    moreover have "bit (0xff :: u8) (k mod 8)" unfolding bit_ff by simp
    ultimately show ?thesis using m
      by (simp add: availability_full_def Let_def unat_div_ceil8 bit_at_def)
  next
    case False
    then have nz: "n mod 8 \<noteq> 0" by (simp add: word_unat_eq_iff)
    have mm: "?m = Suc (unat n div 8)" using False by (simp add: nat_div_ceil_def)
    have "k mod 8 < unat n mod 8" if "k div 8 = unat n div 8"
      using k that by (metis mult_div_mod_eq nat_add_left_cancel_less)
    moreover have "av_bits (availability_full n) =
        (replicate ?m 0xff)[?m - 1 := push_bit (unat n mod 8) 1 - 1]"
      using nz mm by (simp add: availability_full_def Let_def unat_div_ceil8)
    moreover have "bit (0xff :: u8) (k mod 8)" unfolding bit_ff by simp
    moreover have "?m - 1 = unat n div 8" using mm by simp
    ultimately show ?thesis using m
      by (cases "k div 8 = unat n div 8")
         (simp_all add: bit_at_def nth_list_update bit_mask_byte del: push_bit_of_1 replicate_Suc)
  qed
qed

lemma u32_le_max: "\<not> U32_MAX < n"
proof -
  have "unat n < 2 ^ 32" using unsigned_less[of n] by simp
  then show ?thesis by (simp add: word_less_nat_alt)
qed

lemma availability_full_valid: "availability_validate (availability_full n) U32_MAX = Inr ()"
  by (simp add: availability_full_def availability_validate_def Let_def u32_le_max)

lemma availability_full_sized: "sized (av_bits (availability_full n))"
  by (rule sized_div_ceil [of _ n]) (simp add: availability_full_def Let_def unat_div_ceil8)

text \<open>The full reply holds every chunk and counts them all.\<close>

lemma availability_full_count: "availability_count (availability_full n) = n"
proof -
  have lim: "av_chunk_count (availability_full n) = n"
    by (simp add: availability_full_def Let_def)
  have "n \<le> availability_count (availability_full n)"
    using avail.count_full_iff [OF availability_full_sized, of n]
    by (simp add: lim avail.is_set_iff [OF availability_full_sized] availability_full_bit word_less_nat_alt)
  moreover have "availability_count (availability_full n) \<le> n"
    using avail.count_le_limit [OF availability_full_sized, of n] by (simp add: lim)
  ultimately show ?thesis by (rule antisym [rotated])
qed

lemma presence_step:
  assumes len: "length bits = nat_div_ceil i 8"
    and b1: "bits1 = (if i mod 8 = 0 then bits @ [0] else bits)"
    and b2: "bits2 = (if yes then bits1[length bits1 - 1 :=
               (bits1 ! (length bits1 - 1)) OR push_bit (i mod 8) 1] else bits1)"
  shows "length bits2 = nat_div_ceil (Suc i) 8"
    and "bit_at bits2 k \<longleftrightarrow> bit_at bits k \<or> (k = i \<and> yes)"
proof -
  have l1: "length bits1 = Suc (i div 8)"
    using len by (auto simp: b1 nat_div_ceil_def)
  moreover have "nat_div_ceil (Suc i) 8 = Suc (i div 8)"
    by (auto simp: nat_div_ceil_def div_Suc mod_Suc)
  ultimately show "length bits2 = nat_div_ceil (Suc i) 8" by (simp add: b2)
  have "bit_at bits1 k \<longleftrightarrow> bit_at bits k"
    by (simp add: b1 bit_at_snoc)
  moreover have "bit_at (bits1[i div 8 := (bits1 ! (i div 8)) OR push_bit (i mod 8) 1]) k
      \<longleftrightarrow> bit_at bits1 k \<or> k = i"
    using bit_at_set_bit[of "i div 8" bits1 "i mod 8" k] l1 by simp
  ultimately show "bit_at bits2 k \<longleftrightarrow> bit_at bits k \<or> (k = i \<and> yes)"
    by (simp add: b2 l1 del: push_bit_of_1)
qed

lemma presence_loop_bits:
  assumes "length bits = nat_div_ceil (length done) 8"
    and "\<And>k. bit_at bits k \<longleftrightarrow> k < length done \<and> done ! k"
    and "presence_loop (length done) (of_nat (length done)) bits rest = (c, bs)"
  shows "c = of_nat (length (done @ rest)) \<and> length bs = nat_div_ceil (length (done @ rest)) 8
     \<and> (\<forall>k. bit_at bs k \<longleftrightarrow> k < length (done @ rest) \<and> (done @ rest) ! k)"
  using assms
proof (induction rest arbitrary: "done" bits)
  case Nil
  then show ?case by simp
next
  case (Cons yes rest)
  let ?i = "length done"
  define bits1 where "bits1 = (if ?i mod 8 = 0 then bits @ [0] else bits)"
  define bits2 where "bits2 = (if yes then bits1[length bits1 - 1 :=
      (bits1 ! (length bits1 - 1)) OR push_bit (?i mod 8) 1] else bits1)"
  note step = presence_step [OF Cons.prems(1) bits1_def bits2_def]
  have "presence_loop (Suc ?i) (of_nat ?i + 1) bits2 rest = (c, bs)"
    using Cons.prems(3)
    by (simp only: presence_loop.simps Let_def bits1_def [symmetric] bits2_def [symmetric])
  then have "presence_loop (length (done @ [yes])) (of_nat (length (done @ [yes]))) bits2 rest = (c, bs)"
    by (simp add: add.commute)
  moreover have "bit_at bits2 k \<longleftrightarrow> k < length (done @ [yes]) \<and> (done @ [yes]) ! k" for k
    unfolding step(2) Cons.prems(2) by (auto simp: nth_append less_Suc_eq)
  ultimately show ?case
    using Cons.IH [of bits2 "done @ [yes]"] step(1) by simp
qed

lemma have_bits_from_presence_fields:
  fixes ps :: "bool list"
  defines "h \<equiv> have_bits_from_presence ps"
  shows "hb_version h = WIRE_VERSION" "hb_count h = of_nat (length ps)"
    "length (hb_bits h) = nat_div_ceil (length ps) 8"
    "bit_at (hb_bits h) k \<longleftrightarrow> k < length ps \<and> ps ! k"
proof -
  obtain c bs where cb: "presence_loop 0 0 [] ps = (c, bs)" by (meson surj_pair)
  then have "c = of_nat (length ps) \<and> length bs = nat_div_ceil (length ps) 8
      \<and> (\<forall>k. bit_at bs k \<longleftrightarrow> k < length ps \<and> ps ! k)"
    using presence_loop_bits[of "[]" "[]" ps c bs] by (simp add: bit_at_def [of "[]"])
  then show "hb_version h = WIRE_VERSION" "hb_count h = of_nat (length ps)"
    "length (hb_bits h) = nat_div_ceil (length ps) 8"
    "bit_at (hb_bits h) k \<longleftrightarrow> k < length ps \<and> ps ! k"
    by (simp_all add: h_def have_bits_from_presence_def cb)
qed

text \<open>
  A probe reply answers the question it was asked: it validates against the number of entries
  and reads back the very presence flags it was built from.
\<close>

lemma have_bits_roundtrip:
  assumes "length ps < 2 ^ 32"
  shows "have_bits_validate (have_bits_from_presence ps) (length ps) = Inr ()"
    and "i < length ps \<Longrightarrow> have_bits_is_set (have_bits_from_presence ps) (of_nat i) = ps ! i"
proof -
  note f = have_bits_from_presence_fields[of ps]
  have n: "unat (of_nat (length ps) :: u32) = length ps" using assms by (simp add: unat_of_nat)
  then show "have_bits_validate (have_bits_from_presence ps) (length ps) = Inr ()"
    by (simp add: have_bits_validate_def f unat_div_ceil8)
  have "sized (hb_bits (have_bits_from_presence ps))"
    by (rule sized_div_ceil [of _ "of_nat (length ps)"]) (simp add: f n)
  note is_set = haveb.is_set_iff [OF this]
  assume i: "i < length ps"
  then have "unat (of_nat i :: u32) = i" using assms by (simp add: unat_of_nat)
  with i n show "have_bits_is_set (have_bits_from_presence ps) (of_nat i) = ps ! i"
    by (simp add: is_set f word_less_nat_alt)
qed

end
