(* ===== verification/Resume.thy ===== *)
theory Resume
  imports Manifests Keys_Props Wire_Props
begin

text \<open>
  The resume sidecar (\<open>src/src/resume.rs\<close>): which chunks of an interrupted download are on
  disk, bound to the blob's identity and geometry. The bit field may come from a corrupt or
  forged file, so every view of it is bounded by the recorded geometry. Postcard, the encoding
  of the body, is a pair of parameters.
\<close>

record resume_state =
  rs_version :: u16
  rs_id :: blob_id
  rs_root :: hash
  rs_total_len :: u64
  rs_chunk_size :: u32
  rs_bits :: bytes

definition sidecar_path :: "string \<Rightarrow> string" where
  "sidecar_path part = part @ ''.meta''"

definition resume_fresh :: "manifest \<Rightarrow> u32 \<Rightarrow> resume_state" where
  "resume_fresh m chunk_count =
     \<lparr>rs_version = WIRE_VERSION, rs_id = m_id m, rs_root = m_root m,
      rs_total_len = m_total_len m, rs_chunk_size = m_chunk_size m,
      rs_bits = replicate (unat (div_ceil chunk_count 8)) 0\<rparr>"

definition resume_matches :: "resume_state \<Rightarrow> manifest \<Rightarrow> u32 \<Rightarrow> bool" where
  "resume_matches s m chunk_count \<longleftrightarrow>
     rs_version s = WIRE_VERSION \<and> rs_id s = m_id m \<and> rs_root s = m_root m
     \<and> rs_total_len s = m_total_len m \<and> rs_chunk_size s = m_chunk_size m
     \<and> length (rs_bits s) = unat (div_ceil chunk_count 8)"

definition resume_chunk_count :: "resume_state \<Rightarrow> u32" where
  "resume_chunk_count s =
     (if rs_chunk_size s = 0 then 0
      else ucast (div_ceil (rs_total_len s) (ucast (rs_chunk_size s))))"

definition resume_is_set :: "resume_state \<Rightarrow> u32 \<Rightarrow> bool" where
  "resume_is_set s i \<longleftrightarrow> i < resume_chunk_count s \<and> test_bit (rs_bits s) i"

definition resume_mark :: "resume_state \<Rightarrow> u32 \<Rightarrow> bool \<times> resume_state" where
  "resume_mark s i =
     (if i \<ge> resume_chunk_count s \<or> i div 8 \<ge> of_nat (length (rs_bits s)) \<or> resume_is_set s i
      then (False, s)
      else (True, s\<lparr>rs_bits := (rs_bits s)[unat (i div 8) :=
             (rs_bits s ! unat (i div 8)) OR push_bit (unat (i mod 8)) 1]\<rparr>))"

definition saturating_sub :: "'a::len word \<Rightarrow> 'a word \<Rightarrow> 'a word" where
  "saturating_sub a b = (if b \<le> a then a - b else 0)"

text \<open>The mask of byte \<open>i\<close>: all of it, a prefix of it, or nothing beyond the last chunk.\<close>

definition valid_mask :: "u32 \<Rightarrow> nat \<Rightarrow> u8" where
  "valid_mask count i =
     (let bit_base = of_nat i * 8; valid = min (saturating_sub count bit_base) 8
      in if valid \<ge> 8 then 0xff else push_bit (unat valid) 1 - 1)"

definition resume_received :: "resume_state \<Rightarrow> u32" where
  "resume_received s =
     sum_list (map (\<lambda>(i, b). of_nat (count_ones (b AND valid_mask (resume_chunk_count s) i)))
                   (List.enumerate 0 (rs_bits s)))"

definition resume_is_complete :: "resume_state \<Rightarrow> u32 \<Rightarrow> bool" where
  "resume_is_complete s chunk_count \<longleftrightarrow> resume_received s \<ge> chunk_count"

text \<open>The two nested loops of \<open>missing_ranges\<close>: the inner one runs to the end of a hole.\<close>

function hole_end :: "resume_state \<Rightarrow> u32 \<Rightarrow> u32 \<Rightarrow> u32" where
  "hole_end s n i = (if i < n \<and> \<not> resume_is_set s i then hole_end s n (i + 1) else i)"
  by auto

lemma unat_Suc_less: "(i :: 'a::len word) < n \<Longrightarrow> unat (i + 1) = Suc (unat i)"
proof -
  assume "i < n"
  then have "Suc (unat i) < 2 ^ LENGTH('a)"
    using unat_lt[of n] unfolding word_less_nat_alt by linarith
  then show ?thesis by (simp add: unat_word_ariths)
qed

termination hole_end
  by (relation "measure (\<lambda>(s, n, i). unat n - unat i)")
     (auto simp: unat_Suc_less word_less_nat_alt)

declare hole_end.simps [simp del]

lemma hole_end_spec:
  "i \<le> n \<Longrightarrow> i \<le> hole_end s n i \<and> hole_end s n i \<le> n
     \<and> (\<forall>k. i \<le> k \<and> k < hole_end s n i \<longrightarrow> \<not> resume_is_set s k)
     \<and> (hole_end s n i < n \<longrightarrow> resume_is_set s (hole_end s n i))"
proof (induction s n i rule: hole_end.induct)
  case (1 s n i)
  show ?case
  proof (cases "i < n \<and> \<not> resume_is_set s i")
    case True
    then have i1: "unat (i + 1) = Suc (unat i)" by (auto intro: unat_Suc_less)
    with True have "i + 1 \<le> n" by (simp add: word_le_nat_alt word_less_nat_alt)
    note IH = 1(1) [OF True this]
    have e: "hole_end s n i = hole_end s n (i + 1)"
      using True by (subst hole_end.simps) simp
    have "i \<le> hole_end s n (i + 1)"
      using IH i1 by (simp add: word_le_nat_alt)
    moreover have "k = i \<or> i + 1 \<le> k" if "i \<le> k" for k
      using that i1 by (auto simp: word_le_nat_alt word_unat_eq_iff)
    ultimately show ?thesis unfolding e using IH True by blast
  next
    case False
    then have "hole_end s n i = i" by (subst hole_end.simps) (simp only: if_False)
    then show ?thesis using False 1(2) by auto
  qed
qed

lemma hole_end_grows:
  assumes "i < n" and "\<not> resume_is_set s i"
  shows "i < hole_end s n i"
proof (rule ccontr)
  assume "\<not> i < hole_end s n i"
  with hole_end_spec [of i n s] assms(1) have "hole_end s n i = i" by auto
  moreover have "i \<le> n" using assms(1) by simp
  ultimately show False using hole_end_spec [of i n s] assms by auto
qed

function missing_from :: "resume_state \<Rightarrow> u32 \<Rightarrow> u32 \<Rightarrow> range list" where
  "missing_from s n i =
     (if i < n then
        (if resume_is_set s i then missing_from s n (i + 1)
         else (i, hole_end s n i) # missing_from s n (hole_end s n i))
      else [])"
  by auto

termination missing_from
proof (relation "measure (\<lambda>(s, n, i). unat n - unat i)")
  fix s n i assume "i < n" and "\<not> resume_is_set s i"
  then show "((s, n, hole_end s n i), s, n, i) \<in> measure (\<lambda>(s, n, i). unat n - unat i)"
    using hole_end_grows [of i n s] by (simp add: word_less_nat_alt diff_less_mono2)
qed (auto simp: unat_Suc_less word_less_nat_alt)

declare missing_from.simps [simp del]

definition missing_ranges :: "resume_state \<Rightarrow> u32 \<Rightarrow> range list" where
  "missing_ranges s chunk_count = missing_from s chunk_count 0"

text \<open>The disk form: eight magic bytes, then the encoded record.\<close>

definition RESUME_MAGIC :: bytes where
  "RESUME_MAGIC = map of_char ''ZBLOBRS2''"

definition sidecar_payload :: "(resume_state \<Rightarrow> bytes res) \<Rightarrow> resume_state \<Rightarrow> bytes res" where
  "sidecar_payload enc s = and_then (enc s) (\<lambda>body. Inr (RESUME_MAGIC @ body))"

text \<open>
  \<open>load\<close> takes what reading the sidecar gave; an absent, unreadable, foreign or undecodable
  file all mean there is nothing to resume. \<open>save_atomic\<close> replaces the whole sidecar or, on any
  error of encoding or of the file system (\<open>write\<close>), leaves the previous one.
\<close>

definition resume_load :: "(bytes \<Rightarrow> resume_state res) \<Rightarrow> io_error + bytes \<Rightarrow> resume_state option" where
  "resume_load dec file =
     (case file of
        Inl _ \<Rightarrow> None
      | Inr bs \<Rightarrow>
          (case strip_prefix RESUME_MAGIC bs of
             None \<Rightarrow> None
           | Some body \<Rightarrow> (case dec body of Inl _ \<Rightarrow> None | Inr s \<Rightarrow> Some s)))"

definition resume_save ::
  "(resume_state \<Rightarrow> bytes res) \<Rightarrow> (bytes \<Rightarrow> io_error + unit) \<Rightarrow> resume_state
   \<Rightarrow> io_error + bytes \<Rightarrow> unit res \<times> (io_error + bytes)" where
  "resume_save enc write s old =
     (case sidecar_payload enc s of
        Inl e \<Rightarrow> (Inl e, old)
      | Inr payload \<Rightarrow> (case write payload of Inl e \<Rightarrow> (Inl (Io e), old) | Inr _ \<Rightarrow> (Inr (), Inr payload)))"


section \<open>The views agree\<close>

text \<open>A stored field for a \<open>u32\<close> number of chunks is always small enough to be indexed.\<close>

lemma unat_saturating_sub: "unat (saturating_sub a b) = unat a - unat b"
  by (simp add: saturating_sub_def unat_sub word_le_nat_alt)

lemma bit_valid_mask:
  assumes "i < 2 ^ 29"
  shows "bit (valid_mask n i) k \<longleftrightarrow> k < 8 \<and> 8 * i + k < unat n"
proof -
  have "unat (of_nat i * 8 :: u32) = 8 * i"
    using assms by (simp add: unat_word_ariths unat_of_nat mult.commute)
  then have v: "unat (saturating_sub n (of_nat i * 8)) = unat n - 8 * i"
    by (simp add: unat_saturating_sub)
  show ?thesis
  proof (cases "8 \<le> saturating_sub n (of_nat i * 8)")
    case True
    then have "8 * i + 8 \<le> unat n" using v by (simp add: word_le_nat_alt)
    moreover have "valid_mask n i = 0xff" using True by (auto simp: valid_mask_def Let_def min_def)
    ultimately show ?thesis by (simp only: bit_ff) auto
  next
    case False
    then have "unat n < 8 * i + 8" using v by (simp add: word_le_nat_alt)
    moreover have "valid_mask n i = push_bit (unat n - 8 * i) 1 - 1"
      using False v by (simp add: valid_mask_def min_def Let_def del: push_bit_of_1)
    ultimately show ?thesis by (simp only: bit_mask_byte) auto
  qed
qed

definition masked_bits :: "u32 \<Rightarrow> bytes \<Rightarrow> bytes" where
  "masked_bits n bs = map (\<lambda>(i, b). b AND valid_mask n i) (List.enumerate 0 bs)"

lemma length_masked_bits [simp]: "length (masked_bits n bs) = length bs"
  by (simp add: masked_bits_def)

lemma bit_at_masked:
  "sized bs \<Longrightarrow> bit_at (masked_bits n bs) k \<longleftrightarrow> k < unat n \<and> bit_at bs k"
  by (auto simp: bit_at_def masked_bits_def nth_enumerate_eq bit_and_iff bit_valid_mask sized_def)

lemma received_masked:
  "resume_received s =
     sum_list (map (\<lambda>b. of_nat (count_ones b)) (masked_bits (resume_chunk_count s) (rs_bits s)))"
  by (simp add: resume_received_def masked_bits_def o_def case_prod_unfold)

lemma unat_received:
  assumes "sized (rs_bits s)"
  shows "unat (resume_received s) = card (bits_below (rs_bits s) (unat (resume_chunk_count s)))"
proof -
  let ?bs = "masked_bits (resume_chunk_count s) (rs_bits s)"
  have "popcount ?bs = card (bits_below (rs_bits s) (unat (resume_chunk_count s)))"
    by (simp add: popcount_card bits_below_def bit_at_masked [OF assms])
  moreover have "popcount ?bs < 2 ^ 32"
    unfolding calculation using card_bits_below_le[of "rs_bits s" "unat (resume_chunk_count s)"]
      unat_lt32[of "resume_chunk_count s"] by linarith
  ultimately show ?thesis by (simp add: received_masked unat_sum_count_ones)
qed

text \<open>A bit field whose bits can be set one at a time: the contract of \<open>mark\<close>.\<close>

locale markable = bitfield bits limit is_set count
  for bits :: "'s \<Rightarrow> bytes" and limit :: "'s \<Rightarrow> u32" and is_set :: "'s \<Rightarrow> u32 \<Rightarrow> bool"
    and count :: "'s \<Rightarrow> u32" +
  fixes mark :: "'s \<Rightarrow> u32 \<Rightarrow> bool \<times> 's"
  assumes mark_sized: "sized (bits s) \<Longrightarrow> sized (bits (snd (mark s i)))"
    and mark_limit: "limit (snd (mark s i)) = limit s"
    and mark_is_set: "sized (bits s) \<Longrightarrow> i < limit s \<Longrightarrow> unat i div 8 < length (bits s) \<Longrightarrow>
          is_set (snd (mark s i)) k \<longleftrightarrow> is_set s k \<or> k = i"
    and mark_refuses: "sized (bits s) \<Longrightarrow> \<not> (i < limit s \<and> unat i div 8 < length (bits s)) \<Longrightarrow>
          mark s i = (False, s)"
    and mark_fresh: "sized (bits s) \<Longrightarrow> i < limit s \<Longrightarrow> unat i div 8 < length (bits s) \<Longrightarrow>
          fst (mark s i) \<longleftrightarrow> \<not> is_set s i"
begin

lemma mark_mono: "sized (bits s) \<Longrightarrow> is_set s k \<Longrightarrow> is_set (snd (mark s i)) k"
  using mark_is_set[of s i k] mark_refuses[of s i] by (metis snd_conv)

lemma mark_only: "sized (bits s) \<Longrightarrow> is_set (snd (mark s i)) k \<Longrightarrow> is_set s k \<or> k = i"
  using mark_is_set[of s i k] mark_refuses[of s i] by (metis snd_conv)

lemma mark_count:
  assumes "sized (bits s)"
  shows "unat (count (snd (mark s i))) = unat (count s) + (if fst (mark s i) then 1 else 0)"
proof (cases "i < limit s \<and> unat i div 8 < length (bits s)")
  case True
  have "{k. is_set (snd (mark s i)) k} = insert i {k. is_set s k}"
    using mark_is_set [OF assms] True by auto
  moreover have "finite {k. is_set s k}" by (rule finite_subset [of _ UNIV]) auto
  ultimately have "card {k. is_set (snd (mark s i)) k}
      = (if is_set s i then card {k. is_set s k} else Suc (card {k. is_set s k}))"
    by (simp add: card_insert_if)
  then show ?thesis
    using True by (simp add: count_card assms mark_sized mark_fresh)
next
  case False
  then show ?thesis by (simp add: mark_refuses [OF assms])
qed

end

lemma resume_mark_limit [simp]: "resume_chunk_count (snd (resume_mark s i)) = resume_chunk_count s"
  by (simp add: resume_mark_def resume_chunk_count_def)

lemma resume_mark_length [simp]: "length (rs_bits (snd (resume_mark s i))) = length (rs_bits s)"
  by (simp add: resume_mark_def)

lemma resume_is_set_iff:
  "sized (rs_bits s) \<Longrightarrow>
   resume_is_set s i \<longleftrightarrow> i < resume_chunk_count s \<and> bit_at (rs_bits s) (unat i)"
  by (simp add: resume_is_set_def test_bit_sized)

lemma resume_mark_refused:
  "sized (rs_bits s) \<Longrightarrow>
   i \<ge> resume_chunk_count s \<or> i div 8 \<ge> of_nat (length (rs_bits s)) \<longleftrightarrow>
   \<not> (i < resume_chunk_count s \<and> unat i div 8 < length (rs_bits s))"
  by (auto simp: word_le_nat_alt word_less_nat_alt unat_of_nat sized_def)

interpretation resume: markable rs_bits resume_chunk_count resume_is_set resume_received resume_mark
proof
  fix s :: resume_state and i k assume sz: "sized (rs_bits s)"
  show "resume_is_set s i \<longleftrightarrow> i < resume_chunk_count s \<and> bit_at (rs_bits s) (unat i)"
    by (rule resume_is_set_iff [OF sz])
  show "unat (resume_received s) = card (bits_below (rs_bits s) (unat (resume_chunk_count s)))"
    by (rule unat_received [OF sz])
  show sz': "sized (rs_bits (snd (resume_mark s i)))"
    using sz by (simp add: sized_def)
  { assume "\<not> (i < resume_chunk_count s \<and> unat i div 8 < length (rs_bits s))"
    then show "resume_mark s i = (False, s)"
      using resume_mark_refused [OF sz, of i] by (auto simp: resume_mark_def) }
  assume "i < resume_chunk_count s" and "unat i div 8 < length (rs_bits s)"
  then have nr: "\<not> (i \<ge> resume_chunk_count s \<or> i div 8 \<ge> of_nat (length (rs_bits s)))"
    using resume_mark_refused [OF sz, of i] by simp
  then show "fst (resume_mark s i) \<longleftrightarrow> \<not> resume_is_set s i"
    by (auto simp: resume_mark_def)
  show "resume_is_set (snd (resume_mark s i)) k \<longleftrightarrow> resume_is_set s k \<or> k = i"
  proof (cases "resume_is_set s i")
    case True
    then show ?thesis by (auto simp: resume_mark_def)
  next
    case False
    have "8 * (unat i div 8) + unat i mod 8 = unat i" by simp
    then have "bit_at (rs_bits (snd (resume_mark s i))) (unat k) \<longleftrightarrow>
        bit_at (rs_bits s) (unat k) \<or> k = i"
      using False nr bit_at_set_bit[of "unat i div 8" "rs_bits s" "unat i mod 8" "unat k"]
        \<open>unat i div 8 < length (rs_bits s)\<close>
      by (auto simp: resume_mark_def word_unat_eq_iff simp del: push_bit_of_1)
    then show ?thesis
      using \<open>i < resume_chunk_count s\<close> by (auto simp: resume_is_set_iff sz sz')
  qed
qed (simp_all)

section \<open>Holes\<close>

text \<open>
  The hole list is exactly the complement of the set bits, in order and fully coalesced: two
  neighbouring holes are separated by a chunk that is present.
\<close>

definition in_ranges :: "range list \<Rightarrow> u32 \<Rightarrow> bool" where
  "in_ranges rs k \<longleftrightarrow> (\<exists>r \<in> set rs. fst r \<le> k \<and> k < snd r)"

lemma in_ranges_Cons [simp]: "in_ranges (r # rs) k \<longleftrightarrow> (fst r \<le> k \<and> k < snd r) \<or> in_ranges rs k"
  by (simp add: in_ranges_def)

lemma in_ranges_Nil [simp]: "\<not> in_ranges [] k"
  by (simp add: in_ranges_def)

definition ranges_coalesced :: "u32 \<Rightarrow> range list \<Rightarrow> bool" where
  "ranges_coalesced n rs \<longleftrightarrow> ranges_sorted n rs \<and> sorted_wrt (\<lambda>r s. snd r < fst s) rs"

lemma missing_from_spec:
  "i \<le> n \<Longrightarrow> ranges_coalesced n (missing_from s n i)
     \<and> (\<forall>r \<in> set (missing_from s n i). i \<le> fst r)
     \<and> (\<forall>k. in_ranges (missing_from s n i) k \<longleftrightarrow> i \<le> k \<and> k < n \<and> \<not> resume_is_set s k)"
proof (induction s n i rule: missing_from.induct)
  case (1 s n i)
  show ?case
  proof (cases "i < n")
    case False
    then show ?thesis
      by (subst missing_from.simps)
         (auto simp: missing_from.simps [of s n i] ranges_coalesced_def ranges_sorted_def)
  next
    case in_range: True
    then have i1: "unat (i + 1) = Suc (unat i)" by (rule unat_Suc_less)
    then have next_le: "i + 1 \<le> n" "i < i + 1"
      using in_range by (simp_all add: word_le_nat_alt word_less_nat_alt)
    have up: "i \<le> k \<longleftrightarrow> k = i \<or> i + 1 \<le> k" for k
      using i1 by (auto simp: word_le_nat_alt word_unat_eq_iff)
    show ?thesis
    proof (cases "resume_is_set s i")
      case True
      then have "missing_from s n i = missing_from s n (i + 1)"
        using in_range by (subst missing_from.simps) simp
      then show ?thesis
        using 1(1) [OF in_range True next_le(1)] True up by auto
    next
      case False
      let ?e = "hole_end s n i"
      have e: "i < ?e" "?e \<le> n" "\<And>k. i \<le> k \<Longrightarrow> k < ?e \<Longrightarrow> \<not> resume_is_set s k"
          "?e < n \<Longrightarrow> resume_is_set s ?e"
        using hole_end_spec[of i n s] hole_end_grows [OF in_range False] in_range by auto
      note IH = 1(2) [OF in_range False e(2)]
      have gap: "?e < fst r" if "r \<in> set (missing_from s n ?e)" for r
      proof -
        have r: "?e \<le> fst r" "fst r < snd r" "snd r \<le> n"
          using IH that by (auto simp: ranges_coalesced_def ranges_sorted_def)
        then have "in_ranges (missing_from s n ?e) (fst r)" using that by (auto simp: in_ranges_def)
        then have "\<not> resume_is_set s (fst r)" using IH by blast
        with e(4) r show ?thesis by (metis le_less less_le_trans)
      qed
      have m: "missing_from s n i = (i, ?e) # missing_from s n ?e"
        using in_range False by (subst missing_from.simps) simp
      have "ranges_coalesced n (missing_from s n i)"
        unfolding m using IH gap e(1,2)
        by (auto simp: ranges_coalesced_def ranges_sorted_def less_imp_le)
      moreover have "in_ranges (missing_from s n i) k \<longleftrightarrow> i \<le> k \<and> k < n \<and> \<not> resume_is_set s k" for k
        unfolding m using IH e by (auto dest: less_le_trans)
      moreover have "\<forall>r \<in> set (missing_from s n i). i \<le> fst r"
        unfolding m using IH e(1) by auto
      ultimately show ?thesis by blast
    qed
  qed
qed

lemma missing_ranges_spec:
  "ranges_coalesced n (missing_ranges s n)"
  "in_ranges (missing_ranges s n) k \<longleftrightarrow> k < n \<and> \<not> resume_is_set s k"
  using missing_from_spec[of 0 n s] by (simp_all add: missing_ranges_def)

lemma in_ranges_ex: "(\<exists>k. in_ranges rs k) \<longleftrightarrow> (\<exists>r \<in> set rs. fst r < snd r)"
  by (auto simp: in_ranges_def dest: le_less_trans)

lemma missing_ranges_empty: "missing_ranges s n = [] \<longleftrightarrow> (\<forall>k < n. resume_is_set s k)"
proof
  assume "missing_ranges s n = []"
  then show "\<forall>k < n. resume_is_set s k"
    using missing_ranges_spec(2)[of s n] by auto
next
  assume all: "\<forall>k < n. resume_is_set s k"
  show "missing_ranges s n = []"
  proof (rule ccontr)
    assume "missing_ranges s n \<noteq> []"
    then obtain r rs where r: "missing_ranges s n = r # rs" by (cases "missing_ranges s n") auto
    then have "fst r < snd r"
      using missing_ranges_spec(1)[of n s] by (auto simp: ranges_coalesced_def ranges_sorted_def)
    then have "in_ranges (missing_ranges s n) (fst r)" by (simp add: r)
    with all show False using missing_ranges_spec(2)[of s n] by blast
  qed
qed

section \<open>Sidecars and manifests\<close>

definition resume_for :: "resume_state \<Rightarrow> manifest \<Rightarrow> transfer_chunks \<Rightarrow> bool" where
  "resume_for s m c \<longleftrightarrow> manifest_chunks m = Inr c \<and> resume_matches s m (tc_count c)"

lemma resume_for_count: "resume_for s m c \<Longrightarrow> resume_chunk_count s = tc_count c"
  by (auto simp: resume_for_def resume_matches_def resume_chunk_count_def tc_count_def
      manifest_chunks_Inr tc_wf_def)

lemma resume_for_sized: "resume_for s m c \<Longrightarrow> sized (rs_bits s)"
  by (rule sized_div_ceil [of _ "tc_count c"])
     (simp add: resume_for_def resume_matches_def unat_div_ceil8)

lemma resume_for_room: "resume_for s m c \<Longrightarrow> i < tc_count c \<Longrightarrow> unat i div 8 < length (rs_bits s)"
  by (simp add: resume_for_def resume_matches_def unat_div_ceil8 less_nat_div_ceil_iff word_less_nat_alt)

lemma resume_for_mark [simp]: "resume_for (snd (resume_mark s i)) m c = resume_for s m c"
  by (simp add: resume_for_def resume_matches_def) (simp add: resume_mark_def)

lemma resume_for_fresh: "manifest_chunks m = Inr c \<Longrightarrow> resume_for (resume_fresh m (tc_count c)) m c"
  by (simp add: resume_for_def resume_matches_def resume_fresh_def)

lemma resume_fresh_unset: "\<not> resume_is_set (resume_fresh m n) i"
proof -
  have "\<not> bit_at (replicate l 0) k" for l k
    by (simp add: bit_at_def)
  moreover have "sized (rs_bits (resume_fresh m n))"
    by (rule sized_div_ceil [of _ n]) (simp add: resume_fresh_def unat_div_ceil8)
  ultimately show ?thesis by (simp add: resume_is_set_iff) (simp add: resume_fresh_def)
qed

lemma resume_complete_iff:
  assumes "resume_for s m c"
  shows "resume_is_complete s (tc_count c) \<longleftrightarrow> (\<forall>i < tc_count c. resume_is_set s i)"
  using resume.count_full_iff [OF resume_for_sized [OF assms]]
  by (simp add: resume_is_complete_def resume_for_count [OF assms])

lemma sidecar_roundtrip:
  assumes "\<And>x body. enc x = Inr body \<Longrightarrow> dec body = Inr x"
    and "resume_save enc write s old = (Inr (), file)"
  shows "resume_load dec file = Some s"
proof -
  obtain body where b: "enc s = Inr body"
    using assms(2) by (cases "enc s") (auto simp: resume_save_def sidecar_payload_def)
  with assms(2) have "file = Inr (RESUME_MAGIC @ body)"
    by (auto simp: resume_save_def sidecar_payload_def split: sum.splits unit.splits)
  then show ?thesis using assms(1) [OF b] by (simp add: resume_load_def)
qed

lemma resume_save_error:
  "resume_save enc write s old = (Inl e, file) \<Longrightarrow> file = old"
  by (auto simp: resume_save_def split: sum.splits unit.splits)

end
