(* ===== verification/Verify.thy ===== *)
theory Verify
  imports Chunks
begin

text \<open>
  Verified streaming (\<open>src/src/verify.rs\<close>). The bao tree itself is another crate: a
  \<open>bao\<close> record holds the three entry points the sources call, and \<open>bao_pins\<close> states what
  that crate documents of decoding against a root. What this crate adds, the loop over the
  decoded items and the unit conversion, is modelled here, with the file the leaves go to.
\<close>

section \<open>Slices\<close>

datatype bao_item = Leaf u64 bytes | Parent

record bao =
  ChunkNum_chunks :: "u64 \<Rightarrow> u64"
  DecodeResponseIter :: "hash \<Rightarrow> u64 \<Rightarrow> u64 \<times> u64 \<Rightarrow> bytes \<Rightarrow> (io_error + bao_item) list"

definition chunk_range :: "bao \<Rightarrow> u64 \<times> u64 \<Rightarrow> u64 \<times> u64" where
  "chunk_range B r = (drop_bit 10 (fst r), ChunkNum_chunks B (snd r))"

text \<open>The callback threads a state, so that a caller may collect or write the leaves.\<close>

fun decode_items ::
  "('s \<Rightarrow> u64 \<Rightarrow> bytes \<Rightarrow> (io_error + unit) \<times> 's) \<Rightarrow> (io_error + bao_item) list \<Rightarrow> 's
   \<Rightarrow> (io_error + unit) \<times> 's" where
  "decode_items on_leaf [] s = (Inr (), s)"
| "decode_items on_leaf (Inl e # items) s = (Inl IoOther, s)"
| "decode_items on_leaf (Inr Parent # items) s = decode_items on_leaf items s"
| "decode_items on_leaf (Inr (Leaf off d) # items) s =
     (case on_leaf s off d of
        (Inl e, s') \<Rightarrow> (Inl e, s')
      | (Inr _, s') \<Rightarrow> decode_items on_leaf items s')"

definition decode_slice ::
  "bao \<Rightarrow> hash \<Rightarrow> u64 \<Rightarrow> u64 \<times> u64 \<Rightarrow> bytes
   \<Rightarrow> ('s \<Rightarrow> u64 \<Rightarrow> bytes \<Rightarrow> (io_error + unit) \<times> 's) \<Rightarrow> 's \<Rightarrow> (io_error + unit) \<times> 's" where
  "decode_slice B root tot chunks encoded on_leaf s =
     decode_items on_leaf (DecodeResponseIter B root tot chunks encoded) s"

definition push_leaf :: "(u64 \<times> bytes) list \<Rightarrow> u64 \<Rightarrow> bytes \<Rightarrow> (io_error + unit) \<times> (u64 \<times> bytes) list" where
  "push_leaf leaves off d = (Inr (), leaves @ [(off, d)])"

fun item_leaves :: "(io_error + bao_item) list \<Rightarrow> (u64 \<times> bytes) list" where
  "item_leaves [] = []"
| "item_leaves (Inr (Leaf off d) # items) = (off, d) # item_leaves items"
| "item_leaves (_ # items) = item_leaves items"

lemma item_leaves_set: "(off, d) \<in> set (item_leaves items) \<longleftrightarrow> Inr (Leaf off d) \<in> set items"
  by (induction items rule: item_leaves.induct) auto

lemma decode_items_push:
  "decode_items push_leaf items acc = (Inr (), ls) \<longleftrightarrow>
     (\<forall>x \<in> set items. is_ok x) \<and> ls = acc @ item_leaves items"
proof (induction items arbitrary: acc)
  case (Cons x items)
  show ?case
  proof (cases x)
    case (Inr i)
    then show ?thesis using Cons.IH by (cases i) (simp_all add: push_leaf_def [of acc])
  qed simp
qed auto

section \<open>What a root pins\<close>

text \<open>A leaf is genuine when it is the blob's own bytes at its offset.\<close>

definition genuine :: "bytes \<Rightarrow> u64 \<Rightarrow> bytes \<Rightarrow> bool" where
  "genuine content off d \<longleftrightarrow> unat off + length d \<le> length content
     \<and> take (length d) (drop (unat off) content) = d"

definition covers :: "u64 \<times> bytes \<Rightarrow> nat \<Rightarrow> bool" where
  "covers leaf k \<longleftrightarrow> unat (fst leaf) \<le> k \<and> k < unat (fst leaf) + length (snd leaf)"

text \<open>
  The documented behaviour of the decoder for the root of \<open>content\<close>: a leaf is emitted only after
  it verified and lies within the claimed size, a response without an error covers the range that was asked for, and the claimed
  size is proved by any slice that reaches the end. \<open>ChunkNum::chunks\<close> rounds up to kibibytes.
\<close>

definition leaves_genuine :: "bao \<Rightarrow> hash \<Rightarrow> bytes \<Rightarrow> bool" where
  "leaves_genuine B root content \<longleftrightarrow>
     (\<forall>tot r enc off d. Inr (Leaf off d) \<in> set (DecodeResponseIter B root tot r enc)
        \<longrightarrow> genuine content off d \<and> unat off + length d \<le> unat tot)"

definition response_covers :: "bao \<Rightarrow> hash \<Rightarrow> bool" where
  "response_covers B root \<longleftrightarrow>
     (\<forall>tot a b enc k. (\<forall>x \<in> set (DecodeResponseIter B root tot (a, b) enc). is_ok x)
        \<longrightarrow> 1024 * unat a \<le> k \<longrightarrow> k < 1024 * unat b \<longrightarrow> k < unat tot
        \<longrightarrow> (\<exists>leaf \<in> set (item_leaves (DecodeResponseIter B root tot (a, b) enc)). covers leaf k))"

definition size_proved :: "bao \<Rightarrow> hash \<Rightarrow> bytes \<Rightarrow> bool" where
  "size_proved B root content \<longleftrightarrow>
     (\<forall>tot a b enc. (\<forall>x \<in> set (DecodeResponseIter B root tot (a, b) enc). is_ok x)
        \<longrightarrow> 1024 * unat a < unat tot \<longrightarrow> unat tot \<le> 1024 * unat b \<longrightarrow> unat tot = length content)"

definition rounds_up :: "bao \<Rightarrow> bool" where
  "rounds_up B \<longleftrightarrow> (\<forall>n. unat n \<le> 1024 * unat (ChunkNum_chunks B n))"

definition bao_pins :: "bao \<Rightarrow> hash \<Rightarrow> bytes \<Rightarrow> bool" where
  "bao_pins B root content \<longleftrightarrow> leaves_genuine B root content \<and> response_covers B root
     \<and> size_proved B root content \<and> rounds_up B"

text \<open>
  What a caller gets for the byte range \<open>[start, end)\<close> of one transfer chunk: when decoding
  succeeds, its leaves are genuine and cover the chunk, and the last chunk proves the length.
\<close>

lemma decode_slice_genuine:
  assumes "bao_pins B root content"
    and "decode_slice B root tot r enc push_leaf [] = (Inr (), ls)" and "(off, d) \<in> set ls"
  shows "genuine content off d \<and> unat off + length d \<le> unat tot"
proof -
  from assms(2) have "ls = item_leaves (DecodeResponseIter B root tot r enc)"
    by (simp add: decode_slice_def decode_items_push)
  with assms show ?thesis
    by (cases r) (auto simp: item_leaves_set bao_pins_def leaves_genuine_def)
qed

lemma drop_bit_10: "1024 * unat (drop_bit 10 (a :: u64)) \<le> unat a"
proof -
  have "unat (drop_bit 10 a) = unat a div 2 ^ 10"
    by (simp add: drop_bit_eq_div unat_div_distrib)
  then show ?thesis by simp
qed

lemma decode_slice_covers:
  assumes pins: "bao_pins B root content"
    and dec: "decode_slice B root tot (chunk_range B (a, b)) enc push_leaf [] = (Inr (), ls)"
    and k: "unat a \<le> k" "k < unat b" "k < unat tot"
  shows "\<exists>leaf \<in> set ls. covers leaf k"
proof -
  let ?items = "DecodeResponseIter B root tot (chunk_range B (a, b)) enc"
  from dec have ok: "\<forall>x \<in> set ?items. is_ok x" and ls: "ls = item_leaves ?items"
    by (simp_all add: decode_slice_def decode_items_push)
  have "unat b \<le> 1024 * unat (ChunkNum_chunks B b)"
    using pins by (simp add: bao_pins_def rounds_up_def)
  then have "1024 * unat (drop_bit 10 a) \<le> k" "k < 1024 * unat (ChunkNum_chunks B b)"
    using k drop_bit_10[of a] by linarith+
  moreover have "response_covers B root" using pins by (simp add: bao_pins_def)
  ultimately show ?thesis
    using ok k(3) unfolding response_covers_def ls chunk_range_def by simp
qed

lemma decode_slice_size:
  assumes pins: "bao_pins B root content"
    and dec: "decode_slice B root tot (chunk_range B (a, tot)) enc push_leaf [] = (Inr (), ls)"
    and a: "a < tot"
  shows "unat tot = length content"
proof -
  let ?items = "DecodeResponseIter B root tot (chunk_range B (a, tot)) enc"
  from dec have ok: "\<forall>x \<in> set ?items. is_ok x"
    by (simp add: decode_slice_def decode_items_push)
  have "unat tot \<le> 1024 * unat (ChunkNum_chunks B tot)"
    using pins by (simp add: bao_pins_def rounds_up_def)
  moreover have "1024 * unat (drop_bit 10 a) < unat tot"
    using a drop_bit_10[of a] by (simp add: word_less_nat_alt)
  moreover have "size_proved B root content" using pins by (simp add: bao_pins_def)
  ultimately show ?thesis using ok unfolding size_proved_def chunk_range_def by auto
qed

section \<open>Positional writes\<close>

text \<open>Writing past the end of a file fills the gap with zeros.\<close>

definition write_at :: "nat \<Rightarrow> bytes \<Rightarrow> bytes \<Rightarrow> bytes" where
  "write_at off d f =
     (if d = [] then f
      else let f' = f @ replicate (off - length f) 0 in take off f' @ d @ drop (off + length d) f')"

definition set_len :: "nat \<Rightarrow> bytes \<Rightarrow> bytes" where
  "set_len n f = take n f @ replicate (n - length f) 0"

lemma length_set_len [simp]: "length (set_len n f) = n"
  by (simp add: set_len_def)

lemma write_at_nth:
  "k < length f \<Longrightarrow> off + length d \<le> length f \<Longrightarrow>
   write_at off d f ! k = (if off \<le> k \<and> k < off + length d then d ! (k - off) else f ! k)"
  by (auto simp: write_at_def Let_def nth_append)

text \<open>
  \<open>holds content f k\<close>: byte \<open>k\<close> of the file is there and is the blob's. Writing genuine leaves never
  loses such a byte, wherever the leaf goes, and adds the bytes the leaf covers.
\<close>

definition holds :: "bytes \<Rightarrow> bytes \<Rightarrow> nat \<Rightarrow> bool" where
  "holds content f k \<longleftrightarrow> k < length f \<and> k < length content \<and> f ! k = content ! k"

lemma length_write_at_le: "length f \<le> length (write_at off d f)"
  by (auto simp: write_at_def Let_def)

lemma length_write_at: "d \<noteq> [] \<Longrightarrow> length (write_at off d f) = max (length f) (off + length d)"
  by (auto simp: write_at_def Let_def)

lemma nth_write_at_general:
  assumes "k < length (write_at off d f)"
  shows "write_at off d f ! k =
     (if off \<le> k \<and> k < off + length d then d ! (k - off) else if k < length f then f ! k else 0)"
proof (cases "d = []")
  case True
  then show ?thesis using assms by (auto simp: write_at_def)
next
  case False
  let ?f = "f @ replicate (off - length f) 0"
  have w: "write_at off d f = take off ?f @ d @ drop (off + length d) ?f"
    using False by (simp add: write_at_def Let_def)
  have off: "length (take off ?f) = off" by simp
  consider "k < off" | "off \<le> k" "k < off + length d" | "off + length d \<le> k" by linarith
  then show ?thesis
  proof cases
    case 1
    then have "write_at off d f ! k = take off ?f ! k" unfolding w by (simp only: nth_append off if_True)
    also have "\<dots> = (if k < length f then f ! k else 0)" using 1 by (simp add: nth_append)
    finally show ?thesis using 1 by simp
  next
    case 2
    then have "k - off < length d" by linarith
    then have "write_at off d f ! k = d ! (k - off)"
      unfolding w using 2(1) by (simp only: nth_append off) simp
    then show ?thesis using 2 by simp
  next
    case 3
    then have lt: "k < length f"
      using assms length_write_at [OF False, of off f] by linarith
    have "\<not> k < off" "\<not> k - off < length d" using 3 by linarith+
    then have "write_at off d f ! k = drop (off + length d) ?f ! (k - off - length d)"
      unfolding w by (simp only: nth_append off if_False)
    also have "\<dots> = f ! k" using 3 lt by (simp add: nth_append)
    finally show ?thesis using 3 lt by simp
  qed
qed

lemma genuine_nth:
  assumes "genuine content off d" "unat off \<le> k" "k < unat off + length d"
  shows "k < length content \<and> d ! (k - unat off) = content ! k"
proof -
  from assms have lt: "k - unat off < length d" "k < length content"
    by (auto simp: genuine_def)
  have "d ! (k - unat off) = take (length d) (drop (unat off) content) ! (k - unat off)"
    using assms(1) by (simp add: genuine_def)
  also have "\<dots> = content ! k" using lt assms(2) by simp
  finally show ?thesis using lt by simp
qed

lemma genuine_take:
  assumes "genuine content off d"
  shows "genuine content off (take n d)"
proof -
  have d: "take (length d) (drop (unat off) content) = d" and l: "unat off + length d \<le> length content"
    using assms by (simp_all add: genuine_def)
  have "take (length (take n d)) (drop (unat off) content)
      = take n (take (length d) (drop (unat off) content))"
    by (simp add: min.commute)
  then show ?thesis using l by (simp add: genuine_def d)
qed

lemma holds_write_at_mono:
  assumes "genuine content off d" "holds content f k"
  shows "holds content (write_at (unat off) d f) k"
proof -
  from assms(2) have k: "k < length f" "k < length content" "f ! k = content ! k"
    by (simp_all add: holds_def)
  then have "k < length (write_at (unat off) d f)" using length_write_at_le[of f "unat off" d] by simp
  with k genuine_nth [OF assms(1)] show ?thesis
    by (simp add: holds_def nth_write_at_general)
qed

lemma holds_write_at_new:
  assumes "genuine content off d" "covers (off, d) k"
  shows "holds content (write_at (unat off) d f) k"
proof -
  from assms(2) have k: "unat off \<le> k" "k < unat off + length d" by (simp_all add: covers_def)
  then have "k < length (write_at (unat off) d f)" by (subst length_write_at) auto
  with k genuine_nth [OF assms(1) k] show ?thesis by (simp add: holds_def nth_write_at_general)
qed

lemma holds_all_eq:
  assumes "length f = length content" and "\<And>k. k < length content \<Longrightarrow> holds content f k"
  shows "f = content"
  by (rule nth_equalityI) (use assms in \<open>auto simp: holds_def\<close>)

end
