(* ===== verification/Download.thy ===== *)
theory Download
  imports Resume Verify
begin

text \<open>
  The download path of the client (\<open>src/src/client.rs\<close>): fetching a manifest, the
  retry/resume loop \<open>fill_holes\<close>, and \<open>download_to_inner\<close> around it. What the network, the
  disk, the clock and the cancellation token do is input: a \<open>client_env\<close> holds the answers to
  queries, the faults of file operations and the crates that are called. A file is modelled by
  its current content and by the content that was last made durable.
\<close>

section \<open>Environment and state\<close>

datatype progress =
    Started u64 u32
  | Resumed u32 u32
  | ChunkDone u32 u32 u32 u64
  | Verifying
  | Completed
  | CancelledAt u32 u32
  | Failed

record transfer_stats =
  ts_bytes_fetched :: u64
  ts_chunks_fetched :: u32
  ts_chunks_resumed :: u32
  ts_rejected :: u32
  ts_retries :: u32
  ts_queries :: u64

definition stats_default :: transfer_stats where
  "stats_default = \<lparr>ts_bytes_fetched = 0, ts_chunks_fetched = 0, ts_chunks_resumed = 0,
     ts_rejected = 0, ts_retries = 0, ts_queries = 0\<rparr>"

record retry_policy =
  max_attempts :: u32
  base_backoff :: nat
  max_backoff :: nat

text \<open>Durations are nanoseconds, saturating at what \<open>Duration\<close> can hold.\<close>

definition DURATION_MAX :: nat where
  "DURATION_MAX = (2 ^ 64 - 1) * 1000000000 + 999999999"

definition backoff :: "retry_policy \<Rightarrow> u32 \<Rightarrow> nat" where
  "backoff p attempt =
     (let exp = min (base_backoff p * unat (push_bit (unat (min attempt 16)) (1 :: u32))) DURATION_MAX
      in min exp (max_backoff p))"

record client_config =
  cc_prefix :: query_prefix
  cc_retry :: retry_policy
  cc_max_chunks_per_query :: u32
  cc_max_blob_size :: u64

text \<open>
  A sample is one reply of a query; a reply may also be an error. \<open>Recv r t\<close> is a reply
  received at time \<open>t\<close> (milliseconds), \<open>RecvCancelled\<close> the token firing while waiting; the end
  of the list is the closed channel.
\<close>

record sample =
  sm_encoding :: wire_tag
  sm_key :: string
  sm_payload :: bytes

datatype recv = Recv "unit + sample" nat | RecvCancelled

datatype query_outcome = QueryFailed | Replies "recv list"

record client_env =
  ce_bao :: bao
  ce_blake3 :: "bytes \<Rightarrow> hash"
  ce_enc :: "resume_state \<Rightarrow> bytes res"
  ce_dec :: "bytes \<Rightarrow> resume_state res"
  ce_dec_manifest :: "bytes \<Rightarrow> manifest res"
  ce_manifest_replies :: "string \<Rightarrow> query_outcome"
  ce_answer :: "u64 \<Rightarrow> string \<Rightarrow> query_outcome"
  ce_cancelled :: "u64 \<Rightarrow> bool"
  ce_faults :: "nat \<Rightarrow> (io_error \<times> nat) option"
  ce_dest_race :: "bytes option"

text \<open>
  The files of one download: the partial file, its durable content, and the sidecar. Every file
  operation draws the next entry of \<open>ce_faults\<close>; a fault of a write stops after some bytes.
\<close>

record world =
  w_part :: bytes
  w_durable :: bytes
  w_sidecar :: "io_error + bytes"
  w_ops :: nat
  w_progress :: "progress list"

definition emit :: "progress \<Rightarrow> world \<Rightarrow> world" where
  "emit p w = w\<lparr>w_progress := w_progress w @ [p]\<rparr>"

definition next_op :: "world \<Rightarrow> world" where
  "next_op w = w\<lparr>w_ops := Suc (w_ops w)\<rparr>"

definition write_leaf :: "client_env \<Rightarrow> u64 \<Rightarrow> bytes \<Rightarrow> world \<Rightarrow> unit res \<times> world" where
  "write_leaf E off d w =
     (case ce_faults E (w_ops w) of
        None \<Rightarrow> (Inr (), next_op (w\<lparr>w_part := write_at (unat off) d (w_part w)\<rparr>))
      | Some (e, n) \<Rightarrow> (Inl (Io e), next_op (w\<lparr>w_part := write_at (unat off) (take n d) (w_part w)\<rparr>)))"

definition commit :: "client_env \<Rightarrow> world \<Rightarrow> unit res \<times> world" where
  "commit E w =
     (case ce_faults E (w_ops w) of
        None \<Rightarrow> (Inr (), next_op (w\<lparr>w_durable := w_part w\<rparr>))
      | Some (e, _) \<Rightarrow> (Inl (Io e), next_op w))"

definition save_sidecar :: "client_env \<Rightarrow> resume_state \<Rightarrow> world \<Rightarrow> unit res \<times> world" where
  "save_sidecar E s w =
     (case resume_save (ce_enc E)
            (\<lambda>_. case ce_faults E (w_ops w) of None \<Rightarrow> Inr () | Some (e, _) \<Rightarrow> Inl e)
            s (w_sidecar w) of
        (r, file) \<Rightarrow> (r, next_op (w\<lparr>w_sidecar := file\<rparr>)))"

fun write_leaves :: "client_env \<Rightarrow> (u64 \<times> bytes) list \<Rightarrow> world \<Rightarrow> unit res \<times> world" where
  "write_leaves E [] w = (Inr (), w)"
| "write_leaves E ((off, d) # ls) w =
     then_io (write_leaf E off d w) (\<lambda>_. write_leaves E ls)"

section \<open>Small helpers\<close>

definition part_path :: "string \<Rightarrow> string" where
  "part_path dest = dest @ ''.part''"

definition parse_slice_index :: "string \<Rightarrow> u32 option" where
  "parse_slice_index key =
     (case rsplit_once (CHR ''/'') key of
        None \<Rightarrow> None
      | Some (head, idx) \<Rightarrow> if ends_with ''/slice'' head then parse_u32 idx else None)"

definition origin_of :: "string \<Rightarrow> string \<Rightarrow> string \<Rightarrow> string option" where
  "origin_of reply_key bid endpoint =
     Option.bind (strip_suffix endpoint reply_key) (\<lambda>r1.
     Option.bind (strip_suffix ''/'' r1) (\<lambda>r2.
     Option.bind (strip_suffix bid r2) (\<lambda>r3.
     Option.bind (strip_suffix ''/'' r3) (\<lambda>rest.
       if rest \<noteq> [] then Some rest else None))))"

text \<open>\<open>coalesce\<close>: one pass that extends the last span or opens a new one.\<close>

definition coalesce_step :: "u32 \<Rightarrow> range list \<Rightarrow> range list" where
  "coalesce_step i out =
     (if out \<noteq> [] \<and> snd (last out) = i then butlast out @ [(fst (last out), i + 1)]
      else out @ [(i, i + 1)])"

definition coalesce :: "u32 list \<Rightarrow> range list" where
  "coalesce indices = take MAX_RANGE_SPANS (fold coalesce_step indices [])"

text \<open>\<open>ActiveGuard\<close>: one download per destination.\<close>

definition guard_acquire :: "string set \<Rightarrow> string \<Rightarrow> string set res" where
  "guard_acquire active dest = (if dest \<in> active then Inl Usage else Inr (insert dest active))"

definition guard_drop :: "string \<Rightarrow> string set \<Rightarrow> string set" where
  "guard_drop dest active = active - {dest}"

section \<open>Manifests\<close>

text \<open>The verdict on one manifest reply, and the loop that skips what it refuses.\<close>

definition manifest_verdict ::
  "client_env \<Rightarrow> client_config \<Rightarrow> string \<Rightarrow> hash option \<Rightarrow> bytes \<Rightarrow> manifest res" where
  "manifest_verdict E cfg bid expected_root payload =
     and_then (ce_dec_manifest E payload) (\<lambda>m.
     and_then (manifest_validate m (cc_max_blob_size cfg)) (\<lambda>_.
       if m_id m \<noteq> bid then Inl MalformedMessage
       else case expected_root of
              Some h \<Rightarrow> if m_root m \<noteq> h then Inl (RootMismatch h (m_root m)) else Inr m
            | None \<Rightarrow> Inr m))"

fun manifest_loop ::
  "client_env \<Rightarrow> client_config \<Rightarrow> string \<Rightarrow> hash option \<Rightarrow> blob_error option \<Rightarrow> recv list
   \<Rightarrow> manifest res" where
  "manifest_loop E cfg bid root rejected (Recv (Inr sm) t # rs) =
     (if sm_encoding sm \<noteq> ENC_MANIFEST then manifest_loop E cfg bid root rejected rs
      else case manifest_verdict E cfg bid root (sm_payload sm) of
             Inr m \<Rightarrow> Inr m
           | Inl e \<Rightarrow> manifest_loop E cfg bid root
                        (case rejected of None \<Rightarrow> Some e | Some e0 \<Rightarrow> Some e0) rs)"
| "manifest_loop E cfg bid root rejected (Recv (Inl _) t # rs) = manifest_loop E cfg bid root rejected rs"
| "manifest_loop E cfg bid root rejected _ =
     Inl (case rejected of None \<Rightarrow> NotFound | Some e \<Rightarrow> e)"

definition fetch_manifest_matching ::
  "client_env \<Rightarrow> client_config \<Rightarrow> string \<Rightarrow> hash option \<Rightarrow> manifest res" where
  "fetch_manifest_matching E cfg bid expected_root =
     and_then (validate_id bid) (\<lambda>_.
       case ce_manifest_replies E (manifest_key (cc_prefix cfg) bid) of
         QueryFailed \<Rightarrow> Inl Zenoh
       | Replies rs \<Rightarrow> manifest_loop E cfg bid expected_root None rs)"

definition start_download ::
  "client_env \<Rightarrow> client_config \<Rightarrow> string \<Rightarrow> hash option \<Rightarrow> (manifest \<times> transfer_chunks) res" where
  "start_download E cfg bid expected_root =
     and_then (fetch_manifest_matching E cfg bid expected_root) (\<lambda>m.
       if m_total_len m = 0 \<and> m_root m \<noteq> ce_blake3 E []
       then Inl (RootMismatch (ce_blake3 E []) (m_root m))
       else and_then (manifest_chunks m) (\<lambda>c. Inr (m, c)))"

section \<open>The retry and resume loop\<close>

record fill =
  f_world :: world
  f_state :: resume_state
  f_stats :: transfer_stats
  f_bytes_received :: u64
  f_no_progress :: u32
  f_marks_since_save :: u32
  f_last_save :: nat

text \<open>Lifting a file operation to the loop's state.\<close>

definition on_world :: "(world \<Rightarrow> unit res \<times> world) \<Rightarrow> fill \<Rightarrow> unit res \<times> fill" where
  "on_world g f = (case g (f_world f) of (r, w) \<Rightarrow> (r, f\<lparr>f_world := w\<rparr>))"

definition save_if :: "bool \<Rightarrow> client_env \<Rightarrow> fill \<Rightarrow> unit res \<times> fill" where
  "save_if persist E f =
     (if persist then on_world (save_sidecar E (f_state f)) f else (Inr (), f))"

definition persist_cancel :: "bool \<Rightarrow> client_env \<Rightarrow> u32 \<Rightarrow> fill \<Rightarrow> unit res \<times> fill" where
  "persist_cancel persist E count f =
     then_io (on_world (commit E) f) (\<lambda>_ f1.
     then_io (save_if persist E f1) (\<lambda>_ f2.
       let received = resume_received (f_state f2) in
       (Inl (Cancelled received count),
        f2\<lparr>f_world := emit (CancelledAt received count) (f_world f2)\<rparr>)))"

text \<open>The holes one query asks for: at most \<open>MAX_RANGE_SPANS\<close> spans, at most the budget in chunks.\<close>

definition query_budget :: "client_config \<Rightarrow> manifest \<Rightarrow> u32" where
  "query_budget cfg m =
     max (case manifest_max_chunks_per_query m of
            None \<Rightarrow> cc_max_chunks_per_query cfg
          | Some served \<Rightarrow> min (cc_max_chunks_per_query cfg) served) 1"

fun clamp_holes :: "u32 \<Rightarrow> range list \<Rightarrow> range list" where
  "clamp_holes budget [] = []"
| "clamp_holes budget ((a, b) # rs) =
     (let n = min (b - a) budget in (a, a + n) # clamp_holes (budget - n) rs)"

definition query_holes :: "client_config \<Rightarrow> manifest \<Rightarrow> u32 \<Rightarrow> resume_state \<Rightarrow> range list" where
  "query_holes cfg m count s =
     filter (\<lambda>(a, b). a < b)
       (clamp_holes (query_budget cfg m) (take MAX_RANGE_SPANS (missing_ranges s count)))"

text \<open>One reply: drop it, or verify it, write its leaves, mark its chunk and perhaps save.\<close>

definition save_batch :: "bool \<Rightarrow> client_env \<Rightarrow> nat \<Rightarrow> fill \<Rightarrow> unit res \<times> fill" where
  "save_batch persist E now f =
     (if persist \<and> (f_marks_since_save f \<ge> 64 \<or> now - f_last_save f > 2000)
      then then_io (on_world (commit E) f) (\<lambda>_ f1.
           then_io (save_if persist E f1) (\<lambda>_ f2.
             (Inr (), f2\<lparr>f_marks_since_save := 0, f_last_save := now\<rparr>)))
      else (Inr (), f))"

definition mark_chunk :: "bool \<Rightarrow> client_env \<Rightarrow> transfer_chunks \<Rightarrow> nat \<Rightarrow> u32 \<Rightarrow> fill \<Rightarrow> unit res \<times> fill" where
  "mark_chunk persist E c now index f =
     (case resume_mark (f_state f) index of
        (False, _) \<Rightarrow> (Inr (), f)
      | (True, s) \<Rightarrow>
          (let n = ucast (len_of c index);
               br = f_bytes_received f + n;
               st = f_stats f
           in save_batch persist E now
                (f\<lparr>f_state := s, f_bytes_received := br,
                   f_stats := st\<lparr>ts_chunks_fetched := ts_chunks_fetched st + 1,
                                ts_bytes_fetched := ts_bytes_fetched st + n\<rparr>,
                   f_marks_since_save := f_marks_since_save f + 1,
                   f_world := emit (ChunkDone index (resume_received s) (tc_count c) br) (f_world f)\<rparr>)))"

definition on_reply ::
  "bool \<Rightarrow> client_env \<Rightarrow> manifest \<Rightarrow> transfer_chunks \<Rightarrow> nat \<Rightarrow> unit + sample \<Rightarrow> fill \<Rightarrow> unit res \<times> fill" where
  "on_reply persist E m c now reply f =
     (case reply of
        Inl _ \<Rightarrow> (Inr (), f)
      | Inr sm \<Rightarrow>
          if sm_encoding sm \<noteq> ENC_SLICE then (Inr (), f)
          else case parse_slice_index (sm_key sm) of
            None \<Rightarrow> (Inr (), f)
          | Some index \<Rightarrow>
              if index \<ge> tc_count c \<or> resume_is_set (f_state f) index then (Inr (), f)
              else case decode_slice (ce_bao E) (m_root m) (m_total_len m)
                          (chunk_range (ce_bao E) (byte_range c index)) (sm_payload sm) push_leaf [] of
                (Inl _, _) \<Rightarrow>
                  (Inr (), f\<lparr>f_stats := (f_stats f)\<lparr>ts_rejected := ts_rejected (f_stats f) + 1\<rparr>\<rparr>)
              | (Inr _, leaves) \<Rightarrow>
                  then_io (on_world (write_leaves E leaves) f) (\<lambda>_ f1.
                    mark_chunk persist E c now index f1))"

fun recv_loop ::
  "bool \<Rightarrow> client_env \<Rightarrow> manifest \<Rightarrow> transfer_chunks \<Rightarrow> recv list \<Rightarrow> fill \<Rightarrow> unit res \<times> fill" where
  "recv_loop persist E m c [] f = (Inr (), f)"
| "recv_loop persist E m c (RecvCancelled # rs) f = persist_cancel persist E (tc_count c) f"
| "recv_loop persist E m c (Recv reply now # rs) f =
     then_io (on_reply persist E m c now reply f) (\<lambda>_. recv_loop persist E m c rs)"

text \<open>
  One turn of the outer loop. \<open>Continue\<close> goes round again, after the backoff sleep where the
  source has one; \<open>Return\<close> is a \<open>return\<close> of the source; \<open>Break\<close> leaves the loop.
\<close>

datatype 's turn = Continue 's | Break 's | Return "unit res \<times> 's"

definition give_up :: "bool \<Rightarrow> client_env \<Rightarrow> u32 \<Rightarrow> fill \<Rightarrow> unit res \<times> fill" where
  "give_up persist E count f =
     then_io (on_world (commit E) f) (\<lambda>_ f1.
     then_io (save_if persist E f1) (\<lambda>_ f2.
       (Inl (Incomplete (resume_received (f_state f2)) count), f2)))"

definition fill_turn ::
  "bool \<Rightarrow> client_env \<Rightarrow> client_config \<Rightarrow> manifest \<Rightarrow> transfer_chunks \<Rightarrow> fill \<Rightarrow> fill turn" where
  "fill_turn persist E cfg m c f =
     (let count = tc_count c; st = f_stats f in
      if resume_is_complete (f_state f) count then Break f
      else if ce_cancelled E (ts_queries st) then Return (persist_cancel persist E count f)
      else
        let holes = query_holes cfg m count (f_state f);
            selector = slice_selector (cc_prefix cfg) (m_id m) holes;
            had = resume_received (f_state f);
            f1 = f\<lparr>f_stats := st\<lparr>ts_queries := ts_queries st + 1\<rparr>\<rparr>
        in case ce_answer E (ts_queries st) selector of
             QueryFailed \<Rightarrow> Return (Inl Zenoh, f1)
           | Replies rs \<Rightarrow>
               (case recv_loop persist E m c rs f1 of
                  (Inl e, f2) \<Rightarrow> Return (Inl e, f2)
                | (Inr _, f2) \<Rightarrow>
                    if resume_is_complete (f_state f2) count then Break f2
                    else if resume_received (f_state f2) = had then
                      let f3 = f2\<lparr>f_no_progress := f_no_progress f2 + 1,
                                  f_stats := (f_stats f2)\<lparr>ts_retries := ts_retries (f_stats f2) + 1\<rparr>\<rparr>
                      in if f_no_progress f3 \<ge> max_attempts (cc_retry cfg)
                         then Return (give_up persist E count f3)
                         else Continue f3
                    else Continue (f2\<lparr>f_no_progress := 0\<rparr>)))"

text \<open>The loop with a bound on its turns, and the commit and save that follow it.\<close>

fun fill_loop ::
  "nat \<Rightarrow> bool \<Rightarrow> client_env \<Rightarrow> client_config \<Rightarrow> manifest \<Rightarrow> transfer_chunks \<Rightarrow> fill
   \<Rightarrow> (unit res \<times> fill) option" where
  "fill_loop 0 persist E cfg m c f = None"
| "fill_loop (Suc fuel) persist E cfg m c f =
     (case fill_turn persist E cfg m c f of
        Continue f' \<Rightarrow> fill_loop fuel persist E cfg m c f'
      | Return r \<Rightarrow> Some r
      | Break f' \<Rightarrow> Some (then_io (on_world (commit E) f') (\<lambda>_ f1.
                       then_io (save_if persist E f1) (\<lambda>_ f2. (Inr (), f2)))))"

definition bytes_present :: "transfer_chunks \<Rightarrow> resume_state \<Rightarrow> u64" where
  "bytes_present c s =
     sum_list (map (\<lambda>i. ucast (len_of c i))
       (filter (resume_is_set s) (map of_nat [0..<unat (tc_count c)])))"

definition fill_start :: "transfer_chunks \<Rightarrow> nat \<Rightarrow> resume_state \<Rightarrow> transfer_stats \<Rightarrow> world \<Rightarrow> fill" where
  "fill_start c now s stats w =
     \<lparr>f_world = w, f_state = s, f_stats = stats, f_bytes_received = bytes_present c s,
      f_no_progress = 0, f_marks_since_save = 0, f_last_save = now\<rparr>"

definition fill_holes ::
  "nat \<Rightarrow> bool \<Rightarrow> client_env \<Rightarrow> client_config \<Rightarrow> manifest \<Rightarrow> transfer_chunks \<Rightarrow> nat
   \<Rightarrow> resume_state \<Rightarrow> transfer_stats \<Rightarrow> world \<Rightarrow> (unit res \<times> fill) option" where
  "fill_holes fuel persist E cfg m c now s stats w =
     fill_loop fuel persist E cfg m c (fill_start c now s stats w)"

section \<open>A whole download\<close>

text \<open>
  The destination has a parent directory, so that creating it is one of the file operations.
  The files around one destination. \<open>dk_part\<close> is the partial file, if there is one, and
  \<open>dk_durable\<close> what of it a crash would leave.
\<close>

record disk =
  dk_part :: "bytes option"
  dk_durable :: bytes
  dk_sidecar :: "io_error + bytes"
  dk_dest :: "bytes option"
  dk_ops :: nat
  dk_progress :: "progress list"

datatype overwrite = Refuse | Replace

definition disk_op :: "client_env \<Rightarrow> (disk \<Rightarrow> disk) \<Rightarrow> disk \<Rightarrow> unit res \<times> disk" where
  "disk_op E g d =
     (case ce_faults E (dk_ops d) of
        None \<Rightarrow> (Inr (), (g d)\<lparr>dk_ops := Suc (dk_ops d)\<rparr>)
      | Some (e, _) \<Rightarrow> (Inl (Io e), d\<lparr>dk_ops := Suc (dk_ops d)\<rparr>))"

definition to_world :: "disk \<Rightarrow> world" where
  "to_world d = \<lparr>w_part = (case dk_part d of None \<Rightarrow> [] | Some f \<Rightarrow> f), w_durable = dk_durable d,
     w_sidecar = dk_sidecar d, w_ops = dk_ops d, w_progress = dk_progress d\<rparr>"

definition from_world :: "disk \<Rightarrow> world \<Rightarrow> disk" where
  "from_world d w = d\<lparr>dk_part := Some (w_part w), dk_durable := w_durable w,
     dk_sidecar := w_sidecar w, dk_ops := w_ops w, dk_progress := w_progress w\<rparr>"

definition disk_save :: "client_env \<Rightarrow> resume_state \<Rightarrow> disk \<Rightarrow> unit res \<times> disk" where
  "disk_save E s d = (case save_sidecar E s (to_world d) of
     (r, w) \<Rightarrow> (r, d\<lparr>dk_sidecar := w_sidecar w, dk_ops := w_ops w\<rparr>))"

text \<open>The resume probe: reuse a matching partial, else truncate, size and save a fresh one.\<close>

definition begin_afresh :: "client_env \<Rightarrow> manifest \<Rightarrow> transfer_chunks \<Rightarrow> disk \<Rightarrow> resume_state res \<times> disk" where
  "begin_afresh E m c d =
     then_io (disk_op E (\<lambda>d. d\<lparr>dk_part := Some [], dk_durable := []\<rparr>) d) (\<lambda>_ d1.
     then_io (disk_op E (\<lambda>d. d\<lparr>dk_part := Some (set_len (unat (m_total_len m)) []),
                              dk_durable := set_len (unat (m_total_len m)) []\<rparr>) d1) (\<lambda>_ d2.
     then_io (disk_save E (resume_fresh m (tc_count c)) d2) (\<lambda>_ d3.
       (Inr (resume_fresh m (tc_count c)),
        d3\<lparr>dk_progress := dk_progress d3 @ [Started (m_total_len m) (tc_count c)]\<rparr>))))"

definition resume_probe ::
  "client_env \<Rightarrow> manifest \<Rightarrow> transfer_chunks \<Rightarrow> disk \<Rightarrow> resume_state res \<times> disk" where
  "resume_probe E m c d =
     (let count = tc_count c; existing_len = map_option length (dk_part d) in
      case resume_load (ce_dec E) (dk_sidecar d) of
        None \<Rightarrow> begin_afresh E m c d
      | Some s \<Rightarrow>
          if resume_matches s m count \<and> existing_len = Some (unat (m_total_len m))
          then (Inr s, d\<lparr>dk_progress := dk_progress d @ [Resumed (resume_received s) count]\<rparr>)
          else begin_afresh E m c d)"

text \<open>The overwrite policy, checked before the transfer and again at its end.\<close>

definition check_dest :: "client_env \<Rightarrow> overwrite \<Rightarrow> disk \<Rightarrow> unit res \<times> disk" where
  "check_dest E ow d =
     (if ow = Refuse
      then then_io (disk_op E (\<lambda>d. d) d) (\<lambda>_ d1.
             if dk_dest d1 \<noteq> None then (Inl DestinationExists, d1) else (Inr (), d1))
      else (Inr (), d))"

definition place_download :: "client_env \<Rightarrow> overwrite \<Rightarrow> transfer_stats \<Rightarrow> disk \<Rightarrow> transfer_stats res \<times> disk" where
  "place_download E ow stats d =
     then_io (check_dest E ow d) (\<lambda>_ d0.
     then_io (disk_op E (\<lambda>d. d\<lparr>dk_dest := dk_part d, dk_part := None\<rparr>) d0) (\<lambda>_ d1.
       let d2 = snd (disk_op E (\<lambda>d. d\<lparr>dk_sidecar := Inl IoNotFound\<rparr>) d1) in
       (Inr stats, d2\<lparr>dk_progress := dk_progress d2 @ [Completed]\<rparr>)))"

text \<open>The destination may have appeared while the transfer ran (\<open>ce_dest_race\<close>).\<close>

definition finish_download :: "client_env \<Rightarrow> overwrite \<Rightarrow> transfer_stats \<Rightarrow> disk \<Rightarrow> transfer_stats res \<times> disk" where
  "finish_download E ow stats d =
     then_io (disk_op E (\<lambda>d. d\<lparr>dk_durable := (case dk_part d of None \<Rightarrow> [] | Some f \<Rightarrow> f)\<rparr>) d) (\<lambda>_ d1.
       place_download E ow stats
         (case ce_dest_race E of None \<Rightarrow> d1 | Some x \<Rightarrow> d1\<lparr>dk_dest := Some x\<rparr>))"

definition download_to_inner ::
  "nat \<Rightarrow> client_env \<Rightarrow> client_config \<Rightarrow> string \<Rightarrow> hash option \<Rightarrow> overwrite \<Rightarrow> nat \<Rightarrow> disk
   \<Rightarrow> (transfer_stats res \<times> disk) option" where
  "download_to_inner fuel E cfg bid expected_root ow now d =
     (case check_dest E ow d of
        (Inl e, d0) \<Rightarrow> Some (Inl e, d0)
      | (Inr _, d0) \<Rightarrow>
     (case start_download E cfg bid expected_root of
        Inl e \<Rightarrow> Some (Inl e, d0)
      | Inr (m, c) \<Rightarrow>
          (case then_io (disk_op E (\<lambda>d. d) d0) (\<lambda>_. resume_probe E m c) of
             (Inl e, d1) \<Rightarrow> Some (Inl e, d1)
           | (Inr s, d1) \<Rightarrow>
               (case disk_op E (\<lambda>d. d) d1 of
                  (Inl e, d2) \<Rightarrow> Some (Inl e, d2)
                | (Inr _, d2) \<Rightarrow>
                    map_option
                      (\<lambda>(r, f). case r of
                         Inl e \<Rightarrow> (Inl e, from_world d2 (f_world f))
                       | Inr _ \<Rightarrow> finish_download E ow (f_stats f) (from_world d2 (f_world f)))
                      (fill_holes fuel True E cfg m c now s
                         (stats_default\<lparr>ts_chunks_resumed := resume_received s\<rparr>) (to_world d2))))))"

end
