(* ===== verification/Download_Props.thy ===== *)
theory Download_Props
  imports Download
begin

text \<open>
  Correctness of the download loop. A bit is set only over bytes that are the blob's, and the
  sidecar on disk never claims a chunk that is not durable; these hold in every state the loop
  reaches, faults and cancellation included. A successful return leaves exactly the blob, and
  the loop always returns.
\<close>

section \<open>Bits are backed by bytes\<close>

definition chunk_holds :: "transfer_chunks \<Rightarrow> bytes \<Rightarrow> bytes \<Rightarrow> u32 \<Rightarrow> bool" where
  "chunk_holds c content f i \<longleftrightarrow>
     (\<forall>k. unat (fst (byte_range c i)) \<le> k \<longrightarrow> k < unat (snd (byte_range c i)) \<longrightarrow> holds content f k)
     \<and> (snd (byte_range c i) = tc_total_len c \<longrightarrow> unat (tc_total_len c) = length content)"

definition backed :: "transfer_chunks \<Rightarrow> bytes \<Rightarrow> resume_state \<Rightarrow> bytes \<Rightarrow> bool" where
  "backed c content s f \<longleftrightarrow> (\<forall>i < tc_count c. resume_is_set s i \<longrightarrow> chunk_holds c content f i)"

definition sidecar_backed ::
  "client_env \<Rightarrow> manifest \<Rightarrow> transfer_chunks \<Rightarrow> bytes \<Rightarrow> io_error + bytes \<Rightarrow> bytes \<Rightarrow> bool" where
  "sidecar_backed E m c content side f \<longleftrightarrow>
     (\<forall>s. resume_load (ce_dec E) side = Some s \<longrightarrow> resume_for s m c \<longrightarrow> backed c content s f)"

definition world_inv :: "client_env \<Rightarrow> manifest \<Rightarrow> transfer_chunks \<Rightarrow> bytes \<Rightarrow> world \<Rightarrow> bool" where
  "world_inv E m c content w \<longleftrightarrow>
     length (w_part w) = unat (tc_total_len c) \<and> length (w_durable w) = unat (tc_total_len c)
     \<and> sidecar_backed E m c content (w_sidecar w) (w_part w)
     \<and> sidecar_backed E m c content (w_sidecar w) (w_durable w)"

definition fill_inv :: "client_env \<Rightarrow> manifest \<Rightarrow> transfer_chunks \<Rightarrow> bytes \<Rightarrow> fill \<Rightarrow> bool" where
  "fill_inv E m c content f \<longleftrightarrow> resume_for (f_state f) m c
     \<and> backed c content (f_state f) (w_part (f_world f)) \<and> world_inv E m c content (f_world f)"

text \<open>What the proofs need of the crates that are called.\<close>

definition codec_ok :: "client_env \<Rightarrow> bool" where
  "codec_ok E \<longleftrightarrow> (\<forall>s body. ce_enc E s = Inr body \<longrightarrow> ce_dec E body = Inr s)"

definition pinned :: "client_env \<Rightarrow> manifest \<Rightarrow> transfer_chunks \<Rightarrow> bytes \<Rightarrow> bool" where
  "pinned E m c content \<longleftrightarrow> codec_ok E \<and> bao_pins (ce_bao E) (m_root m) content
     \<and> manifest_chunks m = Inr c"

lemma pinned_wf: "pinned E m c content \<Longrightarrow> tc_wf c \<and> tc_total_len c = m_total_len m"
  by (simp add: pinned_def manifest_chunks_Inr)

definition keeps_bytes :: "bytes \<Rightarrow> bytes \<Rightarrow> bytes \<Rightarrow> bool" where
  "keeps_bytes content f g \<longleftrightarrow> length g = length f \<and> (\<forall>k. holds content f k \<longrightarrow> holds content g k)"

lemma keeps_bytes_refl [simp]: "keeps_bytes content f f"
  by (simp add: keeps_bytes_def)

lemma keeps_bytes_trans: "keeps_bytes content f g \<Longrightarrow> keeps_bytes content g h \<Longrightarrow> keeps_bytes content f h"
  by (simp add: keeps_bytes_def)

lemma backed_keeps: "keeps_bytes content f g \<Longrightarrow> backed c content s f \<Longrightarrow> backed c content s g"
  unfolding backed_def chunk_holds_def keeps_bytes_def by blast

lemma sidecar_backed_keeps:
  "keeps_bytes content f g \<Longrightarrow> sidecar_backed E m c content side f \<Longrightarrow> sidecar_backed E m c content side g"
  unfolding sidecar_backed_def using backed_keeps by blast

lemma write_at_keeps:
  "genuine content off d \<Longrightarrow> unat off + length d \<le> length f \<Longrightarrow>
   keeps_bytes content f (write_at (unat off) d f)"
  by (cases "d = []")
     (auto simp: keeps_bytes_def length_write_at holds_write_at_mono, simp add: write_at_def)

text \<open>A whole slice of genuine leaves, as far as it was written.\<close>

definition leaves_ok :: "bytes \<Rightarrow> nat \<Rightarrow> (u64 \<times> bytes) list \<Rightarrow> bool" where
  "leaves_ok content n ls \<longleftrightarrow>
     (\<forall>(off, d) \<in> set ls. genuine content off d \<and> unat off + length d \<le> n)"

lemma write_leaf_effect:
  assumes "genuine content off d" "unat off + length d \<le> length (w_part w)"
    and "write_leaf E off d w = (r, w')"
  shows "w_durable w' = w_durable w \<and> w_sidecar w' = w_sidecar w
     \<and> keeps_bytes content (w_part w) (w_part w')
     \<and> (r = Inr () \<longrightarrow> (\<forall>k. covers (off, d) k \<longrightarrow> holds content (w_part w') k))"
proof (cases "ce_faults E (w_ops w)")
  case None
  with assms show ?thesis
    by (auto simp: write_leaf_def next_op_def intro: write_at_keeps holds_write_at_new)
next
  case (Some fault)
  obtain e n where "fault = (e, n)" by (cases fault)
  with Some assms(3) have w': "w' = next_op (w\<lparr>w_part := write_at (unat off) (take n d) (w_part w)\<rparr>)"
      and r: "r = Inl (Io e)"
    by (simp_all add: write_leaf_def)
  have "keeps_bytes content (w_part w) (write_at (unat off) (take n d) (w_part w))"
    using assms(2) by (intro write_at_keeps genuine_take [OF assms(1)]) simp
  then show ?thesis by (simp add: w' r next_op_def)
qed

lemma write_leaves_effect:
  assumes "leaves_ok content (length (w_part w)) ls" and "write_leaves E ls w = (r, w')"
  shows "w_durable w' = w_durable w \<and> w_sidecar w' = w_sidecar w
     \<and> keeps_bytes content (w_part w) (w_part w')
     \<and> (r = Inr () \<longrightarrow> (\<forall>leaf \<in> set ls. \<forall>k. covers leaf k \<longrightarrow> holds content (w_part w') k))"
  using assms
proof (induction ls arbitrary: w)
  case Nil
  then show ?case by simp
next
  case (Cons l ls)
  obtain off d where l: "l = (off, d)" by (cases l)
  obtain r1 w1 where wl: "write_leaf E off d w = (r1, w1)" by (meson surj_pair)
  have g: "genuine content off d" "unat off + length d \<le> length (w_part w)"
    using Cons.prems(1) by (auto simp: leaves_ok_def l)
  note e1 = write_leaf_effect [OF g wl]
  show ?case
  proof (cases r1)
    case (Inl e)
    with Cons.prems(2) e1 show ?thesis by (auto simp: l wl)
  next
    case (Inr u)
    then have rest: "write_leaves E ls w1 = (r, w')" using Cons.prems(2) by (simp add: l wl)
    have "length (w_part w1) = length (w_part w)" using e1 by (simp add: keeps_bytes_def)
    then have "leaves_ok content (length (w_part w1)) ls"
      using Cons.prems(1) by (simp add: leaves_ok_def)
    note IH = Cons.IH [OF this rest]
    have "holds content (w_part w') k" if "covers (off, d) k" "r = Inr ()" for k
      using e1 IH that Inr by (simp add: keeps_bytes_def)
    with e1 IH show ?thesis by (auto simp: l intro: keeps_bytes_trans)
  qed
qed

section \<open>The invariant through every step\<close>

lemma on_world_fst: "fst (on_world g f) = fst (g (f_world f))"
  by (simp add: on_world_def split: prod.splits)

lemma on_world_snd: "snd (on_world g f) = f\<lparr>f_world := snd (g (f_world f))\<rparr>"
  by (simp add: on_world_def split: prod.splits)

lemma commit_fields:
  "w_part (snd (commit E w)) = w_part w" "w_sidecar (snd (commit E w)) = w_sidecar w"
  "w_durable (snd (commit E w)) = (if is_ok (fst (commit E w)) then w_part w else w_durable w)"
  by (auto simp: commit_def next_op_def split: option.splits)

lemma commit_world_inv: "world_inv E m c content w \<Longrightarrow> world_inv E m c content (snd (commit E w))"
  by (simp add: world_inv_def commit_fields)

lemma commit_fill_inv:
  "fill_inv E m c content f \<Longrightarrow> fill_inv E m c content (snd (on_world (commit E) f))"
  by (simp add: fill_inv_def on_world_snd commit_fields commit_world_inv)

lemma save_sidecar_fields:
  "w_part (snd (save_sidecar E s w)) = w_part w" "w_durable (snd (save_sidecar E s w)) = w_durable w"
  by (simp_all add: save_sidecar_def next_op_def split: prod.splits)

lemma save_sidecar_load:
  assumes "codec_ok E" and "resume_load (ce_dec E) (w_sidecar (snd (save_sidecar E s w))) = Some s'"
  shows "s' = s \<or> resume_load (ce_dec E) (w_sidecar w) = Some s'"
proof -
  obtain r fl where rf: "resume_save (ce_enc E)
      (\<lambda>_. case ce_faults E (w_ops w) of None \<Rightarrow> Inr () | Some (e, _) \<Rightarrow> Inl e) s (w_sidecar w) = (r, fl)"
    by (meson surj_pair)
  then have w': "w_sidecar (snd (save_sidecar E s w)) = fl"
    by (simp add: save_sidecar_def next_op_def)
  show ?thesis
  proof (cases r)
    case (Inl e)
    with rf have "fl = w_sidecar w" by (auto dest: resume_save_error)
    with assms(2) w' show ?thesis by simp
  next
    case (Inr u)
    with rf have "resume_load (ce_dec E) fl = Some s"
      using assms(1) by (intro sidecar_roundtrip [of "ce_enc E"]) (auto simp: codec_ok_def)
    with assms(2) w' show ?thesis by simp
  qed
qed

lemma save_sidecar_inv:
  assumes "codec_ok E" "world_inv E m c content w"
    and "backed c content s (w_part w)" "backed c content s (w_durable w)"
  shows "world_inv E m c content (snd (save_sidecar E s w))"
  using assms save_sidecar_load [OF assms(1)]
  unfolding world_inv_def sidecar_backed_def save_sidecar_fields by blast

text \<open>Commit, then save: the order that keeps the bits behind the data.\<close>

lemma commit_save_inv:
  assumes "codec_ok E" "fill_inv E m c content f"
  shows "fill_inv E m c content (snd (then_io (on_world (commit E) f) (\<lambda>_. save_if persist E)))"
proof (cases "on_world (commit E) f")
  case (Pair r f1)
  have inv1: "fill_inv E m c content f1" using commit_fill_inv [OF assms(2)] Pair by simp
  show ?thesis
  proof (cases r)
    case (Inl e)
    with Pair inv1 show ?thesis by simp
  next
    case (Inr u)
    have "w_durable (f_world f1) = w_part (f_world f1)"
      using Pair Inr commit_fields[of E "f_world f"] on_world_fst[of "commit E" f] on_world_snd[of "commit E" f]
      by (auto simp: is_ok_iff split: if_splits)
    then have "world_inv E m c content (snd (save_sidecar E (f_state f1) (f_world f1)))"
      using inv1 assms(1) by (intro save_sidecar_inv) (simp_all add: fill_inv_def)
    then show ?thesis
      using inv1 Pair Inr
      by (simp add: save_if_def on_world_snd fill_inv_def save_sidecar_fields)
  qed
qed

lemma commit_save_state:
  "f_state (snd (then_io (on_world (commit E) f) (\<lambda>_. save_if persist E))) = f_state f"
  by (cases "on_world (commit E) f"; cases "fst (on_world (commit E) f)")
     (auto simp: save_if_def on_world_def split: prod.splits)

text \<open>Fields the invariant does not look at.\<close>

lemma fill_inv_emit [simp]:
  "fill_inv E m c content (f\<lparr>f_world := emit p (f_world f)\<rparr>) = fill_inv E m c content f"
  by (simp add: fill_inv_def world_inv_def emit_def)

lemma fill_inv_upd [simp]:
  "fill_inv E m c content (f\<lparr>f_stats := st\<rparr>) = fill_inv E m c content f"
  "fill_inv E m c content (f\<lparr>f_no_progress := n\<rparr>) = fill_inv E m c content f"
  "fill_inv E m c content (f\<lparr>f_marks_since_save := n\<rparr>) = fill_inv E m c content f"
  "fill_inv E m c content (f\<lparr>f_last_save := t\<rparr>) = fill_inv E m c content f"
  "fill_inv E m c content (f\<lparr>f_bytes_received := b\<rparr>) = fill_inv E m c content f"
  by (simp_all add: fill_inv_def)

lemma persist_cancel_inv:
  "codec_ok E \<Longrightarrow> fill_inv E m c content f \<Longrightarrow> fill_inv E m c content (snd (persist_cancel persist E n f))"
  unfolding persist_cancel_def then_io_assoc [symmetric]
  by (rule then_io_inv [where P = "fill_inv E m c content"])
     (auto intro: commit_save_inv simp: Let_def)

lemma give_up_inv:
  assumes "codec_ok E" "fill_inv E m c content f"
  shows "fill_inv E m c content (snd (give_up persist E n f)) \<and> \<not> is_ok (fst (give_up persist E n f))"
proof
  show "fill_inv E m c content (snd (give_up persist E n f))"
    unfolding give_up_def then_io_assoc [symmetric] using commit_save_inv [OF assms]
    by (rule then_io_inv) simp
  show "\<not> is_ok (fst (give_up persist E n f))"
    by (auto simp: give_up_def then_io_def split: prod.splits sum.splits)
qed

lemma backed_mark:
  assumes "resume_for s m c" "backed c content s f" "chunk_holds c content f i"
  shows "backed c content (snd (resume_mark s i)) f"
  unfolding backed_def
proof (intro allI impI)
  fix k assume k: "k < tc_count c" "resume_is_set (snd (resume_mark s i)) k"
  then have "resume_is_set s k \<or> k = i"
    using resume.mark_only [OF resume_for_sized [OF assms(1)]] by blast
  with k(1) assms show "chunk_holds c content f k" by (auto simp: backed_def)
qed

lemma save_batch_inv:
  assumes "codec_ok E" "fill_inv E m c content f"
  shows "fill_inv E m c content (snd (save_batch persist E now f))"
proof -
  have "fill_inv E m c content (snd (then_io (then_io (on_world (commit E) f) (\<lambda>_. save_if persist E))
      (\<lambda>_ f2. (Inr (), f2\<lparr>f_marks_since_save := 0, f_last_save := now\<rparr>))))"
    using commit_save_inv [OF assms] by (rule then_io_inv) simp
  then show ?thesis using assms(2) unfolding save_batch_def then_io_assoc by (simp only: snd_conv split: if_splits) blast
qed

lemma mark_chunk_inv:
  assumes "codec_ok E" "fill_inv E m c content f"
    and "chunk_holds c content (w_part (f_world f)) i"
  shows "fill_inv E m c content (snd (mark_chunk persist E c now i f))"
proof (cases "resume_mark (f_state f) i")
  case (Pair new s)
  show ?thesis
  proof (cases new)
    case False
    with Pair assms(2) show ?thesis by (simp add: mark_chunk_def)
  next
    case True
    have s: "s = snd (resume_mark (f_state f) i)" using Pair by simp
    have "resume_for s m c" "backed c content s (w_part (f_world f))"
      using assms backed_mark by (auto simp: s fill_inv_def)
    then have "fill_inv E m c content (f\<lparr>f_state := s, f_bytes_received := br, f_stats := st,
        f_marks_since_save := n, f_world := emit p (f_world f)\<rparr>)" for br st n p
      using assms(2) by (simp add: fill_inv_def world_inv_def emit_def)
    then show ?thesis
      using Pair True by (simp add: mark_chunk_def Let_def save_batch_inv [OF assms(1)])
  qed
qed

text \<open>A slice that verified puts its whole chunk on disk.\<close>

lemma decoded_leaves_ok:
  assumes "pinned E m c content"
    and "decode_slice (ce_bao E) (m_root m) (m_total_len m) r enc push_leaf [] = (Inr (), ls)"
  shows "leaves_ok content (unat (tc_total_len c)) ls"
  using assms decode_slice_genuine [OF _ assms(2)] pinned_wf [OF assms(1)]
  by (auto simp: leaves_ok_def pinned_def)

lemma decoded_chunk_holds:
  assumes pin: "pinned E m c content" and i: "i < tc_count c"
    and dec: "decode_slice (ce_bao E) (m_root m) (m_total_len m)
      (chunk_range (ce_bao E) (byte_range c i)) enc push_leaf [] = (Inr (), ls)"
    and put: "\<forall>leaf \<in> set ls. \<forall>k. covers leaf k \<longrightarrow> holds content f k"
  shows "chunk_holds c content f i"
proof -
  have wf: "tc_wf c" and tot: "tc_total_len c = m_total_len m" using pinned_wf [OF pin] by auto
  have pins: "bao_pins (ce_bao E) (m_root m) content" using pin by (simp add: pinned_def)
  note br = byte_range_nat [OF wf, of i]
  obtain a b where ab: "byte_range c i = (a, b)" by (cases "byte_range c i")
  have "holds content f k" if "unat a \<le> k" "k < unat b" for k
  proof -
    have "k < unat (m_total_len m)" using that(2) br(2) tot by (simp add: ab)
    then show ?thesis using decode_slice_covers [OF pins dec [unfolded ab] that] put by blast
  qed
  moreover have "unat (tc_total_len c) = length content" if "b = tc_total_len c"
  proof -
    have "unat i * unat (tc_chunk_size c) < unat (tc_total_len c)" using i wf by (simp add: less_tc_count_iff)
    then have "a < m_total_len m" using br(1) by (simp add: ab word_less_nat_alt tot)
    then show ?thesis using decode_slice_size [OF pins] dec that by (simp add: ab tot)
  qed
  ultimately show ?thesis by (simp add: chunk_holds_def ab)
qed

lemma write_leaves_inv:
  assumes "fill_inv E m c content f" "leaves_ok content (unat (tc_total_len c)) ls"
  shows "fill_inv E m c content (snd (on_world (write_leaves E ls) f))"
proof -
  obtain r w' where w': "write_leaves E ls (f_world f) = (r, w')" by (meson surj_pair)
  have "leaves_ok content (length (w_part (f_world f))) ls"
    using assms by (simp add: fill_inv_def world_inv_def)
  from write_leaves_effect [OF this w'] have e: "w_durable w' = w_durable (f_world f)"
      "w_sidecar w' = w_sidecar (f_world f)" and k: "keeps_bytes content (w_part (f_world f)) (w_part w')"
    by auto
  moreover have "length (w_part w') = length (w_part (f_world f))" using k by (simp add: keeps_bytes_def)
  ultimately show ?thesis
    using assms(1) backed_keeps [OF k] sidecar_backed_keeps [OF k]
    by (simp add: on_world_snd w' fill_inv_def world_inv_def)
qed

lemma on_reply_inv:
  assumes pin: "pinned E m c content" and inv: "fill_inv E m c content f"
  shows "fill_inv E m c content (snd (on_reply persist E m c now reply f))"
proof (cases reply)
  case (Inl u)
  with inv show ?thesis by (simp add: on_reply_def)
next
  case (Inr sm)
  have codec: "codec_ok E" using pin by (simp add: pinned_def)
  show ?thesis
  proof (cases "sm_encoding sm = ENC_SLICE \<and> (\<exists>i. parse_slice_index (sm_key sm) = Some i
      \<and> i < tc_count c \<and> \<not> resume_is_set (f_state f) i)")
    case False
    with inv Inr show ?thesis by (auto simp: on_reply_def not_less split: option.splits)
  next
    case True
    then obtain i where i: "parse_slice_index (sm_key sm) = Some i" "i < tc_count c"
        "\<not> resume_is_set (f_state f) i" and enc: "sm_encoding sm = ENC_SLICE" by blast
    obtain r ls where dec: "decode_slice (ce_bao E) (m_root m) (m_total_len m)
        (chunk_range (ce_bao E) (byte_range c i)) (sm_payload sm) push_leaf [] = (r, ls)"
      by (meson surj_pair)
    show ?thesis
    proof (cases r)
      case Inl': (Inl e)
      with inv Inr i enc dec show ?thesis by (simp add: on_reply_def not_le [symmetric])
    next
      case Inr': (Inr u)
      have ok: "leaves_ok content (unat (tc_total_len c)) ls"
        using decoded_leaves_ok [OF pin] dec Inr' by simp
      obtain r1 f1 where f1: "on_world (write_leaves E ls) f = (r1, f1)" by (meson surj_pair)
      have inv1: "fill_inv E m c content f1" using write_leaves_inv [OF inv ok, of ] f1 by (metis snd_conv)
      have "\<not> tc_count c \<le> i" using i(2) by (simp add: not_le)
      then have e: "on_reply persist E m c now reply f =
          then_io (r1, f1) (\<lambda>_ f1. mark_chunk persist E c now i f1)"
        using Inr i enc dec Inr' f1 by (simp add: on_reply_def)
      show ?thesis
      proof (cases r1)
        case (Inl x)
        with e inv1 show ?thesis by simp
      next
        case (Inr x)
        obtain w' where w': "write_leaves E ls (f_world f) = (Inr (), w')" "f_world f1 = w'"
          using f1 Inr by (auto simp: on_world_def split: prod.splits)
        have "leaves_ok content (length (w_part (f_world f))) ls"
          using inv ok by (simp add: fill_inv_def world_inv_def)
        from write_leaves_effect [OF this w'(1)] w'(2)
        have "\<forall>leaf \<in> set ls. \<forall>k. covers leaf k \<longrightarrow> holds content (w_part (f_world f1)) k" by simp
        then have "chunk_holds c content (w_part (f_world f1)) i"
          using decoded_chunk_holds [OF pin i(2)] dec Inr' by simp
        with e Inr inv1 codec show ?thesis by (simp add: mark_chunk_inv)
      qed
    qed
  qed
qed

lemma recv_loop_inv:
  assumes "pinned E m c content" "fill_inv E m c content f"
  shows "fill_inv E m c content (snd (recv_loop persist E m c rs f))"
  using assms(2)
proof (induction rs arbitrary: f)
  case Nil
  then show ?case by simp
next
  case (Cons r rs)
  show ?case
  proof (cases r)
    case (Recv reply now)
    then show ?thesis
      using Cons on_reply_inv [OF assms(1)]
      by (auto intro!: then_io_inv [where P = "fill_inv E m c content"])
  next
    case RecvCancelled
    then show ?thesis
      using Cons.prems assms(1) by (simp add: persist_cancel_inv pinned_def)
  qed
qed

lemma fill_turn_inv:
  assumes pin: "pinned E m c content" and inv: "fill_inv E m c content f"
  shows "case fill_turn persist E cfg m c f of
           Continue f' \<Rightarrow> fill_inv E m c content f'
         | Break f' \<Rightarrow> fill_inv E m c content f' \<and> resume_is_complete (f_state f') (tc_count c)
         | Return r \<Rightarrow> fill_inv E m c content (snd r) \<and> \<not> is_ok (fst r)"
proof -
  have codec: "codec_ok E" using pin by (simp add: pinned_def)
  have pc: "\<not> is_ok (fst (persist_cancel persist E n g))" for n g
    by (auto simp: persist_cancel_def then_io_def Let_def split: prod.splits sum.splits)
  let ?f1 = "f\<lparr>f_stats := (f_stats f)\<lparr>ts_queries := ts_queries (f_stats f) + 1\<rparr>\<rparr>"
  have fail: "fill_inv E m c content (snd (give_up persist E n g)) \<and> \<not> is_ok (fst (give_up persist E n g))"
    if "fill_inv E m c content g" for n g
    using give_up_inv [OF codec that] by blast
  show ?thesis
  proof (cases "ce_answer E (ts_queries (f_stats f))
      (slice_selector (cc_prefix cfg) (m_id m) (query_holes cfg m (tc_count c) (f_state f)))")
    case QueryFailed
    with inv codec pc show ?thesis by (simp add: fill_turn_def Let_def persist_cancel_inv)
  next
    case (Replies rs)
    obtain r f2 where f2: "recv_loop persist E m c rs ?f1 = (r, f2)" by (meson surj_pair)
    have inv2: "fill_inv E m c content f2"
      using recv_loop_inv [OF pin, of ?f1 persist rs] inv f2 by simp
    let ?f3 = "f2\<lparr>f_no_progress := f_no_progress f2 + 1,
        f_stats := (f_stats f2)\<lparr>ts_retries := ts_retries (f_stats f2) + 1\<rparr>\<rparr>"
    have "fill_inv E m c content ?f3" using inv2 by simp
    note fail [OF this]
    with inv inv2 codec pc f2 Replies show ?thesis
      by (cases r) (simp_all add: fill_turn_def Let_def persist_cancel_inv)
  qed
qed

lemma fill_loop_inv:
  assumes pin: "pinned E m c content"
  shows "fill_inv E m c content f \<Longrightarrow> fill_loop fuel persist E cfg m c f = Some (r, f') \<Longrightarrow>
     fill_inv E m c content f' \<and> (is_ok r \<longrightarrow> resume_is_complete (f_state f') (tc_count c)
        \<and> w_durable (f_world f') = w_part (f_world f'))"
proof (induction fuel arbitrary: f)
  case 0
  then show ?case by simp
next
  case (Suc fuel)
  note t = fill_turn_inv [OF pin Suc.prems(1), of persist cfg]
  show ?case
  proof (cases "fill_turn persist E cfg m c f")
    case (Continue g)
    with t Suc show ?thesis by simp
  next
    case (Return x)
    with t Suc.prems(2) show ?thesis by simp
  next
    case (Break g)
    have codec: "codec_ok E" using pin by (simp add: pinned_def)
    have out: "then_io (then_io (on_world (commit E) g) (\<lambda>_. save_if persist E)) (\<lambda>_ f2. (Inr (), f2)) = (r, f')"
      using Break Suc.prems(2) by (simp add: then_io_assoc)
    have g: "fill_inv E m c content g" "resume_is_complete (f_state g) (tc_count c)"
      using t Break by auto
    have f': "f' = snd (then_io (on_world (commit E) g) (\<lambda>_. save_if persist E))"
      using out by (auto simp: then_io_def split: prod.splits sum.splits)
    have "w_durable (f_world f') = w_part (f_world f')" if "is_ok r"
      using out that commit_fields[of E "f_world g"]
      by (auto simp: is_ok_iff then_io_Inr on_world_def save_if_def split: prod.splits if_splits)
         (metis fst_conv is_ok_simps(1) save_sidecar_fields snd_conv)+
    then show ?thesis
      using commit_save_inv [OF codec g(1), of persist] g(2)
      by (simp add: f' commit_save_state)
  qed
qed

section \<open>A complete field is the blob\<close>

text \<open>The chunks tile the blob, so a file in which all of them hold is the blob.\<close>

lemma chunks_hold_eq:
  assumes wf: "tc_wf c" and all: "\<And>i. i < tc_count c \<Longrightarrow> chunk_holds c content f i"
    and len: "length f = unat (tc_total_len c)" and ne: "tc_total_len c = 0 \<Longrightarrow> content = []"
  shows "f = content"
proof (cases "tc_total_len c = 0")
  case True
  then show ?thesis using ne len by simp
next
  case False
  have cs: "0 < unat (tc_chunk_size c)" using wf by (simp add: tc_wf_def)
  let ?idx = "\<lambda>k. of_nat (k div unat (tc_chunk_size c)) :: u32"
  have idx: "?idx (unat x) < tc_count c" "unat (?idx (unat x)) = unat x div unat (tc_chunk_size c)"
    if "x < tc_total_len c" for x
  proof -
    have lt: "unat x div unat (tc_chunk_size c) < unat (tc_count c)"
      by (rule chunk_of_byte_less [OF wf that])
    then have "unat x div unat (tc_chunk_size c) < 2 ^ 32" using unat_lt32[of "tc_count c"] by linarith
    then show "unat (?idx (unat x)) = unat x div unat (tc_chunk_size c)" by (simp add: unat_of_nat)
    with lt show "?idx (unat x) < tc_count c" by (simp add: word_less_nat_alt)
  qed
  have at: "holds content f (unat x)" if "x < tc_total_len c" for x
    using all [OF idx(1) [OF that]] byte_in_chunk_iff [OF wf that, of "?idx (unat x)"] idx(2) [OF that]
    by (simp add: chunk_holds_def word_le_nat_alt word_less_nat_alt)
  let ?last = "tc_total_len c - 1"
  have last: "?last < tc_total_len c" "unat ?last + 1 = unat (tc_total_len c)"
    using False by (simp_all add: word_less_nat_alt unat_minus_one unat_gt_0)
  then have "unat (tc_total_len c) \<le> Suc (unat (?idx (unat ?last))) * unat (tc_chunk_size c)"
    using idx(2) [OF last(1)] dividend_less_div_times [OF cs, of "unat ?last"] by simp
  then have "snd (byte_range c (?idx (unat ?last))) = tc_total_len c"
    by (simp add: word_unat_eq_iff byte_range_nat [OF wf])
  then have "unat (tc_total_len c) = length content"
    using all [OF idx(1) [OF last(1)]] by (simp add: chunk_holds_def)
  with len have "length f = length content" by simp
  moreover have "holds content f k" if "k < length content" for k
  proof -
    have "k < 2 ^ 64" using that \<open>unat (tc_total_len c) = length content\<close> unat_lt[of "tc_total_len c"]
      by simp
    then have "unat (of_nat k :: u64) = k" by (simp add: unat_of_nat)
    then show ?thesis
      using at [of "of_nat k"] that \<open>unat (tc_total_len c) = length content\<close>
      by (simp add: word_less_nat_alt)
  qed
  ultimately show ?thesis by (rule holds_all_eq)
qed

lemma complete_backed:
  assumes "pinned E m c content" "resume_for s m c" "resume_is_complete s (tc_count c)"
    and "backed c content s f" "length f = unat (tc_total_len c)" "tc_total_len c = 0 \<Longrightarrow> content = []"
  shows "f = content"
  using assms resume_complete_iff [OF assms(2)]
  by (intro chunks_hold_eq [of c content f]) (auto simp: backed_def pinned_wf)

lemma fill_start_inv:
  assumes "resume_for s m c" "backed c content s (w_part w)" "world_inv E m c content w"
  shows "fill_inv E m c content (fill_start c now s stats w)"
  using assms by (simp add: fill_inv_def fill_start_def)

lemma fill_holes_correct:
  assumes pin: "pinned E m c content" and ne: "m_total_len m = 0 \<Longrightarrow> content = []"
    and start: "resume_for s m c" "backed c content s (w_part w)" "world_inv E m c content w"
    and run: "fill_holes fuel persist E cfg m c now s stats w = Some (r, f)"
  shows "fill_inv E m c content f"
    and "is_ok r \<Longrightarrow> w_part (f_world f) = content \<and> w_durable (f_world f) = content"
proof -
  note out = fill_loop_inv [OF pin fill_start_inv [OF start] run [unfolded fill_holes_def]]
  then show inv: "fill_inv E m c content f" by blast
  assume "is_ok r"
  with out have "resume_is_complete (f_state f) (tc_count c)" "w_durable (f_world f) = w_part (f_world f)"
    by auto
  moreover have "w_part (f_world f) = content"
    using inv calculation(1) ne pinned_wf [OF pin]
    by (intro complete_backed [OF pin]) (auto simp: fill_inv_def world_inv_def)
  ultimately show "w_part (f_world f) = content \<and> w_durable (f_world f) = content" by simp
qed

section \<open>The loop returns\<close>

definition advances :: "manifest \<Rightarrow> transfer_chunks \<Rightarrow> resume_state \<Rightarrow> resume_state \<Rightarrow> bool" where
  "advances m c s s' \<longleftrightarrow> resume_for s' m c \<and> resume_received s \<le> resume_received s'
     \<and> (\<forall>i. resume_is_set s i \<longrightarrow> resume_is_set s' i)"

lemma advances_refl: "resume_for s m c \<Longrightarrow> advances m c s s"
  by (simp add: advances_def)

lemma advances_trans: "advances m c s s1 \<Longrightarrow> advances m c s1 s2 \<Longrightarrow> advances m c s s2"
  by (auto simp: advances_def)

lemma advances_for: "advances m c s s' \<Longrightarrow> resume_for s' m c"
  by (simp add: advances_def)

lemma mark_advances: "resume_for s m c \<Longrightarrow> advances m c s (snd (resume_mark s i))"
  using resume.mark_count[of s i] resume.mark_mono[of s _ i]
  by (auto simp: advances_def word_le_nat_alt dest: resume_for_sized)

lemma on_world_state [simp]: "f_state (snd (on_world g f)) = f_state f"
  by (simp add: on_world_snd)

lemma save_if_state [simp]: "f_state (snd (save_if p E f)) = f_state f"
  by (simp add: save_if_def)

lemma commit_save_then_state:
  "(\<And>f'. f_state (snd (k f')) = f_state f') \<Longrightarrow>
   f_state (snd (then_io (on_world (commit E) f) (\<lambda>_ f1. then_io (save_if p E f1) (\<lambda>_. k)))) = f_state f"
  unfolding then_io_assoc [symmetric] using commit_save_state[of E f p]
  by (intro then_io_inv [where P = "\<lambda>g. f_state g = f_state f"]) auto

lemma persist_cancel_state [simp]: "f_state (snd (persist_cancel p E n f)) = f_state f"
  unfolding persist_cancel_def by (rule commit_save_then_state) (simp add: Let_def)

lemma save_batch_state [simp]: "f_state (snd (save_batch p E now f)) = f_state f"
  unfolding save_batch_def using commit_save_then_state
    [of "\<lambda>f2. (Inr (), f2\<lparr>f_marks_since_save := 0, f_last_save := now\<rparr>)" E f p] by (cases p) simp_all

lemma mark_chunk_state:
  "f_state (snd (mark_chunk p E c now i f)) = snd (resume_mark (f_state f) i)"
  by (auto simp: mark_chunk_def Let_def resume_mark_def split: prod.splits bool.splits if_splits)

lemma on_reply_advances:
  "resume_for (f_state f) m c \<Longrightarrow> advances m c (f_state f) (f_state (snd (on_reply p E m c now reply f)))"
  by (auto simp: on_reply_def advances_refl then_io_def mark_chunk_state on_world_def mark_advances
      split: sum.splits option.splits prod.splits)

lemma recv_loop_advances:
  "resume_for (f_state f) m c \<Longrightarrow> advances m c (f_state f) (f_state (snd (recv_loop p E m c rs f)))"
proof (induction rs arbitrary: f)
  case Nil
  then show ?case by (simp add: advances_refl)
next
  case (Cons r rs)
  show ?case
  proof (cases r)
    case RecvCancelled
    then show ?thesis using Cons.prems by (simp add: advances_refl)
  next
    case (Recv reply now)
    have a: "advances m c (f_state f) (f_state (snd (on_reply p E m c now reply f)))"
      by (rule on_reply_advances [OF Cons.prems])
    show ?thesis unfolding Recv recv_loop.simps
      by (rule then_io_inv [where P = "\<lambda>g. advances m c (f_state f) (f_state g)", OF a])
         (rule advances_trans, assumption, rule Cons.IH, rule advances_for)
  qed
qed

text \<open>Every turn that goes round again either gains a chunk or spends an attempt.\<close>

definition attempts_ok :: "client_config \<Rightarrow> fill \<Rightarrow> bool" where
  "attempts_ok cfg f \<longleftrightarrow> f_no_progress f = 0 \<or> f_no_progress f < max_attempts (cc_retry cfg)"

definition fill_measure :: "client_config \<Rightarrow> transfer_chunks \<Rightarrow> fill \<Rightarrow> nat" where
  "fill_measure cfg c f =
     (unat (tc_count c) - unat (resume_received (f_state f))) * Suc (unat (max_attempts (cc_retry cfg)))
     + (unat (max_attempts (cc_retry cfg)) - unat (f_no_progress f))"

lemma received_le_count: "resume_for s m c \<Longrightarrow> unat (resume_received s) \<le> unat (tc_count c)"
  using resume.count_le_limit [OF resume_for_sized] resume_for_count
  by (metis word_le_nat_alt)

text \<open>Replies do not touch the attempt counter.\<close>

lemma commit_save_then_np:
  "(\<And>f'. f_no_progress (snd (k f')) = f_no_progress f') \<Longrightarrow> f_no_progress (snd
     (then_io (on_world (commit E) f) (\<lambda>_ f1. then_io (save_if p E f1) (\<lambda>_. k)))) = f_no_progress f"
  by (rule then_io_inv [where P = "\<lambda>g. f_no_progress g = f_no_progress f"], simp add: on_world_snd)
     (rule then_io_inv [where P = "\<lambda>g. f_no_progress g = f_no_progress f"],
       auto simp: save_if_def on_world_snd)

lemma save_batch_np: "f_no_progress (snd (save_batch p E now f)) = f_no_progress f"
  unfolding save_batch_def using commit_save_then_np
    [of "\<lambda>f2. (Inr (), f2\<lparr>f_marks_since_save := 0, f_last_save := now\<rparr>)" E f p] by (cases p) simp_all

lemma on_reply_np: "f_no_progress (snd (on_reply p E m c now reply f)) = f_no_progress f"
  by (auto simp: on_reply_def then_io_def mark_chunk_def Let_def save_batch_np on_world_def
      split: sum.splits option.splits prod.splits bool.splits)

lemma persist_cancel_np: "f_no_progress (snd (persist_cancel p E n f)) = f_no_progress f"
  unfolding persist_cancel_def by (rule commit_save_then_np) (simp add: Let_def)

lemma recv_loop_np: "f_no_progress (snd (recv_loop p E m c rs f)) = f_no_progress f"
proof (induction rs arbitrary: f)
  case (Cons r rs)
  show ?case
  proof (cases r)
    case (Recv reply now)
    show ?thesis unfolding Recv recv_loop.simps
      by (rule then_io_inv [where P = "\<lambda>g. f_no_progress g = f_no_progress f"])
         (simp_all add: on_reply_np Cons.IH)
  qed (simp add: persist_cancel_np)
qed simp

lemma fill_turn_decreases:
  assumes rf: "resume_for (f_state f) m c" and at: "attempts_ok cfg f"
    and turn: "fill_turn p E cfg m c f = Continue f'"
  shows "resume_for (f_state f') m c \<and> attempts_ok cfg f' \<and> fill_measure cfg c f' < fill_measure cfg c f"
proof -
  let ?f1 = "f\<lparr>f_stats := (f_stats f)\<lparr>ts_queries := ts_queries (f_stats f) + 1\<rparr>\<rparr>"
  let ?A = "max_attempts (cc_retry cfg)"
  from turn obtain rs f2 where loop: "recv_loop p E m c rs ?f1 = (Inr (), f2)"
    and f': "(resume_received (f_state f2) = resume_received (f_state f) \<and> \<not> ?A \<le> f_no_progress f2 + 1
        \<and> f_state f' = f_state f2 \<and> f_no_progress f' = f_no_progress f2 + 1)
      \<or> (resume_received (f_state f2) \<noteq> resume_received (f_state f)
        \<and> f_state f' = f_state f2 \<and> f_no_progress f' = 0)"
    by (auto simp: fill_turn_def Let_def split: if_splits query_outcome.splits prod.splits sum.splits)
  have adv: "advances m c (f_state f) (f_state f2)"
    using recv_loop_advances[of ?f1 m c p E rs] rf loop by simp
  have np: "f_no_progress f2 = f_no_progress f"
    using recv_loop_np[of p E m c rs ?f1] loop by simp
  have le: "unat (resume_received (f_state f)) \<le> unat (resume_received (f_state f2))"
    and top: "unat (resume_received (f_state f2)) \<le> unat (tc_count c)"
    using adv received_le_count by (auto simp: advances_def word_le_nat_alt)
  from f' show ?thesis
  proof (elim disjE conjE)
    assume same: "resume_received (f_state f2) = resume_received (f_state f)"
      and A: "\<not> ?A \<le> f_no_progress f2 + 1"
      and s: "f_state f' = f_state f2" "f_no_progress f' = f_no_progress f2 + 1"
    have lt: "unat (f_no_progress f2 + 1) < unat ?A" using A by (simp add: word_le_nat_alt)
    have "f_no_progress f < ?A" using at lt by (auto simp: attempts_ok_def word_less_nat_alt)
    then have "unat (f_no_progress f + 1) = Suc (unat (f_no_progress f))" by (rule unat_Suc_less)
    with lt np same s adv show ?thesis
      by (simp add: fill_measure_def attempts_ok_def word_less_nat_alt advances_def)
  next
    assume diff: "resume_received (f_state f2) \<noteq> resume_received (f_state f)"
      and s: "f_state f' = f_state f2" "f_no_progress f' = 0"
    then have "unat (resume_received (f_state f)) < unat (resume_received (f_state f2))"
      using le by (metis le_neq_implies_less word_unat_eq_iff)
    then have g: "unat (tc_count c) - unat (resume_received (f_state f))
        = Suc (unat (tc_count c) - unat (resume_received (f_state f2))
            + (unat (resume_received (f_state f2)) - Suc (unat (resume_received (f_state f)))))"
      using top by linarith
    show ?thesis
      using adv by (simp add: fill_measure_def attempts_ok_def s g advances_def add_mult_distrib)
  qed
qed

lemma fill_loop_returns:
  assumes "resume_for (f_state f) m c" "attempts_ok cfg f" "fill_measure cfg c f < fuel"
  shows "\<exists>r f'. fill_loop fuel p E cfg m c f = Some (r, f')"
  using assms
proof (induction fuel arbitrary: f)
  case (Suc fuel)
  show ?case
  proof (cases "fill_turn p E cfg m c f")
    case (Continue g)
    from fill_turn_decreases [OF Suc.prems(1,2) this] Suc show ?thesis by (simp add: Continue)
  qed (simp_all add: surj_pair prod_eq_iff)
qed simp

definition fill_fuel :: "client_config \<Rightarrow> transfer_chunks \<Rightarrow> nat" where
  "fill_fuel cfg c = Suc (unat (tc_count c)) * Suc (unat (max_attempts (cc_retry cfg)))"

lemma fill_holes_returns:
  assumes "resume_for s m c" "fill_fuel cfg c \<le> fuel"
  shows "\<exists>r f. fill_holes fuel persist E cfg m c now s stats w = Some (r, f)"
proof -
  let ?f = "fill_start c now s stats w" and ?A = "unat (max_attempts (cc_retry cfg))"
  have "fill_measure cfg c ?f \<le> unat (tc_count c) * Suc ?A + ?A"
    by (simp add: fill_measure_def fill_start_def del: mult_Suc_right)
  also have "\<dots> < fill_fuel cfg c" by (simp add: fill_fuel_def)
  finally have "fill_measure cfg c ?f < fuel" using assms(2) by simp
  moreover have "resume_for (f_state ?f) m c" "attempts_ok cfg ?f"
    using assms(1) by (simp_all add: fill_start_def attempts_ok_def)
  ultimately show ?thesis unfolding fill_holes_def by (intro fill_loop_returns)
qed

section \<open>What the loop asks for\<close>

lemma clamp_word:
  assumes "(a :: u32) < b"
  shows "unat (a + min (b - a) budget) = unat a + min (unat b - unat a) (unat budget)"
    and "unat (min (b - a) budget) = min (unat b - unat a) (unat budget)"
    and "unat (budget - min (b - a) budget) = unat budget - min (unat b - unat a) (unat budget)"
proof -
  have sub: "unat (b - a) = unat b - unat a" using assms by (simp add: unat_sub word_le_nat_alt word_less_nat_alt)
  then show n: "unat (min (b - a) budget) = min (unat b - unat a) (unat budget)"
    by (simp add: min_def word_le_nat_alt)
  have "unat a + unat (min (b - a) budget) < 2 ^ LENGTH(32)"
    unfolding n using unat_lt[of b] assms by (simp add: word_less_nat_alt)
  then show "unat (a + min (b - a) budget) = unat a + min (unat b - unat a) (unat budget)"
    using n by (metis unat_add_lem)
  show "unat (budget - min (b - a) budget) = unat budget - min (unat b - unat a) (unat budget)"
    by (simp add: unat_sub n)
qed

lemma clamp_holes_spec:
  assumes "ranges_sorted n rs"
  shows "length (clamp_holes budget rs) = length rs"
    and "range_total (clamp_holes budget rs) \<le> unat budget"
    and "\<forall>j < length rs. fst (clamp_holes budget rs ! j) = fst (rs ! j)
            \<and> fst (rs ! j) \<le> snd (clamp_holes budget rs ! j) \<and> snd (clamp_holes budget rs ! j) \<le> snd (rs ! j)"
proof -
  have "\<forall>r \<in> set rs. fst r < snd r" using assms by (simp add: ranges_sorted_def)
  then have "length (clamp_holes budget rs) = length rs \<and> range_total (clamp_holes budget rs) \<le> unat budget
     \<and> (\<forall>j < length rs. fst (clamp_holes budget rs ! j) = fst (rs ! j)
            \<and> fst (rs ! j) \<le> snd (clamp_holes budget rs ! j) \<and> snd (clamp_holes budget rs ! j) \<le> snd (rs ! j))"
  proof (induction rs arbitrary: budget)
    case Nil
    then show ?case by simp
  next
    case (Cons r rs)
    obtain a b where r: "r = (a, b)" by (cases r)
    then have ab: "a < b" using Cons.prems by simp
    note cw = clamp_word [OF ab, of budget]
    let ?n = "min (b - a) budget"
    have IH: "length (clamp_holes (budget - ?n) rs) = length rs"
        "range_total (clamp_holes (budget - ?n) rs) \<le> unat (budget - ?n)"
        "\<forall>j < length rs. fst (clamp_holes (budget - ?n) rs ! j) = fst (rs ! j)
            \<and> fst (rs ! j) \<le> snd (clamp_holes (budget - ?n) rs ! j)
            \<and> snd (clamp_holes (budget - ?n) rs ! j) \<le> snd (rs ! j)"
      using Cons.IH[of "budget - ?n"] Cons.prems by auto
    have "range_total (clamp_holes budget (r # rs)) \<le> unat budget"
      using IH(2) cw by (simp add: r Let_def) linarith
    moreover have "a \<le> a + ?n" "a + ?n \<le> b"
      using ab unfolding word_le_nat_alt word_less_nat_alt cw by linarith+
    ultimately show ?case
      using IH(1,3) by (auto simp: r Let_def nth_Cons split: nat.splits)
  qed
  then show "length (clamp_holes budget rs) = length rs"
    and "range_total (clamp_holes budget rs) \<le> unat budget"
    and "\<forall>j < length rs. fst (clamp_holes budget rs ! j) = fst (rs ! j)
            \<and> fst (rs ! j) \<le> snd (clamp_holes budget rs ! j) \<and> snd (clamp_holes budget rs ! j) \<le> snd (rs ! j)"
    by blast+
qed

lemma range_total_filter: "range_total (filter P rs) \<le> range_total rs"
  by (induction rs) auto

lemma sorted_wrt_filter': "sorted_wrt P xs \<Longrightarrow> sorted_wrt P (filter Q xs)"
  by (rule sorted_wrt_filter)

lemma ranges_sorted_take: "ranges_sorted n rs \<Longrightarrow> ranges_sorted n (take k rs)"
  by (auto simp: ranges_sorted_def sorted_wrt_take dest: in_set_takeD)

lemma query_holes_ok: "ranges_ok count (query_budget cfg m) (query_holes cfg m count s)"
proof -
  let ?rs = "take MAX_RANGE_SPANS (missing_ranges s count)"
  let ?q = "clamp_holes (query_budget cfg m) ?rs"
  have srt: "ranges_sorted count ?rs"
    using missing_ranges_spec(1)[of count s] by (intro ranges_sorted_take) (simp add: ranges_coalesced_def)
  note cl = clamp_holes_spec [OF srt, of "query_budget cfg m"]
  have snd_le: "snd r \<le> count" if "r \<in> set ?q" for r
  proof -
    obtain j where j: "j < length ?rs" "r = ?q ! j" using \<open>r \<in> set ?q\<close> cl(1) by (metis in_set_conv_nth)
    then have "snd r \<le> snd (?rs ! j)" using cl(3) by blast
    also have "\<dots> \<le> count" using srt nth_mem [OF j(1)] unfolding ranges_sorted_def by blast
    finally show ?thesis .
  qed
  have "sorted_wrt (\<lambda>r s. snd r \<le> fst s) ?q"
    unfolding sorted_wrt_iff_nth_less
  proof (intro allI impI)
    fix i j assume ij: "i < j" "j < length ?q"
    then have "snd (?q ! i) \<le> snd (?rs ! i)" "fst (?q ! j) = fst (?rs ! j)" using cl by auto
    moreover have "snd (?rs ! i) \<le> fst (?rs ! j)"
      using srt ij cl(1) by (simp add: ranges_sorted_def sorted_wrt_iff_nth_less)
    ultimately show "snd (?q ! i) \<le> fst (?q ! j)" by simp
  qed
  then have "ranges_sorted count (query_holes cfg m count s)"
    using snd_le by (auto simp: ranges_sorted_def query_holes_def sorted_wrt_filter)
  moreover have "length (query_holes cfg m count s) \<le> MAX_RANGE_SPANS"
    using length_filter_le[of "\<lambda>(a, b). a < b" ?q] cl(1) by (simp add: query_holes_def)
  moreover have "range_total (query_holes cfg m count s) \<le> unat (query_budget cfg m)"
    using range_total_filter[of "\<lambda>(a, b). a < b" ?q] cl(2) by (simp add: query_holes_def)
  ultimately show ?thesis by (simp add: ranges_ok_def)
qed

lemma query_holes_missing:
  assumes "in_ranges (query_holes cfg m count s) k"
  shows "k < count \<and> \<not> resume_is_set s k"
proof -
  let ?rs = "take MAX_RANGE_SPANS (missing_ranges s count)"
  let ?q = "clamp_holes (query_budget cfg m) ?rs"
  have srt: "ranges_sorted count ?rs"
    using missing_ranges_spec(1)[of count s] by (intro ranges_sorted_take) (simp add: ranges_coalesced_def)
  note cl = clamp_holes_spec [OF srt, of "query_budget cfg m"]
  from assms obtain r where "r \<in> set ?q" and r: "fst r \<le> k" "k < snd r"
    by (auto simp: in_ranges_def query_holes_def)
  then obtain j where j: "j < length ?rs" "r = ?q ! j" using cl(1) by (metis in_set_conv_nth)
  then have "fst (?rs ! j) = fst r" "snd r \<le> snd (?rs ! j)" using cl(3) by auto
  then have "fst (?rs ! j) \<le> k" "k < snd (?rs ! j)" using r by auto
  moreover have "?rs ! j \<in> set (missing_ranges s count)" using nth_mem [OF j(1)] by (rule in_set_takeD)
  ultimately have "in_ranges (missing_ranges s count) k" unfolding in_ranges_def by blast
  then show ?thesis using missing_ranges_spec(2) by blast
qed

lemma query_holes_nonempty:
  assumes "missing_ranges s count \<noteq> []"
  shows "query_holes cfg m count s \<noteq> []"
proof -
  obtain a b rs where mr: "missing_ranges s count = (a, b) # rs"
    using assms by (metis list.exhaust surj_pair)
  have ab: "a < b"
    using missing_ranges_spec(1)[of count s] by (simp add: mr ranges_coalesced_def ranges_sorted_def)
  have "1 \<le> unat (query_budget cfg m)" by (simp add: query_budget_def max_def word_le_nat_alt)
  then have "a < a + min (b - a) (query_budget cfg m)"
    using ab unfolding word_less_nat_alt clamp_word(1) [OF ab] by linarith
  then show ?thesis by (simp add: query_holes_def mr MAX_RANGE_SPANS_def Let_def)
qed

end
