(* ===== verification/Download_Top.thy ===== *)
theory Download_Top
  imports Download_Props
begin

text \<open>
  A whole download to a destination: what is left on disk after any outcome, and what is in
  place after a successful one. A later run picks up from there.
\<close>

definition disk_inv :: "client_env \<Rightarrow> manifest \<Rightarrow> transfer_chunks \<Rightarrow> bytes \<Rightarrow> disk \<Rightarrow> bool" where
  "disk_inv E m c content d \<longleftrightarrow>
     (\<forall>s. resume_load (ce_dec E) (dk_sidecar d) = Some s \<longrightarrow> resume_for s m c \<longrightarrow>
        (\<exists>f. dk_part d = Some f \<and> length f = unat (tc_total_len c)
           \<and> length (dk_durable d) = unat (tc_total_len c)
           \<and> backed c content s f \<and> backed c content s (dk_durable d)))"

definition no_sidecar :: "client_env \<Rightarrow> manifest \<Rightarrow> transfer_chunks \<Rightarrow> disk \<Rightarrow> bool" where
  "no_sidecar E m c d \<longleftrightarrow>
     (\<forall>s. resume_load (ce_dec E) (dk_sidecar d) = Some s \<longrightarrow> \<not> resume_for s m c)"

lemma no_sidecar_inv: "no_sidecar E m c d \<Longrightarrow> disk_inv E m c content d"
  by (simp add: no_sidecar_def disk_inv_def)

lemma disk_op_cases:
  obtains "disk_op E g d = (Inr (), (g d)\<lparr>dk_ops := Suc (dk_ops d)\<rparr>)"
  | e where "disk_op E g d = (Inl (Io e), d\<lparr>dk_ops := Suc (dk_ops d)\<rparr>)"
  by (cases "ce_faults E (dk_ops d)") (auto simp: disk_op_def)

lemma disk_inv_upd [simp]:
  "disk_inv E m c content (d\<lparr>dk_ops := n\<rparr>) = disk_inv E m c content d"
  "disk_inv E m c content (d\<lparr>dk_progress := p\<rparr>) = disk_inv E m c content d"
  "disk_inv E m c content (d\<lparr>dk_dest := x\<rparr>) = disk_inv E m c content d"
  by (simp_all add: disk_inv_def)

lemma no_sidecar_upd [simp]:
  "no_sidecar E m c (d\<lparr>dk_ops := n\<rparr>) = no_sidecar E m c d"
  "no_sidecar E m c (d\<lparr>dk_part := x, dk_durable := y\<rparr>) = no_sidecar E m c d"
  by (simp_all add: no_sidecar_def)

text \<open>The files the loop may start from: a sized partial file whose bits, if any, are backed.\<close>

definition disk_ready :: "client_env \<Rightarrow> manifest \<Rightarrow> transfer_chunks \<Rightarrow> bytes \<Rightarrow> resume_state \<Rightarrow> disk \<Rightarrow> bool" where
  "disk_ready E m c content s d \<longleftrightarrow> resume_for s m c \<and> dk_part d \<noteq> None
     \<and> backed c content s (w_part (to_world d)) \<and> world_inv E m c content (to_world d)"

lemma world_inv_disk:
  "dk_part d = Some f \<Longrightarrow> world_inv E m c content (to_world d) \<Longrightarrow> disk_inv E m c content d"
  by (auto simp: world_inv_def disk_inv_def to_world_def sidecar_backed_def)

lemma disk_ready_inv: "disk_ready E m c content s d \<Longrightarrow> disk_inv E m c content d"
  by (auto simp: disk_ready_def dest: world_inv_disk)

lemma disk_ready_upd [simp]:
  "disk_ready E m c content s (d\<lparr>dk_ops := n\<rparr>) = disk_ready E m c content s d"
  "disk_ready E m c content s (d\<lparr>dk_progress := p\<rparr>) = disk_ready E m c content s d"
  by (simp_all add: disk_ready_def to_world_def world_inv_def)

lemma fresh_backed: "backed c content (resume_fresh m n) f"
  by (simp add: backed_def resume_fresh_unset)

lemma disk_save_fresh:
  assumes "codec_ok E" "manifest_chunks m = Inr c" "no_sidecar E m c d"
    and "dk_part d = Some f" "length f = unat (tc_total_len c)" "length (dk_durable d) = unat (tc_total_len c)"
  shows "disk_ready E m c content (resume_fresh m (tc_count c))
     (snd (disk_save E (resume_fresh m (tc_count c)) d))"
proof -
  let ?s = "resume_fresh m (tc_count c)"
  have "world_inv E m c content (to_world d)"
    using assms(3-6) by (simp add: world_inv_def to_world_def sidecar_backed_def no_sidecar_def)
  then have "world_inv E m c content (snd (save_sidecar E ?s (to_world d)))"
    using save_sidecar_inv [OF assms(1)] fresh_backed by blast
  moreover have "to_world (snd (disk_save E ?s d))
      = snd (save_sidecar E ?s (to_world d))\<lparr>w_progress := dk_progress d\<rparr>"
    using save_sidecar_fields[of E ?s "to_world d"] assms(4)
    by (auto simp: disk_save_def to_world_def split: prod.splits)
  moreover have "dk_part (snd (disk_save E ?s d)) = Some f"
    using assms(4) by (simp add: disk_save_def split: prod.splits)
  ultimately show ?thesis
    using fresh_backed resume_for_fresh [OF assms(2)] by (simp add: disk_ready_def world_inv_def)
qed

lemma begin_afresh_inv:
  assumes "codec_ok E" "manifest_chunks m = Inr c" "no_sidecar E m c d"
    and run: "begin_afresh E m c d = (r, d')"
  shows "disk_inv E m c content d' \<and> (\<forall>s. r = Inr s \<longrightarrow> disk_ready E m c content s d')"
proof -
  let ?n = "unat (m_total_len m)" and ?s = "resume_fresh m (tc_count c)"
  let ?d1 = "d\<lparr>dk_part := Some [], dk_durable := [], dk_ops := Suc (dk_ops d)\<rparr>"
  let ?d2 = "?d1\<lparr>dk_part := Some (set_len ?n []), dk_durable := set_len ?n [], dk_ops := Suc (Suc (dk_ops d))\<rparr>"
  have n1: "no_sidecar E m c ?d1" and n2: "no_sidecar E m c ?d2"
    using assms(3) by (simp_all add: no_sidecar_def)
  have tot: "tc_total_len c = m_total_len m" using assms(2) by (simp add: manifest_chunks_Inr)
  have ready: "disk_ready E m c content ?s (snd (disk_save E ?s ?d2))"
    using assms(1,2) n2 by (rule disk_save_fresh [where f = "set_len ?n []"]) (simp_all add: tot)
  show ?thesis
  proof (cases rule: disk_op_cases[of E "\<lambda>d. d\<lparr>dk_part := Some [], dk_durable := []\<rparr>" d])
    case (2 e)
    with run assms(3) show ?thesis by (auto simp: begin_afresh_def no_sidecar_inv)
  next
    case one: 1
    show ?thesis
    proof (cases rule: disk_op_cases[of E "\<lambda>d. d\<lparr>dk_part := Some (set_len ?n []), dk_durable := set_len ?n []\<rparr>" ?d1])
      case (2 e)
      with one run n1 show ?thesis by (auto simp: begin_afresh_def intro: no_sidecar_inv)
    next
      case 1
      obtain r3 d3 where sv: "disk_save E ?s ?d2 = (r3, d3)" by (meson surj_pair)
      then have d3: "disk_ready E m c content ?s d3" using ready by simp
      have "then_io (r3, d3) (\<lambda>_ d3. (Inr ?s,
          d3\<lparr>dk_progress := dk_progress d3 @ [Started (m_total_len m) (tc_count c)]\<rparr>)) = (r, d')"
        using run one 1 sv by (simp add: begin_afresh_def)
      then show ?thesis
        using d3 disk_ready_inv [OF d3] by (cases r3) auto
    qed
  qed
qed

lemma resume_probe_inv:
  assumes "codec_ok E" "manifest_chunks m = Inr c" and inv: "disk_inv E m c content d"
    and run: "resume_probe E m c d = (r, d')"
  shows "disk_inv E m c content d' \<and> (\<forall>s. r = Inr s \<longrightarrow> disk_ready E m c content s d')"
proof (cases "\<exists>s. resume_load (ce_dec E) (dk_sidecar d) = Some s \<and> resume_for s m c")
  case True
  then obtain s where s: "resume_load (ce_dec E) (dk_sidecar d) = Some s" "resume_for s m c" by blast
  with inv obtain f where f: "dk_part d = Some f" "length f = unat (tc_total_len c)"
      "length (dk_durable d) = unat (tc_total_len c)" "backed c content s f" "backed c content s (dk_durable d)"
    by (auto simp: disk_inv_def)
  have "tc_total_len c = m_total_len m" using assms(2) by (simp add: manifest_chunks_Inr)
  then have out: "r = Inr s" "d' = d\<lparr>dk_progress := dk_progress d @ [Resumed (resume_received s) (tc_count c)]\<rparr>"
    using run s f(1,2) by (auto simp: resume_probe_def resume_for_def)
  have "disk_ready E m c content s d"
    using s f by (simp add: disk_ready_def world_inv_def to_world_def sidecar_backed_def)
  then show ?thesis using inv by (simp add: out)
next
  case False
  then have "no_sidecar E m c d" by (simp add: no_sidecar_def)
  moreover have "begin_afresh E m c d = (r, d')"
    using run False assms(2)
    by (auto simp: resume_probe_def resume_for_def Let_def split: option.splits if_splits)
  ultimately show ?thesis using begin_afresh_inv [OF assms(1,2)] by blast
qed

lemma manifest_loop_verdict:
  "manifest_loop E cfg bid root rej rs = Inr m \<Longrightarrow>
   \<exists>payload. manifest_verdict E cfg bid root payload = Inr m"
  by (induction E cfg bid root rej rs rule: manifest_loop.induct)
     (auto split: if_splits sum.splits)

lemma start_download_Inr:
  assumes "start_download E cfg bid (Some root) = Inr (m, c)"
  shows "manifest_chunks m = Inr c \<and> m_id m = bid \<and> m_root m = root
     \<and> (m_total_len m = 0 \<longrightarrow> root = ce_blake3 E [])"
proof -
  from assms have m: "fetch_manifest_matching E cfg bid (Some root) = Inr m" "manifest_chunks m = Inr c"
      "m_total_len m = 0 \<longrightarrow> m_root m = ce_blake3 E []"
    by (auto simp: start_download_def and_then_Inr split: if_splits)
  from m(1) have "m_id m = bid \<and> m_root m = root"
    by (auto simp: fetch_manifest_matching_def manifest_verdict_def and_then_Inr
        split: query_outcome.splits if_splits dest!: manifest_loop_verdict)
  with m show ?thesis by auto
qed

lemma check_dest_same:
  assumes "check_dest E ow d = (r, d')"
  shows "d' = d\<lparr>dk_ops := dk_ops d'\<rparr>"
  using assms by (cases rule: disk_op_cases[of E "\<lambda>d. d" d]) (auto simp: check_dest_def split: if_splits)

lemma place_download_inv:
  assumes "dk_part d = Some content" "disk_inv E m c content d" "place_download E ow stats d = (r, d')"
  shows "if is_ok r then dk_dest d' = Some content else disk_inv E m c content d'"
proof -
  obtain r0 d0 where c0: "check_dest E ow d = (r0, d0)" by (meson surj_pair)
  have "d0 = d\<lparr>dk_ops := dk_ops d0\<rparr>" by (rule check_dest_same [OF c0])
  then have inv0: "disk_inv E m c content d0" "dk_part d0 = Some content"
    using assms(1,2) by (metis disk_inv_upd(1), metis disk.select_convs(1) disk.surjective disk.update_convs(5))
  show ?thesis
  proof (cases rule: disk_op_cases[of E "\<lambda>d. d\<lparr>dk_dest := dk_part d, dk_part := None\<rparr>" d0])
    case 1
    with assms(3) c0 inv0 show ?thesis
      by (cases r0) (auto simp: place_download_def Let_def disk_op_def split: option.splits)
  next
    case (2 e)
    with assms(3) c0 inv0 show ?thesis by (cases r0) (auto simp: place_download_def)
  qed
qed

lemma finish_download_inv:
  assumes part: "dk_part d = Some content" and inv: "disk_inv E m c content d"
    and dur: "dk_durable d = content" and run: "finish_download E ow stats d = (r, d')"
  shows "if is_ok r then dk_dest d' = Some content else disk_inv E m c content d'"
proof (cases rule: disk_op_cases[of E "\<lambda>d. d\<lparr>dk_durable := (case dk_part d of None \<Rightarrow> [] | Some f \<Rightarrow> f)\<rparr>" d])
  case (2 e)
  with run inv show ?thesis by (auto simp: finish_download_def)
next
  case 1
  let ?d1 = "d\<lparr>dk_durable := content, dk_ops := Suc (dk_ops d)\<rparr>"
  have inv1: "disk_inv E m c content ?d1" using inv part dur by (simp add: disk_inv_def)
  show ?thesis
  proof (rule place_download_inv)
    show "place_download E ow stats
        (case ce_dest_race E of None \<Rightarrow> ?d1 | Some x \<Rightarrow> ?d1\<lparr>dk_dest := Some x\<rparr>) = (r, d')"
      using run 1 part by (simp add: finish_download_def)
  qed (use inv1 part in \<open>auto split: option.splits\<close>)
qed

text \<open>
  One run, with the manifest it obtained: whatever happens, either the blob is in place or the
  partial files are again such that a later run may trust them.
\<close>

lemma download_to_inner_inv:
  assumes codec: "codec_ok E" and pins: "bao_pins (ce_bao E) root content"
    and empty: "root = ce_blake3 E [] \<Longrightarrow> content = []"
    and start: "start_download E cfg bid (Some root) = Inr (m, c)"
    and inv: "disk_inv E m c content d"
    and run: "download_to_inner fuel E cfg bid (Some root) ow now d = Some (r, d')"
  shows "if is_ok r then dk_dest d' = Some content else disk_inv E m c content d'"
proof -
  obtain r0 d0 where c0: "check_dest E ow d = (r0, d0)" by (meson surj_pair)
  have "d0 = d\<lparr>dk_ops := dk_ops d0\<rparr>" by (rule check_dest_same [OF c0])
  then have inv0: "disk_inv E m c content d0" using inv by (metis disk_inv_upd(1))
  note m = start_download_Inr [OF start]
  have pin: "pinned E m c content" using codec pins m by (simp add: pinned_def)
  obtain r1 d1 where probe: "then_io (disk_op E (\<lambda>d. d) d0) (\<lambda>_. resume_probe E m c) = (r1, d1)"
    by (meson surj_pair)
  have d1: "disk_inv E m c content d1 \<and> (\<forall>s. r1 = Inr s \<longrightarrow> disk_ready E m c content s d1)"
  proof (cases rule: disk_op_cases[of E "\<lambda>d. d" d0])
    case 1
    then have "resume_probe E m c (d0\<lparr>dk_ops := Suc (dk_ops d0)\<rparr>) = (r1, d1)" using probe by simp
    then show ?thesis by (rule resume_probe_inv [OF codec, rotated 2]) (use m inv0 in auto)
  next
    case (2 e)
    with probe inv0 show ?thesis by auto
  qed
  show ?thesis
  proof (cases r0)
    case (Inl e)
    with run c0 inv0 show ?thesis by (auto simp: download_to_inner_def)
  next
  case go: (Inr u0)
  show ?thesis
  proof (cases r1)
    case (Inl e)
    with run c0 go start probe d1 show ?thesis by (auto simp: download_to_inner_def)
  next
    case (Inr s)
    then have ready: "disk_ready E m c content s d1" using d1 by simp
    show ?thesis
    proof (cases rule: disk_op_cases[of E "\<lambda>d. d" d1])
      case (2 e)
      with run c0 go start probe d1 Inr show ?thesis by (auto simp: download_to_inner_def)
    next
      case 1
      let ?d2 = "d1\<lparr>dk_ops := Suc (dk_ops d1)\<rparr>"
      have ready2: "disk_ready E m c content s ?d2" using ready by simp
      obtain r3 f where fill: "fill_holes fuel True E cfg m c now s
            (stats_default\<lparr>ts_chunks_resumed := resume_received s\<rparr>) (to_world ?d2) = Some (r3, f)"
        and out: "(case r3 of Inl e \<Rightarrow> (Inl e, from_world ?d2 (f_world f))
           | Inr _ \<Rightarrow> finish_download E ow (f_stats f) (from_world ?d2 (f_world f))) = (r, d')"
        using run c0 go start probe Inr 1 by (auto simp: download_to_inner_def)
      have ne: "m_total_len m = 0 \<Longrightarrow> content = []" using m empty by auto
      have pre: "resume_for s m c" "backed c content s (w_part (to_world ?d2))"
          "world_inv E m c content (to_world ?d2)"
        using ready2 by (auto simp: disk_ready_def)
      note fin = fill_holes_correct [OF pin ne pre fill]
      let ?d3 = "from_world ?d2 (f_world f)"
      have "world_inv E m c content (to_world ?d3)"
        using fin(1) by (simp add: fill_inv_def world_inv_def to_world_def from_world_def)
      then have inv3: "disk_inv E m c content ?d3"
        by (rule world_inv_disk [rotated]) (simp add: from_world_def)
      show ?thesis
      proof (cases r3)
        case (Inl e)
        with out inv3 show ?thesis by auto
      next
        case (Inr u)
        then have "dk_part ?d3 = Some content" "dk_durable ?d3 = content"
          using fin(2) by (simp_all add: from_world_def)
        then show ?thesis using finish_download_inv inv3 out Inr by simp
      qed
    qed
  qed
  qed
qed

text \<open>Whatever the peers, the disk and the clock do, the call comes back.\<close>

lemma resume_probe_for:
  assumes "manifest_chunks m = Inr c" and "resume_probe E m c d = (Inr s, d')"
  shows "resume_for s m c"
proof (cases "\<exists>s0. resume_load (ce_dec E) (dk_sidecar d) = Some s0 \<and> resume_matches s0 m (tc_count c)
    \<and> map_option length (dk_part d) = Some (unat (m_total_len m))")
  case True
  with assms show ?thesis by (auto simp: resume_probe_def resume_for_def Let_def)
next
  case False
  with assms(2) have "begin_afresh E m c d = (Inr s, d')"
    by (auto simp: resume_probe_def Let_def split: option.splits if_splits)
  then have "s = resume_fresh m (tc_count c)"
    by (auto simp: begin_afresh_def then_io_Inr)
  then show ?thesis by (simp add: resume_for_fresh assms(1))
qed

lemma download_to_inner_returns:
  assumes fuel: "2 ^ 32 * Suc (unat (max_attempts (cc_retry cfg))) \<le> fuel"
  shows "\<exists>r d'. download_to_inner fuel E cfg bid expected_root ow now d = Some (r, d')"
proof -
  have fill: "\<exists>r f. fill_holes fuel True E cfg m c now s stats w = Some (r, f)"
    if "resume_for s m c" for m c s stats w
  proof (rule fill_holes_returns [OF that])
    have "Suc (unat (tc_count c)) \<le> 2 ^ 32" using unat_lt32[of "tc_count c"] by simp
    then have "fill_fuel cfg c \<le> 2 ^ 32 * Suc (unat (max_attempts (cc_retry cfg)))"
      unfolding fill_fuel_def by (rule mult_le_mono1)
    then show "fill_fuel cfg c \<le> fuel" using fuel by linarith
  qed
  obtain r0 d0 where c0: "check_dest E ow d = (r0, d0)" by (meson surj_pair)
  show ?thesis
  proof (cases "start_download E cfg bid expected_root")
    case (Inl e)
    then show ?thesis using c0 by (cases r0) (simp_all add: download_to_inner_def)
  next
    case (Inr mc)
    obtain m c where mc: "mc = (m, c)" by (cases mc)
    with Inr have chunks: "manifest_chunks m = Inr c"
      by (auto simp: start_download_def and_then_Inr split: if_splits)
    obtain r1 d1 where p: "then_io (disk_op E (\<lambda>d. d) d0) (\<lambda>_. resume_probe E m c) = (r1, d1)"
      by (meson surj_pair)
    show ?thesis
    proof (cases r1)
      case Inl': (Inl e)
      then show ?thesis using Inr mc p c0 by (cases r0) (simp_all add: download_to_inner_def)
    next
      case Inr': (Inr s)
      with p have rf: "resume_for s m c" using resume_probe_for [OF chunks] by (auto simp: then_io_Inr)
      show ?thesis
      proof (cases rule: disk_op_cases[of E "\<lambda>d. d" d1])
        case 1
        then show ?thesis
          using Inr mc p Inr' c0 fill [OF rf, of "stats_default\<lparr>ts_chunks_resumed := resume_received s\<rparr>"
              "to_world (d1\<lparr>dk_ops := Suc (dk_ops d1)\<rparr>)"]
          by (cases r0) (auto simp: download_to_inner_def split: prod.splits)
      next
        case (2 e)
        then show ?thesis using Inr mc p Inr' c0 by (cases r0) (simp_all add: download_to_inner_def)
      qed
    qed
  qed
qed

end
