(* ===== verification/Striping.thy ===== *)
theory Striping
  imports Download_Top Wire_Props
begin

text \<open>
  Striped downloads (\<open>src/src/client.rs\<close>): the chunks of one blob are dealt out to several
  holders, each holder is asked for its share, and what they send is merged into one partial
  file. The dealing loop may run forever, so it is a \<open>partial_function\<close> whose \<open>None\<close> is exactly
  that; the rounds around it are bounded by fuel.
\<close>

section \<open>Dealing\<close>

record blob_probe =
  bp_origin :: query_prefix
  bp_manifest :: manifest
  bp_availability :: "availability option"

definition claims :: "blob_probe \<Rightarrow> u32 \<Rightarrow> bool" where
  "claims h idx = (case bp_availability h of None \<Rightarrow> True | Some a \<Rightarrow> availability_is_set a idx)"

text \<open>
  The inner \<open>while dealt < copies\<close>: the holder under the cursor takes a copy if it claims the chunk
  and has room; a full turn of the cursor without any copy dealt gives the chunk up.
\<close>

partial_function (option) deal_copies ::
  "blob_probe list \<Rightarrow> nat list \<Rightarrow> nat \<Rightarrow> nat \<Rightarrow> u32 \<Rightarrow> nat \<Rightarrow> nat \<Rightarrow> u32 list list \<Rightarrow> (nat \<times> u32 list list) option" where
  "deal_copies holders live budget copies idx dealt cursor asg =
     (if dealt < copies then
        let h = live ! (cursor mod length live);
            cursor' = cursor + 1;
            takes = (claims (holders ! h) idx \<and> length (asg ! h) < budget);
            asg' = (if takes then asg[h := asg ! h @ [idx]] else asg);
            dealt' = (if takes then dealt + 1 else dealt)
        in if cursor' mod length live = 0 \<and> dealt' = 0 then Some (cursor', asg')
           else deal_copies holders live budget copies idx dealt' cursor' asg'
      else Some (cursor, asg))"

primrec deal_all ::
  "blob_probe list \<Rightarrow> nat list \<Rightarrow> nat \<Rightarrow> nat \<Rightarrow> u32 list \<Rightarrow> nat \<Rightarrow> u32 list list \<Rightarrow> u32 list list option" where
  "deal_all holders live budget copies [] cursor asg = Some asg"
| "deal_all holders live budget copies (idx # is) cursor asg =
     Option.bind (deal_copies holders live budget copies idx 0 cursor asg)
       (\<lambda>(cursor', asg'). deal_all holders live budget copies is cursor' asg')"

text \<open>The chunks of one round: which are missing, how many copies, and who is asked for what.\<close>

definition missing_chunks :: "resume_state \<Rightarrow> u32 \<Rightarrow> u32 list" where
  "missing_chunks s count = filter (\<lambda>i. \<not> resume_is_set s i) (map of_nat [0..<unat count])"

definition live_holders :: "client_config \<Rightarrow> u32 list \<Rightarrow> nat list" where
  "live_holders cfg rejects =
     filter (\<lambda>i. rejects ! i < max (max_attempts (cc_retry cfg)) 1 * 8) [0..<length rejects]"

definition deal_copy_count :: "nat list \<Rightarrow> u32 list \<Rightarrow> nat" where
  "deal_copy_count live missing =
     (if length missing \<le> max (length live) 2 * 2 then min 2 (length live) else 1)"

definition deal ::
  "client_config \<Rightarrow> manifest \<Rightarrow> u32 \<Rightarrow> blob_probe list \<Rightarrow> u32 list \<Rightarrow> resume_state \<Rightarrow> u32 list list option" where
  "deal cfg m count holders rejects s =
     (let live = live_holders cfg rejects; missing = missing_chunks s count;
          budget = unat (query_budget cfg m)
      in deal_all holders live budget (deal_copy_count live missing)
           (take (budget * length live) missing) 0 (replicate (length holders) []))"

definition stripe_requests ::
  "manifest \<Rightarrow> blob_probe list \<Rightarrow> nat list \<Rightarrow> u32 list list \<Rightarrow> (nat \<times> string) list" where
  "stripe_requests m holders live asg =
     map (\<lambda>h. (h, slice_selector (bp_origin (holders ! h)) (m_id m) (coalesce (asg ! h))))
       (filter (\<lambda>h. asg ! h \<noteq> []) live)"

section \<open>Rounds\<close>

text \<open>
  What arrives in a round: a reply to the task of a holder, in the order the shared channel
  delivers what the tasks make of them, or the token firing. Only holders that were asked have a
  task; the answers are input.
\<close>

datatype stripe_event = FromHolder nat "unit + sample" | StripeCancelled

type_synonym stripe_net = "u64 \<Rightarrow> (nat \<times> string) list \<Rightarrow> stripe_event list"

type_synonym verified = "u32 \<times> (u64 \<times> bytes) list \<times> nat \<times> u32"

text \<open>The task of a holder turns a reply into a message, or drops it.\<close>

definition stripe_task ::
  "client_env \<Rightarrow> manifest \<Rightarrow> transfer_chunks \<Rightarrow> nat \<Rightarrow> unit + sample \<Rightarrow> verified option" where
  "stripe_task E m c h reply =
     (case reply of
        Inl _ \<Rightarrow> None
      | Inr sm \<Rightarrow>
          if sm_encoding sm \<noteq> ENC_SLICE then None
          else map_option
            (\<lambda>index. case decode_slice (ce_bao E) (m_root m) (m_total_len m)
                        (chunk_range (ce_bao E) (byte_range c index)) (sm_payload sm) push_leaf [] of
                       (Inr _, leaves) \<Rightarrow> (index, leaves, h, 0)
                     | (Inl _, _) \<Rightarrow> (index, [], h, 1))
            (parse_slice_index (sm_key sm)))"

record stripe =
  sp_fill :: fill
  sp_rejects :: "u32 list"

definition stripe_mark :: "transfer_chunks \<Rightarrow> u32 \<Rightarrow> fill \<Rightarrow> fill" where
  "stripe_mark c index f =
     (case resume_mark (f_state f) index of
        (False, _) \<Rightarrow> f
      | (True, s) \<Rightarrow>
          (let n = ucast (len_of c index); br = f_bytes_received f + n; st = f_stats f in
           f\<lparr>f_state := s, f_bytes_received := br,
             f_stats := st\<lparr>ts_chunks_fetched := ts_chunks_fetched st + 1,
                          ts_bytes_fetched := ts_bytes_fetched st + n\<rparr>,
             f_world := emit (ChunkDone index (resume_received s) (tc_count c) br) (f_world f)\<rparr>))"

text \<open>One message of the channel.\<close>

definition on_verified ::
  "client_env \<Rightarrow> transfer_chunks \<Rightarrow> verified \<Rightarrow> stripe \<Rightarrow> unit res \<times> stripe" where
  "on_verified E c msg p =
     (case msg of (index, leaves, holder, rejected) \<Rightarrow>
        if rejected > 0 then
          (let f = sp_fill p; st = f_stats f in
           (Inr (), p\<lparr>sp_fill := f\<lparr>f_stats := st\<lparr>ts_rejected := ts_rejected st + rejected\<rparr>\<rparr>,
                      sp_rejects := (sp_rejects p)[holder := sp_rejects p ! holder + rejected]\<rparr>))
        else if index \<ge> tc_count c \<or> resume_is_set (f_state (sp_fill p)) index then (Inr (), p)
        else (case on_world (write_leaves E leaves) (sp_fill p) of
                (Inl e, f) \<Rightarrow> (Inl e, p\<lparr>sp_fill := f\<rparr>)
              | (Inr _, f) \<Rightarrow> (Inr (), p\<lparr>sp_fill := stripe_mark c index f\<rparr>)))"

definition stripe_cancel :: "client_env \<Rightarrow> u32 \<Rightarrow> stripe \<Rightarrow> unit res \<times> stripe" where
  "stripe_cancel E count p =
     (case persist_cancel True E count (sp_fill p) of (r, f) \<Rightarrow> (r, p\<lparr>sp_fill := f\<rparr>))"

text \<open>\<open>Inl\<close> is a \<open>return\<close> of the enclosing function out of the receive loop.\<close>

fun stripe_recv ::
  "client_env \<Rightarrow> manifest \<Rightarrow> transfer_chunks \<Rightarrow> nat set \<Rightarrow> stripe_event list \<Rightarrow> stripe \<Rightarrow> unit res \<times> stripe" where
  "stripe_recv E m c asked [] p = (Inr (), p)"
| "stripe_recv E m c asked (StripeCancelled # evs) p = stripe_cancel E (tc_count c) p"
| "stripe_recv E m c asked (FromHolder h reply # evs) p =
     (if h \<notin> asked then stripe_recv E m c asked evs p
      else case stripe_task E m c h reply of
             None \<Rightarrow> stripe_recv E m c asked evs p
           | Some msg \<Rightarrow> then_io (on_verified E c msg p) (\<lambda>_. stripe_recv E m c asked evs))"

definition stripe_save :: "client_env \<Rightarrow> stripe \<Rightarrow> unit res \<times> stripe" where
  "stripe_save E p =
     (case then_io (on_world (commit E) (sp_fill p)) (\<lambda>_. save_if True E) of
        (r, f) \<Rightarrow> (r, p\<lparr>sp_fill := f\<rparr>))"

definition stripe_incomplete :: "u32 \<Rightarrow> stripe \<Rightarrow> unit res" where
  "stripe_incomplete count p = Inl (Incomplete (resume_received (f_state (sp_fill p))) count)"

text \<open>The end of a round, after the channel has closed.\<close>

definition stripe_settle ::
  "client_config \<Rightarrow> u32 \<Rightarrow> u32 \<Rightarrow> stripe \<Rightarrow> stripe turn" where
  "stripe_settle cfg count before p =
     (let f = sp_fill p in
      if resume_is_complete (f_state f) count then Break p
      else if resume_received (f_state f) = before then
        let f' = f\<lparr>f_no_progress := f_no_progress f + 1,
                   f_stats := (f_stats f)\<lparr>ts_retries := ts_retries (f_stats f) + 1\<rparr>\<rparr>;
            p' = p\<lparr>sp_fill := f'\<rparr>
        in if f_no_progress f' \<ge> max_attempts (cc_retry cfg)
           then Return (stripe_incomplete count p', p')
           else Continue p'
      else Continue (p\<lparr>sp_fill := f\<lparr>f_no_progress := 0\<rparr>\<rparr>))"

text \<open>One round; \<open>None\<close> when the dealing never ends.\<close>

definition stripe_turn ::
  "client_env \<Rightarrow> stripe_net \<Rightarrow> client_config \<Rightarrow> manifest \<Rightarrow> transfer_chunks \<Rightarrow> blob_probe list \<Rightarrow> stripe
   \<Rightarrow> stripe turn option" where
  "stripe_turn E N cfg m c holders p =
     (let count = tc_count c; f = sp_fill p; st = f_stats f; live = live_holders cfg (sp_rejects p) in
      if resume_is_complete (f_state f) count then Some (Break p)
      else if ce_cancelled E (ts_queries st) then Some (Return (stripe_cancel E count p))
      else if live = [] then Some (Return (stripe_incomplete count p, p))
      else map_option
        (\<lambda>asg.
           let reqs = stripe_requests m holders live asg in
           case stripe_recv E m c (fst ` set reqs) (N (ts_queries st) reqs) p of
             (Inl e, p1) \<Rightarrow> Return (Inl e, p1)
           | (Inr _, p1) \<Rightarrow>
               (let f1 = sp_fill p1; st1 = f_stats f1;
                    p2 = p1\<lparr>sp_fill := f1\<lparr>f_stats := st1\<lparr>ts_queries := ts_queries st1 + of_nat (length live)\<rparr>\<rparr>\<rparr>
                in case stripe_save E p2 of
                     (Inl e, p3) \<Rightarrow> Return (Inl e, p3)
                   | (Inr _, p3) \<Rightarrow> stripe_settle cfg count (resume_received (f_state f)) p3))
        (deal cfg m count holders (sp_rejects p) (f_state f)))"

fun stripe_loop ::
  "nat \<Rightarrow> client_env \<Rightarrow> stripe_net \<Rightarrow> client_config \<Rightarrow> manifest \<Rightarrow> transfer_chunks \<Rightarrow> blob_probe list \<Rightarrow> stripe
   \<Rightarrow> (unit res \<times> stripe) option" where
  "stripe_loop 0 E N cfg m c holders p = None"
| "stripe_loop (Suc fuel) E N cfg m c holders p =
     Option.bind (stripe_turn E N cfg m c holders p)
       (\<lambda>t. case t of
          Continue p' \<Rightarrow> stripe_loop fuel E N cfg m c holders p'
        | Return r \<Rightarrow> Some r
        | Break p' \<Rightarrow> Some (stripe_save E p'))"

definition fill_holes_striped ::
  "nat \<Rightarrow> client_env \<Rightarrow> stripe_net \<Rightarrow> client_config \<Rightarrow> manifest \<Rightarrow> transfer_chunks \<Rightarrow> blob_probe list
   \<Rightarrow> resume_state \<Rightarrow> transfer_stats \<Rightarrow> world \<Rightarrow> (unit res \<times> stripe) option" where
  "fill_holes_striped fuel E N cfg m c holders s stats w =
     stripe_loop fuel E N cfg m c holders
       \<lparr>sp_fill = fill_start c 0 s stats w, sp_rejects = replicate (length holders) 0\<rparr>"

section \<open>The whole striped download\<close>

text \<open>
  The first holder's manifest drives the transfer; the others only have to agree about the root.
  \<open>holders[0]\<close> exists: the caller takes this path with two holders or more.
\<close>

definition stripe_manifest :: "hash option \<Rightarrow> blob_probe list \<Rightarrow> (manifest \<times> transfer_chunks) res" where
  "stripe_manifest expected_root holders =
     (let m = bp_manifest (hd holders) in
      if (case expected_root of Some h \<Rightarrow> m_root m \<noteq> h | None \<Rightarrow> False)
      then Inl (RootMismatch (the expected_root) (m_root m))
      else if \<exists>h \<in> set holders. m_root (bp_manifest h) \<noteq> m_root m then Inl MalformedMessage
      else and_then (manifest_chunks m) (\<lambda>c. Inr (m, c)))"

definition download_striped_inner ::
  "nat \<Rightarrow> client_env \<Rightarrow> stripe_net \<Rightarrow> client_config \<Rightarrow> hash option \<Rightarrow> blob_probe list \<Rightarrow> overwrite \<Rightarrow> disk
   \<Rightarrow> (transfer_stats res \<times> disk) option" where
  "download_striped_inner fuel E N cfg expected_root holders ow d =
     (case check_dest E ow d of
        (Inl e, d0) \<Rightarrow> Some (Inl e, d0)
      | (Inr _, d0) \<Rightarrow>
     (case stripe_manifest expected_root holders of
        Inl e \<Rightarrow> Some (Inl e, d0)
      | Inr (m, c) \<Rightarrow>
          (case then_io (disk_op E (\<lambda>d. d) d0) (\<lambda>_. resume_probe E m c) of
             (Inl e, d1) \<Rightarrow> Some (Inl e, d1)
           | (Inr s, d1) \<Rightarrow>
               (case disk_op E (\<lambda>d. d) d1 of
                  (Inl e, d2) \<Rightarrow> Some (Inl e, d2)
                | (Inr _, d2) \<Rightarrow>
                    map_option
                      (\<lambda>(r, p). case r of
                         Inl e \<Rightarrow> (Inl e, from_world d2 (f_world (sp_fill p)))
                       | Inr _ \<Rightarrow> finish_download E ow (f_stats (sp_fill p)) (from_world d2 (f_world (sp_fill p))))
                      (fill_holes_striped fuel E N cfg m c holders s
                         (stats_default\<lparr>ts_chunks_resumed := resume_received s\<rparr>) (to_world d2))))))"

end
