(* ===== verification/Striping_Props.thy ===== *)
theory Striping_Props
  imports Striping
begin

text \<open>
  Correctness of striped downloads: the resume invariant through every round, what the dealing
  hands out, when it ends, and when it does not.
\<close>

section \<open>Bits stay behind data\<close>

lemma stripe_mark_inv:
  assumes "fill_inv E m c content f" and "chunk_holds c content (w_part (f_world f)) i"
  shows "fill_inv E m c content (stripe_mark c i f)"
proof (cases "resume_mark (f_state f) i")
  case (Pair new s)
  have "resume_for s m c" "backed c content s (w_part (f_world f))"
    using assms backed_mark [of "f_state f" m c content "w_part (f_world f)" i] Pair by (auto simp: fill_inv_def)
      (metis resume_for_mark snd_conv)
  then show ?thesis
    using assms(1) Pair by (cases new) (auto simp: stripe_mark_def Let_def fill_inv_def world_inv_def emit_def)
qed

lemma write_leaves_holds:
  assumes "fill_inv E m c content f" and "leaves_ok content (unat (tc_total_len c)) ls"
    and "on_world (write_leaves E ls) f = (Inr (), f')"
  shows "\<forall>leaf \<in> set ls. \<forall>k. covers leaf k \<longrightarrow> holds content (w_part (f_world f')) k"
proof -
  obtain w where w: "write_leaves E ls (f_world f) = (Inr (), w)" "f_world f' = w"
    using assms(3) by (auto simp: on_world_def split: prod.splits)
  have "leaves_ok content (length (w_part (f_world f))) ls"
    using assms(1,2) by (simp add: fill_inv_def world_inv_def)
  from write_leaves_effect [OF this w(1)] w(2) show ?thesis by simp
qed

lemma stripe_task_sound:
  assumes pin: "pinned E m c content" and task: "stripe_task E m c h reply = Some (i, ls, h', 0)"
  shows "leaves_ok content (unat (tc_total_len c)) ls
    \<and> (i < tc_count c \<longrightarrow> (\<forall>leaf \<in> set ls. \<forall>k. covers leaf k \<longrightarrow> holds content f k) \<longrightarrow> chunk_holds c content f i)"
proof -
  obtain sm where sm: "reply = Inr sm" and idx: "parse_slice_index (sm_key sm) \<noteq> None"
    using task by (auto simp: stripe_task_def split: sum.splits if_splits)
  obtain j where j: "parse_slice_index (sm_key sm) = Some j" using idx by blast
  obtain r leaves where d: "decode_slice (ce_bao E) (m_root m) (m_total_len m)
      (chunk_range (ce_bao E) (byte_range c j)) (sm_payload sm) push_leaf [] = (r, leaves)" by (meson surj_pair)
  have dec: "decode_slice (ce_bao E) (m_root m) (m_total_len m)
      (chunk_range (ce_bao E) (byte_range c i)) (sm_payload sm) push_leaf [] = (Inr (), ls)"
    using task d by (cases r) (auto simp: stripe_task_def sm j split: if_splits)
  then show ?thesis using decoded_leaves_ok [OF pin dec] decoded_chunk_holds [OF pin _ dec] by blast
qed

lemma on_verified_inv:
  assumes pin: "pinned E m c content" and inv: "fill_inv E m c content (sp_fill p)"
    and task: "stripe_task E m c h reply = Some msg"
  shows "fill_inv E m c content (sp_fill (snd (on_verified E c msg p)))"
proof -
  obtain i ls h' rej where msg: "msg = (i, ls, h', rej)" by (cases msg)
  show ?thesis
  proof (cases "rej > 0 \<or> i \<ge> tc_count c \<or> resume_is_set (f_state (sp_fill p)) i")
    case True
    then show ?thesis using inv by (auto simp: on_verified_def msg Let_def)
  next
    case False
    then have rej: "rej = 0" and i: "i < tc_count c" by (auto simp: not_le word_greater_zero_iff)
    obtain r f where w: "on_world (write_leaves E ls) (sp_fill p) = (r, f)" by (meson surj_pair)
    note sound = stripe_task_sound [OF pin task [unfolded msg rej]]
    have f: "fill_inv E m c content f" using write_leaves_inv [OF inv] sound w by (metis snd_conv)
    have "chunk_holds c content (w_part (f_world f)) i" if "r = Inr ()"
      using sound i write_leaves_holds [OF inv] w that by blast
    then show ?thesis using f w False stripe_mark_inv [OF f] by (cases r) (simp_all add: on_verified_def msg)
  qed
qed

lemma stripe_cancel_inv:
  assumes "codec_ok E" and "fill_inv E m c content (sp_fill p)"
  shows "fill_inv E m c content (sp_fill (snd (stripe_cancel E n p))) \<and> \<not> is_ok (fst (stripe_cancel E n p))"
  using persist_cancel_inv [OF assms, of True n]
  by (auto simp: stripe_cancel_def persist_cancel_def then_io_def Let_def split: prod.splits sum.splits)

lemma stripe_recv_inv:
  assumes pin: "pinned E m c content" and "fill_inv E m c content (sp_fill p)"
  shows "fill_inv E m c content (sp_fill (snd (stripe_recv E m c asked evs p)))"
  using assms(2)
proof (induction evs arbitrary: p)
  case (Cons ev evs)
  show ?case
  proof (cases ev)
    case (FromHolder h reply)
    show ?thesis
    proof (cases "stripe_task E m c h reply")
      case (Some msg)
      have "fill_inv E m c content (sp_fill (snd (on_verified E c msg p)))"
        by (rule on_verified_inv [OF pin Cons.prems Some])
      then have "fill_inv E m c content (sp_fill (snd (then_io (on_verified E c msg p) (\<lambda>_. stripe_recv E m c asked evs))))"
        by (rule then_io_inv [where P = "\<lambda>q. fill_inv E m c content (sp_fill q)"]) (rule Cons.IH)
      then show ?thesis using Cons.IH [OF Cons.prems] by (simp add: FromHolder Some)
    qed (simp add: FromHolder Cons.IH [OF Cons.prems])
  next
    case StripeCancelled
    then show ?thesis using Cons.prems pin stripe_cancel_inv by (simp add: pinned_def)
  qed
qed simp

lemma stripe_save_inv:
  assumes "codec_ok E" and "fill_inv E m c content (sp_fill p)" and "stripe_save E p = (r, p')"
  shows "fill_inv E m c content (sp_fill p') \<and> f_state (sp_fill p') = f_state (sp_fill p)
    \<and> (is_ok r \<longrightarrow> w_durable (f_world (sp_fill p')) = w_part (f_world (sp_fill p')))"
proof -
  let ?x = "then_io (on_world (commit E) (sp_fill p)) (\<lambda>_. save_if True E)"
  have p': "sp_fill p' = snd ?x" "r = fst ?x" using assms(3) by (auto simp: stripe_save_def split: prod.splits)
  have "w_durable (f_world (snd ?x)) = w_part (f_world (snd ?x))" if "is_ok (fst ?x)"
    using that commit_fields[of E "f_world (sp_fill p)"]
    by (auto simp: is_ok_iff then_io_def on_world_def save_if_def save_sidecar_def next_op_def split: prod.splits sum.splits)
  then show ?thesis using commit_save_inv [OF assms(1,2)] commit_save_state by (simp add: p')
qed

lemma stripe_settle_inv:
  assumes "fill_inv E m c content (sp_fill p)"
  shows "case stripe_settle cfg n before p of
           Continue p' \<Rightarrow> fill_inv E m c content (sp_fill p')
         | Break p' \<Rightarrow> fill_inv E m c content (sp_fill p') \<and> resume_is_complete (f_state (sp_fill p')) n
         | Return r \<Rightarrow> fill_inv E m c content (sp_fill (snd r)) \<and> \<not> is_ok (fst r)"
  using assms by (simp add: stripe_settle_def Let_def stripe_incomplete_def)

lemma stripe_turn_inv:
  assumes pin: "pinned E m c content" and inv: "fill_inv E m c content (sp_fill p)"
    and turn: "stripe_turn E N cfg m c holders p = Some t"
  shows "case t of
           Continue p' \<Rightarrow> fill_inv E m c content (sp_fill p')
         | Break p' \<Rightarrow> fill_inv E m c content (sp_fill p') \<and> resume_is_complete (f_state (sp_fill p')) (tc_count c)
         | Return r \<Rightarrow> fill_inv E m c content (sp_fill (snd r)) \<and> \<not> is_ok (fst r)"
proof -
  have codec: "codec_ok E" using pin by (simp add: pinned_def)
  let ?live = "live_holders cfg (sp_rejects p)" and ?q = "ts_queries (f_stats (sp_fill p))"
  show ?thesis
  proof (cases "resume_is_complete (f_state (sp_fill p)) (tc_count c) \<or> ce_cancelled E ?q \<or> ?live = []")
    case True
    then show ?thesis
      using turn inv stripe_cancel_inv [OF codec inv]
      by (auto simp: stripe_turn_def Let_def stripe_incomplete_def split: if_splits)
  next
    case False
    then obtain asg where t: "t = (let reqs = stripe_requests m holders ?live asg in
         case stripe_recv E m c (fst ` set reqs) (N ?q reqs) p of
           (Inl e, p1) \<Rightarrow> Return (Inl e, p1)
         | (Inr _, p1) \<Rightarrow>
             (let f1 = sp_fill p1; st1 = f_stats f1;
                  p2 = p1\<lparr>sp_fill := f1\<lparr>f_stats := st1\<lparr>ts_queries := ts_queries st1 + of_nat (length ?live)\<rparr>\<rparr>\<rparr>
              in case stripe_save E p2 of
                   (Inl e, p3) \<Rightarrow> Return (Inl e, p3)
                 | (Inr _, p3) \<Rightarrow> stripe_settle cfg (tc_count c) (resume_received (f_state (sp_fill p))) p3))"
      using turn by (auto simp: stripe_turn_def Let_def)
    let ?reqs = "stripe_requests m holders ?live asg"
    obtain r p1 where recv: "stripe_recv E m c (fst ` set ?reqs) (N ?q ?reqs) p = (r, p1)" by (meson surj_pair)
    have inv1: "fill_inv E m c content (sp_fill p1)" using stripe_recv_inv [OF pin inv] recv by (metis snd_conv)
    let ?p2 = "p1\<lparr>sp_fill := (sp_fill p1)\<lparr>f_stats := (f_stats (sp_fill p1))
      \<lparr>ts_queries := ts_queries (f_stats (sp_fill p1)) + of_nat (length ?live)\<rparr>\<rparr>\<rparr>"
    obtain r3 p3 where save: "stripe_save E ?p2 = (r3, p3)" by (meson surj_pair)
    have inv3: "fill_inv E m c content (sp_fill p3)"
      using stripe_save_inv [OF codec _ save, of m c content] inv1 by simp
    have t': "t = (case r of Inl e \<Rightarrow> Return (Inl e, p1) | Inr _ \<Rightarrow>
        (case r3 of Inl e \<Rightarrow> Return (Inl e, p3)
         | Inr _ \<Rightarrow> stripe_settle cfg (tc_count c) (resume_received (f_state (sp_fill p))) p3))"
      unfolding t Let_def recv save prod.case ..
    show ?thesis
    proof (cases r)
      case (Inl e)
      then show ?thesis using inv1 by (simp add: t')
    next
      case (Inr u)
      show ?thesis
      proof (cases r3)
        case (Inl e)
        then show ?thesis using inv3 Inr by (simp add: t')
      next
        case Inr': (Inr v)
        show ?thesis unfolding t' Inr Inr' sum.case by (rule stripe_settle_inv [OF inv3])
      qed
    qed
  qed
qed

lemma stripe_loop_inv:
  assumes pin: "pinned E m c content"
  shows "fill_inv E m c content (sp_fill p) \<Longrightarrow> stripe_loop fuel E N cfg m c holders p = Some (r, p') \<Longrightarrow>
     fill_inv E m c content (sp_fill p') \<and> (is_ok r \<longrightarrow> resume_is_complete (f_state (sp_fill p')) (tc_count c)
        \<and> w_durable (f_world (sp_fill p')) = w_part (f_world (sp_fill p')))"
proof (induction fuel arbitrary: p)
  case (Suc fuel)
  then obtain t where t: "stripe_turn E N cfg m c holders p = Some t"
    by (auto split: bind_splits)
  note inv = stripe_turn_inv [OF pin Suc.prems(1) t]
  show ?case
  proof (cases t)
    case (Break g)
    have codec: "codec_ok E" using pin by (simp add: pinned_def)
    have "stripe_save E g = (r, p')" using Suc.prems(2) t Break by simp
    moreover have "fill_inv E m c content (sp_fill g)" "resume_is_complete (f_state (sp_fill g)) (tc_count c)"
      using inv by (simp_all add: Break)
    ultimately show ?thesis using stripe_save_inv [OF codec, of m c content g r p'] by simp
  next
    case (Continue g)
    then have "fill_inv E m c content (sp_fill g)" "stripe_loop fuel E N cfg m c holders g = Some (r, p')"
      using inv Suc.prems(2) t by simp_all
    then show ?thesis by (rule Suc.IH)
  next
    case (Return x)
    then have "x = (r, p')" using Suc.prems(2) t by simp
    then show ?thesis using inv by (simp add: Return)
  qed
qed simp

lemma fill_holes_striped_correct:
  assumes pin: "pinned E m c content" and ne: "m_total_len m = 0 \<Longrightarrow> content = []"
    and start: "resume_for s m c" "backed c content s (w_part w)" "world_inv E m c content w"
    and run: "fill_holes_striped fuel E N cfg m c holders s stats w = Some (r, p)"
  shows "fill_inv E m c content (sp_fill p)"
    and "is_ok r \<Longrightarrow> w_part (f_world (sp_fill p)) = content \<and> w_durable (f_world (sp_fill p)) = content"
proof -
  have out: "fill_inv E m c content (sp_fill p) \<and> (is_ok r \<longrightarrow> resume_is_complete (f_state (sp_fill p)) (tc_count c)
      \<and> w_durable (f_world (sp_fill p)) = w_part (f_world (sp_fill p)))"
    using run unfolding fill_holes_striped_def
    by (rule stripe_loop_inv [OF pin, rotated]) (simp add: fill_start_inv [OF start])
  then show inv: "fill_inv E m c content (sp_fill p)" by blast
  assume "is_ok r"
  with out have "resume_is_complete (f_state (sp_fill p)) (tc_count c)"
      "w_durable (f_world (sp_fill p)) = w_part (f_world (sp_fill p))" by auto
  moreover have "w_part (f_world (sp_fill p)) = content"
    using inv calculation(1) ne pinned_wf [OF pin]
    by (intro complete_backed [OF pin]) (auto simp: fill_inv_def world_inv_def)
  ultimately show "w_part (f_world (sp_fill p)) = content \<and> w_durable (f_world (sp_fill p)) = content" by simp
qed

text \<open>The resume probe behind the creation of the parent directory.\<close>

lemma probed_disk:
  assumes "codec_ok E" "manifest_chunks m = Inr c" "disk_inv E m c content d"
    and "then_io (disk_op E (\<lambda>d. d) d) (\<lambda>_. resume_probe E m c) = (r, d')"
  shows "disk_inv E m c content d' \<and> (\<forall>s. r = Inr s \<longrightarrow> disk_ready E m c content s d')"
proof (cases rule: disk_op_cases[of E "\<lambda>d. d" d])
  case 1
  then have "resume_probe E m c (d\<lparr>dk_ops := Suc (dk_ops d)\<rparr>) = (r, d')" using assms(4) by simp
  then show ?thesis by (rule resume_probe_inv [OF assms(1), rotated 2]) (use assms in auto)
qed (use assms(3,4) in auto)

text \<open>The end of a transfer, for whatever loop filled the partial file.\<close>

lemma finish_or_fail_inv:
  assumes "world_inv E m c content w" and "is_ok r3 \<Longrightarrow> w_part w = content \<and> w_durable w = content"
    and "(case r3 of Inl e \<Rightarrow> (Inl e, from_world d w) | Inr (_ :: unit) \<Rightarrow> finish_download E ow st (from_world d w)) = (r, d')"
  shows "if is_ok r then dk_dest d' = Some content else disk_inv E m c content d'"
proof -
  let ?d = "from_world d w"
  have "world_inv E m c content (to_world ?d)"
    using assms(1) by (simp add: world_inv_def to_world_def from_world_def)
  then have inv: "disk_inv E m c content ?d" by (rule world_inv_disk [rotated]) (simp add: from_world_def)
  show ?thesis
  proof (cases r3)
    case (Inr u)
    then have "dk_part ?d = Some content" "dk_durable ?d = content" using assms(2) by (simp_all add: from_world_def)
    then show ?thesis using finish_download_inv inv assms(3) Inr by simp
  qed (use assms(3) inv in auto)
qed

lemma stripe_manifest_Inr:
  assumes "stripe_manifest (Some root) holders = Inr (m, c)"
  shows "m = bp_manifest (hd holders) \<and> m_root m = root \<and> manifest_chunks m = Inr c"
  using assms by (auto simp: stripe_manifest_def Let_def and_then_Inr split: if_splits)

lemma download_striped_inner_inv:
  assumes codec: "codec_ok E" and pins: "bao_pins (ce_bao E) root content"
    and start: "stripe_manifest (Some root) holders = Inr (m, c)"
    and ne: "m_total_len m = 0 \<Longrightarrow> content = []" and inv: "disk_inv E m c content d"
    and run: "download_striped_inner fuel E N cfg (Some root) holders ow d = Some (r, d')"
  shows "if is_ok r then dk_dest d' = Some content else disk_inv E m c content d'"
proof -
  note m = stripe_manifest_Inr [OF start]
  have pin: "pinned E m c content" using codec pins m by (auto simp: pinned_def)
  obtain r0 d0 where c0: "check_dest E ow d = (r0, d0)" by (meson surj_pair)
  have "d0 = d\<lparr>dk_ops := dk_ops d0\<rparr>" by (rule check_dest_same [OF c0])
  then have inv0: "disk_inv E m c content d0" using inv by (metis disk_inv_upd(1))
  obtain r1 d1 where probe: "then_io (disk_op E (\<lambda>d. d) d0) (\<lambda>_. resume_probe E m c) = (r1, d1)"
    by (meson surj_pair)
  have d1: "disk_inv E m c content d1 \<and> (\<forall>s. r1 = Inr s \<longrightarrow> disk_ready E m c content s d1)"
    by (rule probed_disk [OF codec _ inv0 probe]) (use m in blast)
  obtain r2 d2 where d2: "disk_op E (\<lambda>d. d) d1 = (r2, d2)" by (meson surj_pair)
  then have inv2: "disk_inv E m c content d2" "\<And>s. r1 = Inr s \<Longrightarrow> disk_ready E m c content s d2"
    using d1 by (cases rule: disk_op_cases[of E "\<lambda>d. d" d1]; auto)+
  show ?thesis
  proof (cases "is_ok r0 \<and> is_ok r1 \<and> is_ok r2")
    case False
    then show ?thesis
      using run c0 start probe d2 inv0 d1 inv2(1)
      by (cases r0; cases r1; cases r2) (auto simp: download_striped_inner_def)
  next
    case True
    then obtain s where ok: "r0 = Inr ()" "r1 = Inr s" "r2 = Inr ()" by (auto simp: is_ok_iff)
    note ready = inv2(2) [OF ok(2), unfolded disk_ready_def]
    obtain r3 p where fill: "fill_holes_striped fuel E N cfg m c holders s
          (stats_default\<lparr>ts_chunks_resumed := resume_received s\<rparr>) (to_world d2) = Some (r3, p)"
      and out: "(case r3 of Inl e \<Rightarrow> (Inl e, from_world d2 (f_world (sp_fill p)))
         | Inr _ \<Rightarrow> finish_download E ow (f_stats (sp_fill p)) (from_world d2 (f_world (sp_fill p)))) = (r, d')"
      using run c0 start probe d2 ok by (auto simp: download_striped_inner_def)
    have pre: "resume_for s m c" "backed c content s (w_part (to_world d2))" "world_inv E m c content (to_world d2)"
      using ready by auto
    note fin = fill_holes_striped_correct [OF pin ne pre fill]
    show ?thesis
      using out by (rule finish_or_fail_inv [rotated 2]) (use fin in \<open>auto simp: fill_inv_def\<close>)
  qed
qed

section \<open>What is dealt, and when dealing ends\<close>

definition has_room :: "blob_probe list \<Rightarrow> nat \<Rightarrow> u32 \<Rightarrow> u32 list list \<Rightarrow> nat \<Rightarrow> bool" where
  "has_room holders budget idx asg h \<longleftrightarrow> claims (holders ! h) idx \<and> length (asg ! h) < budget"

lemmas deal_copies_induct = deal_copies.raw_induct [rotated, consumes 1, case_names step]

lemma deal_copies_step:
  assumes "dealt < copies" and "h = live ! (cursor mod length live)"
  shows "deal_copies holders live budget copies idx dealt cursor asg =
     (if has_room holders budget idx asg h
      then deal_copies holders live budget copies idx (Suc dealt) (Suc cursor) (asg[h := asg ! h @ [idx]])
      else if Suc cursor mod length live = 0 \<and> dealt = 0 then Some (Suc cursor, asg)
      else deal_copies holders live budget copies idx dealt (Suc cursor) asg)"
  using assms by (subst deal_copies.simps) (simp add: Let_def has_room_def)

lemma deal_copies_done [simp]:
  "copies \<le> dealt \<Longrightarrow> deal_copies holders live budget copies idx dealt cursor asg = Some (cursor, asg)"
  by (subst deal_copies.simps) simp

lemma deal_second:
  assumes "has_room holders budget idx asg (live ! ((cursor + k) mod length live))"
  shows "\<exists>out. deal_copies holders live budget 2 idx 1 cursor asg = Some out"
  using assms
proof (induction k arbitrary: cursor)
  case 0
  then show ?case by (simp add: deal_copies_step)
next
  case (Suc k)
  then have "\<exists>out. deal_copies holders live budget 2 idx 1 (Suc cursor) asg = Some out" by simp
  then show ?case by (simp add: deal_copies_step)
qed

text \<open>
  Dealing a chunk ends when one copy is wanted, and when two are wanted if every live holder that
  claims the chunk still has room for both.
\<close>

lemma deal_copies_returns:
  assumes "live \<noteq> []" and "\<forall>h \<in> set live. h < length asg" and "copies \<le> 2"
    and room: "copies = 2 \<Longrightarrow> \<forall>h \<in> set live. claims (holders ! h) idx \<longrightarrow> length (asg ! h) + 2 \<le> budget"
  shows "\<exists>out. deal_copies holders live budget copies idx 0 cursor asg = Some out"
proof (induction "length live - cursor mod length live" arbitrary: cursor rule: less_induct)
  case less
  let ?L = "length live" and ?h = "live ! (cursor mod length live)"
  let ?asg = "asg[?h := asg ! ?h @ [idx]]"
  have L: "cursor mod ?L < ?L" using assms(1) by simp
  then have h: "?h \<in> set live" "?h < length asg" using assms(2) by auto
  show ?case
  proof (cases "has_room holders budget idx asg ?h")
    case True
    show ?thesis
    proof (cases "copies = 2")
      case two: True
      have "Suc cursor + (?L - 1) = cursor + ?L" using L by linarith
      then have "(Suc cursor + (?L - 1)) mod ?L = cursor mod ?L" by (simp only: mod_add_self2)
      then have "has_room holders budget idx ?asg (live ! ((Suc cursor + (?L - 1)) mod ?L))"
        using True room [OF two] h by (auto simp: has_room_def)
      from deal_second [OF this] show ?thesis using True two by (simp add: deal_copies_step)
    next
      case False
      then show ?thesis using True assms(3) by (cases "copies = 0") (simp_all add: deal_copies_step)
    qed
  next
    case False
    have "Suc cursor mod ?L \<noteq> 0 \<Longrightarrow> ?L - Suc cursor mod ?L < ?L - cursor mod ?L"
      using L by (auto simp: mod_Suc split: if_splits)
    then show ?thesis using less False by (cases "copies = 0") (auto simp: deal_copies_step)
  qed
qed

text \<open>What a chunk's dealing adds to each share.\<close>

definition dealt_more :: "blob_probe list \<Rightarrow> nat list \<Rightarrow> nat \<Rightarrow> u32 \<Rightarrow> nat \<Rightarrow> u32 list list \<Rightarrow> u32 list list \<Rightarrow> bool" where
  "dealt_more holders live budget idx n asg asg' \<longleftrightarrow> length asg' = length asg
     \<and> (\<forall>h < length asg. \<exists>k \<le> n. asg' ! h = asg ! h @ replicate k idx
          \<and> (k > 0 \<longrightarrow> h \<in> set live \<and> claims (holders ! h) idx \<and> length (asg' ! h) \<le> budget))"

lemma dealt_more_refl: "dealt_more holders live budget idx n asg asg"
  by (auto simp: dealt_more_def intro: exI [of _ 0])

lemma dealt_more_push:
  assumes "has_room holders budget idx asg h" and "h \<in> set live"
    and "dealt_more holders live budget idx n (asg[h := asg ! h @ [idx]]) asg'"
  shows "dealt_more holders live budget idx (Suc n) asg asg'"
  unfolding dealt_more_def
proof (intro conjI allI impI)
  show "length asg' = length asg" using assms(3) by (simp add: dealt_more_def)
  fix g assume g: "g < length asg"
  let ?asg = "asg[h := asg ! h @ [idx]]"
  obtain k where k: "k \<le> n" "asg' ! g = ?asg ! g @ replicate k idx"
      "k > 0 \<longrightarrow> g \<in> set live \<and> claims (holders ! g) idx \<and> length (asg' ! g) \<le> budget"
    using assms(3) g by (auto simp: dealt_more_def)
  show "\<exists>k \<le> Suc n. asg' ! g = asg ! g @ replicate k idx
      \<and> (k > 0 \<longrightarrow> g \<in> set live \<and> claims (holders ! g) idx \<and> length (asg' ! g) \<le> budget)"
  proof (cases "g = h")
    case True
    then have "asg' ! g = asg ! g @ replicate (Suc k) idx"
      using k(2) g by (simp add: replicate_append_same [symmetric])
    moreover have "length (asg' ! g) \<le> budget"
      using k True assms(1) g by (cases "k > 0") (auto simp: has_room_def)
    ultimately show ?thesis using True assms(1,2) k(1) by (intro exI [of _ "Suc k"]) (auto simp: has_room_def)
  next
    case False
    then show ?thesis using k by (intro exI [of _ k]) auto
  qed
qed

lemma deal_copies_more:
  assumes "deal_copies holders live budget copies idx dealt cursor asg = Some out" and "live \<noteq> []"
  shows "dealt_more holders live budget idx (copies - dealt) asg (snd out)"
  using assms
proof (induction rule: deal_copies_induct)
  case (step rec holders live budget copies idx dealt cursor asg out)
  let ?h = "live ! (cursor mod length live)"
  have h: "?h \<in> set live" using step(3) by simp
  show ?case
  proof (cases "dealt < copies")
    case False
    then show ?thesis using step(2) dealt_more_refl by auto
  next
    case lt: True
    show ?thesis
    proof (cases "has_room holders budget idx asg ?h")
      case True
      then have "rec holders live budget copies idx (Suc dealt) (Suc cursor) (asg[?h := asg ! ?h @ [idx]]) = Some out"
        using step(2) lt by (simp add: Let_def has_room_def)
      from step(1) [OF this step(3)] have "dealt_more holders live budget idx (Suc (copies - Suc dealt)) asg (snd out)"
        by (rule dealt_more_push [OF True h])
      then show ?thesis using lt by (simp add: Suc_diff_Suc)
    next
      case False
      then have nr: "\<not> (claims (holders ! ?h) idx \<and> length (asg ! ?h) < budget)" by (simp add: has_room_def)
      then have "out = (Suc cursor, asg) \<or> rec holders live budget copies idx dealt (Suc cursor) asg = Some out"
        using step(2) lt by (simp only: Let_def if_not_P if_P) (simp split: if_splits)
      then show ?thesis
      proof
        assume "rec holders live budget copies idx dealt (Suc cursor) asg = Some out"
        from step(1) [OF this step(3)] show ?thesis .
      qed (simp add: dealt_more_refl)
    qed
  qed
qed

text \<open>With one copy dealt, a second wanted and no room anywhere, the loop goes round for ever.\<close>

lemma deal_spins:
  assumes "0 < dealt" "dealt < copies" "live \<noteq> []" "\<forall>h \<in> set live. \<not> has_room holders budget idx asg h"
  shows "deal_copies holders live budget copies idx dealt cursor asg = None"
proof (rule ccontr)
  assume "deal_copies holders live budget copies idx dealt cursor asg \<noteq> None"
  then obtain out where "deal_copies holders live budget copies idx dealt cursor asg = Some out" by blast
  then have "\<not> (0 < dealt \<and> dealt < copies \<and> live \<noteq> [] \<and> (\<forall>h \<in> set live. \<not> has_room holders budget idx asg h))"
  proof (induction rule: deal_copies_induct)
    case (step rec holders live budget copies idx dealt cursor asg out)
    show ?case
    proof
      assume stuck: "0 < dealt \<and> dealt < copies \<and> live \<noteq> [] \<and> (\<forall>h \<in> set live. \<not> has_room holders budget idx asg h)"
      then have nr: "\<not> (claims (holders ! (live ! (cursor mod length live))) idx
          \<and> length (asg ! (live ! (cursor mod length live))) < budget)" by (simp add: has_room_def [symmetric])
      have "dealt \<noteq> 0" "dealt < copies" using stuck by simp_all
      then have "rec holders live budget copies idx dealt (Suc cursor) asg = Some out"
        using step(2) by (simp only: Let_def if_not_P [OF nr]) simp
      from step(1) [OF this] stuck show False by blast
    qed
  qed
  with assms show False by blast
qed

section \<open>A round's dealing\<close>

text \<open>The shares while the chunks in \<open>done_\<close> have been dealt, in order.\<close>

definition shares_ok :: "blob_probe list \<Rightarrow> nat list \<Rightarrow> nat \<Rightarrow> nat \<Rightarrow> u32 list \<Rightarrow> u32 list list \<Rightarrow> bool" where
  "shares_ok holders live budget copies dealt asg \<longleftrightarrow>
     (\<forall>h < length asg. (asg ! h \<noteq> [] \<longrightarrow> h \<in> set live) \<and> length (asg ! h) \<le> budget
        \<and> length (asg ! h) \<le> copies * length dealt
        \<and> (\<forall>i \<in> set (asg ! h). i \<in> set dealt \<and> claims (holders ! h) i)
        \<and> sorted (asg ! h) \<and> (copies \<le> 1 \<longrightarrow> distinct (asg ! h)))"

lemma shares_ok_start: "shares_ok holders live budget copies [] (replicate n [])"
  by (simp add: shares_ok_def)

lemma shares_ok_more:
  assumes "shares_ok holders live budget copies dealt asg"
    and "dealt_more holders live budget idx copies asg asg'" and "\<forall>i \<in> set dealt. i < idx"
  shows "shares_ok holders live budget copies (dealt @ [idx]) asg'"
  unfolding shares_ok_def
proof (intro allI impI)
  fix h assume "h < length asg'"
  then have h: "h < length asg" using assms(2) by (simp add: dealt_more_def)
  obtain k where k: "k \<le> copies" "asg' ! h = asg ! h @ replicate k idx"
      "k > 0 \<longrightarrow> h \<in> set live \<and> claims (holders ! h) idx \<and> length (asg' ! h) \<le> budget"
    using assms(2) h by (auto simp: dealt_more_def)
  have old: "asg ! h \<noteq> [] \<longrightarrow> h \<in> set live" "length (asg ! h) \<le> budget" "length (asg ! h) \<le> copies * length dealt"
      "\<forall>i \<in> set (asg ! h). i \<in> set dealt \<and> claims (holders ! h) i" "sorted (asg ! h)" "copies \<le> 1 \<longrightarrow> distinct (asg ! h)"
    using assms(1) h by (auto simp: shares_ok_def)
  have lt: "\<forall>i \<in> set (asg ! h). i < idx" using old(4) assms(3) by blast
  have "copies \<le> 1 \<longrightarrow> distinct (asg' ! h)"
    using old(6) lt k(1,2) by (cases k) (auto simp: le_Suc_eq)
  moreover have "sorted (asg' ! h)" using old(5) lt k(2) by (auto simp: sorted_append intro: less_imp_le)
  moreover have "length (asg' ! h) \<le> copies * length (dealt @ [idx])" using old(3) k(1,2) by simp
  ultimately show "(asg' ! h \<noteq> [] \<longrightarrow> h \<in> set live) \<and> length (asg' ! h) \<le> budget
        \<and> length (asg' ! h) \<le> copies * length (dealt @ [idx])
        \<and> (\<forall>i \<in> set (asg' ! h). i \<in> set (dealt @ [idx]) \<and> claims (holders ! h) i)
        \<and> sorted (asg' ! h) \<and> (copies \<le> 1 \<longrightarrow> distinct (asg' ! h))"
    using old k by (cases "k > 0") auto
qed

lemma deal_all_shares:
  assumes "live \<noteq> []" and "sorted_wrt (<) (dealt @ is)" and "shares_ok holders live budget copies dealt asg"
    and "deal_all holders live budget copies is cursor asg = Some asg'"
  shows "length asg' = length asg \<and> shares_ok holders live budget copies (dealt @ is) asg'"
  using assms(2-)
proof (induction "is" arbitrary: dealt cursor asg)
  case (Cons i "is")
  obtain cur asg1 where one: "deal_copies holders live budget copies i 0 cursor asg = Some (cur, asg1)"
      and rest: "deal_all holders live budget copies is cur asg1 = Some asg'"
    using Cons.prems(3) by (auto split: bind_splits)
  have more: "dealt_more holders live budget i copies asg asg1" using deal_copies_more [OF one assms(1)] by simp
  have "shares_ok holders live budget copies (dealt @ [i]) asg1"
    using Cons.prems(1,2) more by (intro shares_ok_more) (auto simp: sorted_wrt_append)
  from Cons.IH [OF _ this rest] Cons.prems(1) more show ?case by (simp add: dealt_more_def)
qed simp

lemma deal_all_returns:
  assumes "live \<noteq> []" and "copies \<le> 2" and "copies = 2 \<Longrightarrow> 2 * (length dealt + length is) \<le> budget"
    and "sorted_wrt (<) (dealt @ is)" and "shares_ok holders live budget copies dealt asg"
    and "\<forall>h \<in> set live. h < length asg"
  shows "\<exists>asg'. deal_all holders live budget copies is cursor asg = Some asg'"
  using assms(3-)
proof (induction "is" arbitrary: dealt cursor asg)
  case (Cons i "is")
  have "length (asg ! h) + 2 \<le> budget" if "copies = 2" "h \<in> set live" for h
  proof -
    have "length (asg ! h) \<le> 2 * length dealt" using Cons.prems(3,4) that by (simp add: shares_ok_def)
    then show ?thesis using Cons.prems(1) that by simp
  qed
  then obtain cur asg1 where one: "deal_copies holders live budget copies i 0 cursor asg = Some (cur, asg1)"
    using deal_copies_returns [OF assms(1) Cons.prems(4) assms(2), of holders i budget cursor] by auto
  have more: "dealt_more holders live budget i copies asg asg1" using deal_copies_more [OF one assms(1)] by simp
  have "shares_ok holders live budget copies (dealt @ [i]) asg1"
    using Cons.prems(2,3) more by (intro shares_ok_more) (auto simp: sorted_wrt_append)
  then have "\<exists>asg'. deal_all holders live budget copies is cur asg1 = Some asg'"
    using Cons.IH [of "dealt @ [i]" asg1 cur] Cons.prems more by (simp add: dealt_more_def)
  then show ?case by (simp add: one)
qed simp

lemma unat_below: "k < unat (n :: u32) \<Longrightarrow> unat (of_nat k :: u32) = k"
  using unat_lt32 [of n] by (simp add: unat_of_nat)

lemma missing_chunks_sorted: "sorted_wrt (<) (missing_chunks s count)"
proof -
  have "sorted_wrt (<) (map (of_nat :: nat \<Rightarrow> u32) [0..<unat count])"
    by (auto simp: sorted_wrt_iff_nth_less word_less_nat_alt unat_below [of _ count])
  then show ?thesis unfolding missing_chunks_def by (rule sorted_wrt_filter)
qed

lemma missing_chunks_set: "i \<in> set (missing_chunks s count) \<longleftrightarrow> i < count \<and> \<not> resume_is_set s i"
  using unat_below [of _ count]
  by (auto simp: missing_chunks_def word_less_nat_alt image_iff intro!: bexI [of _ "unat i"])

definition dealing_ends :: "client_config \<Rightarrow> manifest \<Rightarrow> blob_probe list \<Rightarrow> bool" where
  "dealing_ends cfg m holders \<longleftrightarrow> 4 * max (length holders) 2 \<le> unat (query_budget cfg m)"

lemma live_holders_below: "h \<in> set (live_holders cfg rejects) \<Longrightarrow> h < length rejects"
  by (simp add: live_holders_def)

lemma live_holders_length: "length (live_holders cfg rejects) \<le> length rejects"
  unfolding live_holders_def by (metis diff_zero length_filter_le length_upt)

lemma deal_returns:
  assumes "dealing_ends cfg m holders" and "length rejects = length holders" and "live_holders cfg rejects \<noteq> []"
  shows "\<exists>asg. deal cfg m count holders rejects s = Some asg"
proof -
  let ?live = "live_holders cfg rejects" and ?missing = "missing_chunks s count"
  let ?b = "unat (query_budget cfg m)"
  let ?is = "take (?b * length ?live) ?missing"
  have two: "2 * length ?is \<le> ?b" if "deal_copy_count ?live ?missing = 2"
  proof -
    have "length ?missing \<le> max (length ?live) 2 * 2" using that by (simp add: deal_copy_count_def split: if_splits)
    also have "\<dots> \<le> max (length holders) 2 * 2" using live_holders_length [of cfg rejects] assms(2) by simp
    finally show ?thesis using assms(1) by (simp add: dealing_ends_def)
  qed
  have "sorted_wrt (<) ?is" by (rule sorted_wrt_take [OF missing_chunks_sorted])
  then show ?thesis
    unfolding deal_def Let_def
    using two assms(2,3) shares_ok_start live_holders_below [of _ cfg rejects]
    by (intro deal_all_returns [where dealt = "[]"]) (auto simp: deal_copy_count_def)
qed

text \<open>What a dealt round asks of each holder.\<close>

lemma deal_shares:
  assumes "deal cfg m count holders rejects s = Some asg" and "live_holders cfg rejects \<noteq> []"
  shows "length asg = length holders
    \<and> shares_ok holders (live_holders cfg rejects) (unat (query_budget cfg m))
        (deal_copy_count (live_holders cfg rejects) (missing_chunks s count))
        (take (unat (query_budget cfg m) * length (live_holders cfg rejects)) (missing_chunks s count)) asg"
proof -
  let ?is = "take (unat (query_budget cfg m) * length (live_holders cfg rejects)) (missing_chunks s count)"
  have "sorted_wrt (<) ([] @ ?is)" using sorted_wrt_take [OF missing_chunks_sorted] by simp
  from deal_all_shares [OF assms(2) this shares_ok_start assms(1) [unfolded deal_def Let_def]] show ?thesis by simp
qed

section \<open>Shares as selectors\<close>

lemma coalesce_fold:
  assumes "sorted_wrt (<) is" and "\<forall>i \<in> set is. i < count"
  shows "ranges_sorted count (fold coalesce_step is []) \<and> (\<forall>k. in_ranges (fold coalesce_step is []) k \<longleftrightarrow> k \<in> set is)
    \<and> range_total (fold coalesce_step is []) = length is"
  using assms
proof (induction "is" rule: rev_induct)
  case Nil
  then show ?case by (simp add: ranges_sorted_def in_ranges_def)
next
  case (snoc i "is")
  let ?out = "fold coalesce_step is []"
  have lt: "\<forall>j \<in> set is. j < i" and ic: "i < count" using snoc.prems by (auto simp: sorted_wrt_append)
  have i1: "unat (i + 1) = Suc (unat i)" using ic by (rule unat_Suc_less)
  then have step: "i < i + 1" "i + 1 \<le> count" using ic by (simp_all add: word_less_nat_alt word_le_nat_alt)
  have IH: "ranges_sorted count ?out" "\<forall>k. in_ranges ?out k \<longleftrightarrow> k \<in> set is" "range_total ?out = length is"
    using snoc by (auto simp: sorted_wrt_append)
  have ends: "snd r \<le> i" if "r \<in> set ?out" for r
  proof -
    have r: "fst r < snd r" using IH(1) that by (auto simp: ranges_sorted_def)
    then have "snd r \<noteq> 0" by auto
    then have p: "unat (snd r - 1) = unat (snd r) - 1" by (rule unat_minus_one)
    have "fst r \<le> snd r - 1 \<and> snd r - 1 < snd r" using r by (auto simp: word_le_nat_alt word_less_nat_alt p)
    then have "in_ranges ?out (snd r - 1)" using that unfolding in_ranges_def by blast
    then have "snd r - 1 < i" using IH(2) lt by blast
    then show ?thesis using r by (auto simp: word_le_nat_alt word_less_nat_alt p)
  qed
  have split: "k < i + 1 \<longleftrightarrow> k < i \<or> k = i" for k
    by (auto simp: word_less_nat_alt i1 less_Suc_eq word_unat_eq_iff)
  show ?case
  proof (cases "?out \<noteq> [] \<and> snd (last ?out) = i")
    case True
    then obtain xs a where out: "?out = xs @ [(a, i)]" by (metis append_butlast_last_id prod.collapse)
    have a: "a < i" using IH(1) out by (simp add: ranges_sorted_def)
    have new: "fold coalesce_step (is @ [i]) [] = xs @ [(a, i + 1)]" using out by (simp add: coalesce_step_def)
    have "ranges_sorted count (xs @ [(a, i + 1)])"
      using IH(1) a step unfolding out by (auto simp: ranges_sorted_def sorted_wrt_append)
    moreover have "in_ranges (xs @ [(a, i + 1)]) k \<longleftrightarrow> k \<in> set (is @ [i])" for k
    proof -
      have "in_ranges (xs @ [(a, i + 1)]) k \<longleftrightarrow> in_ranges ?out k \<or> k = i"
        using a unfolding out by (auto simp: in_ranges_def split)
      then show ?thesis using IH(2) by auto
    qed
    moreover have "range_total (xs @ [(a, i + 1)]) = length (is @ [i])"
      using IH(3) i1 a unfolding out by (simp add: range_total_def word_less_nat_alt Suc_diff_le)
    ultimately show ?thesis unfolding new by blast
  next
    case False
    then have new: "fold coalesce_step (is @ [i]) [] = ?out @ [(i, i + 1)]" by (auto simp: coalesce_step_def)
    have "ranges_sorted count (?out @ [(i, i + 1)])"
      using IH(1) ends step by (auto simp: ranges_sorted_def sorted_wrt_append)
    moreover have "in_ranges (?out @ [(i, i + 1)]) k \<longleftrightarrow> k \<in> set (is @ [i])" for k
    proof -
      have "in_ranges (?out @ [(i, i + 1)]) k \<longleftrightarrow> in_ranges ?out k \<or> k = i"
        using step by (auto simp: in_ranges_def split)
      then show ?thesis using IH(2) by auto
    qed
    moreover have "range_total (?out @ [(i, i + 1)]) = length (is @ [i])"
      using IH(3) i1 by (simp add: range_total_def)
    ultimately show ?thesis unfolding new by blast
  qed
qed

text \<open>A share without repeats is a range set the server takes as it is.\<close>

lemma coalesce_accepted:
  assumes "sorted_wrt (<) is" and "\<forall>i \<in> set is. i < count" and "is \<noteq> []" and "length is \<le> unat cap"
  shows "parse_ranges (''ranges='' @ format_ranges (coalesce is)) count cap = Inr (coalesce is)"
    and "in_ranges (coalesce is) k \<Longrightarrow> k \<in> set is"
proof -
  note c = coalesce_fold [OF assms(1,2)]
  have "fold coalesce_step is [] \<noteq> []" using c assms(3) by (cases "is") (auto simp: in_ranges_def)
  then have ne: "coalesce is \<noteq> []" by (simp add: coalesce_def MAX_RANGE_SPANS_def)
  have "range_total (coalesce is) \<le> range_total (fold coalesce_step is [])"
    using range_total_append [of "take MAX_RANGE_SPANS (fold coalesce_step is [])" "drop MAX_RANGE_SPANS (fold coalesce_step is [])"]
    by (simp add: coalesce_def)
  then have "ranges_ok count cap (coalesce is)"
    using c assms(4) ranges_sorted_take by (simp add: ranges_ok_def coalesce_def)
  then show "parse_ranges (''ranges='' @ format_ranges (coalesce is)) count cap = Inr (coalesce is)"
    using ne by (rule parse_format_ranges)
  assume "in_ranges (coalesce is) k"
  then have "in_ranges (fold coalesce_step is []) k" by (auto simp: in_ranges_def coalesce_def dest: in_set_takeD)
  then show "k \<in> set is" using c by blast
qed

section \<open>The rounds end\<close>

lemma stripe_mark_state: "f_state (stripe_mark c i f) = snd (resume_mark (f_state f) i)"
  by (auto simp: stripe_mark_def Let_def resume_mark_def split: prod.splits bool.splits)

lemma stripe_mark_np [simp]: "f_no_progress (stripe_mark c i f) = f_no_progress f"
  by (auto simp: stripe_mark_def Let_def split: prod.splits bool.splits)

definition steady :: "manifest \<Rightarrow> transfer_chunks \<Rightarrow> stripe \<Rightarrow> stripe \<Rightarrow> bool" where
  "steady m c p q \<longleftrightarrow> advances m c (f_state (sp_fill p)) (f_state (sp_fill q))
     \<and> f_no_progress (sp_fill q) = f_no_progress (sp_fill p) \<and> length (sp_rejects q) = length (sp_rejects p)"

lemma steady_refl: "resume_for (f_state (sp_fill p)) m c \<Longrightarrow> steady m c p p"
  by (simp add: steady_def advances_refl)

lemma steady_trans: "steady m c p q \<Longrightarrow> steady m c q r \<Longrightarrow> steady m c p r"
  by (auto simp: steady_def intro: advances_trans)

lemma on_verified_steady:
  assumes "resume_for (f_state (sp_fill p)) m c"
  shows "steady m c p (snd (on_verified E c msg p))"
  using assms advances_refl [OF assms] mark_advances [OF assms]
  by (auto simp: on_verified_def steady_def Let_def on_world_def stripe_mark_state split: prod.splits sum.splits)

lemma stripe_cancel_steady:
  assumes "resume_for (f_state (sp_fill p)) m c"
  shows "steady m c p (snd (stripe_cancel E n p))"
  using advances_refl [OF assms] persist_cancel_np [of True E n "sp_fill p"]
  by (auto simp: stripe_cancel_def steady_def split: prod.splits dest: arg_cong [where f = snd]) (metis persist_cancel_state snd_conv)

lemma stripe_recv_steady:
  assumes "resume_for (f_state (sp_fill p)) m c"
  shows "steady m c p (snd (stripe_recv E m c asked evs p))"
  using assms
proof (induction evs arbitrary: p)
  case (Cons ev evs)
  show ?case
  proof (cases ev)
    case (FromHolder h reply)
    show ?thesis
    proof (cases "stripe_task E m c h reply")
      case (Some msg)
      have one: "steady m c p (snd (on_verified E c msg p))" by (rule on_verified_steady [OF Cons.prems])
      have "steady m c p (snd (then_io (on_verified E c msg p) (\<lambda>_. stripe_recv E m c asked evs)))"
        using one by (rule then_io_inv [where P = "steady m c p"])
          (meson Cons.IH steady_trans steady_def advances_for)
      then show ?thesis using Cons.IH [OF Cons.prems] by (simp add: FromHolder Some)
    qed (simp add: FromHolder Cons.IH [OF Cons.prems])
  qed (simp add: stripe_cancel_steady Cons.prems)
qed (simp add: steady_refl)

lemma stripe_save_steady:
  assumes "resume_for (f_state (sp_fill p)) m c"
  shows "steady m c p (snd (stripe_save E p))"
proof -
  let ?x = "then_io (on_world (commit E) (sp_fill p)) (\<lambda>_. save_if True E)"
  have "f_no_progress (snd ?x) = f_no_progress (sp_fill p)"
    by (rule then_io_inv [where P = "\<lambda>g. f_no_progress g = f_no_progress (sp_fill p)"])
       (simp_all add: on_world_snd save_if_def)
  then show ?thesis
    using advances_refl [OF assms] commit_save_state [of E "sp_fill p" True]
    by (simp add: stripe_save_def steady_def split: prod.splits) (metis snd_conv)
qed

text \<open>Every round that goes round again gains a chunk or spends an attempt.\<close>

lemma settle_decreases:
  assumes "steady m c p p3" and "attempts_ok cfg (sp_fill p)"
    and "stripe_settle cfg n (resume_received (f_state (sp_fill p))) p3 = Continue q"
  shows "resume_for (f_state (sp_fill q)) m c \<and> attempts_ok cfg (sp_fill q) \<and> length (sp_rejects q) = length (sp_rejects p)
    \<and> fill_measure cfg c (sp_fill q) < fill_measure cfg c (sp_fill p)"
proof -
  let ?s = "f_state (sp_fill p)" and ?s3 = "f_state (sp_fill p3)" and ?A = "max_attempts (cc_retry cfg)"
  have st: "resume_for ?s3 m c" "resume_received ?s \<le> resume_received ?s3"
      "f_no_progress (sp_fill p3) = f_no_progress (sp_fill p)" "length (sp_rejects p3) = length (sp_rejects p)"
    using assms(1) by (auto simp: steady_def advances_def)
  have top: "unat (resume_received ?s3) \<le> unat (tc_count c)" by (rule received_le_count [OF st(1)])
  show ?thesis
  proof (cases "resume_received ?s3 = resume_received ?s")
    case True
    then have q: "f_state (sp_fill q) = ?s3" "f_no_progress (sp_fill q) = f_no_progress (sp_fill p) + 1"
        "sp_rejects q = sp_rejects p3" and lt: "\<not> ?A \<le> f_no_progress (sp_fill p) + 1"
      using assms(3) st(3) by (auto simp: stripe_settle_def Let_def split: if_splits)
    have lt': "unat (f_no_progress (sp_fill p) + 1) < unat ?A" using lt by (simp add: word_le_nat_alt)
    have "f_no_progress (sp_fill p) < ?A" using assms(2) lt' by (auto simp: attempts_ok_def word_less_nat_alt)
    then have "unat (f_no_progress (sp_fill p) + 1) = Suc (unat (f_no_progress (sp_fill p)))" by (rule unat_Suc_less)
    with lt' True q st show ?thesis by (simp add: fill_measure_def attempts_ok_def word_less_nat_alt)
  next
    case False
    then have q: "f_state (sp_fill q) = ?s3" "f_no_progress (sp_fill q) = 0" "sp_rejects q = sp_rejects p3"
      using assms(3) by (auto simp: stripe_settle_def Let_def split: if_splits)
    have "unat (resume_received ?s) < unat (resume_received ?s3)"
      using False st(2) by (metis le_neq_implies_less word_le_nat_alt word_unat_eq_iff)
    then have "Suc (unat (tc_count c) - unat (resume_received ?s3)) \<le> unat (tc_count c) - unat (resume_received ?s)"
      using top by linarith
    from mult_le_mono1 [OF this, of "Suc (unat ?A)"] show ?thesis
      using q st by (simp add: fill_measure_def attempts_ok_def)
  qed
qed

lemma stripe_turn_continues:
  assumes rf: "resume_for (f_state (sp_fill p)) m c"
    and turn: "stripe_turn E N cfg m c holders p = Some (Continue q)"
  shows "\<exists>p3. steady m c p p3 \<and> stripe_settle cfg (tc_count c) (resume_received (f_state (sp_fill p))) p3 = Continue q"
proof -
  let ?live = "live_holders cfg (sp_rejects p)" and ?q = "ts_queries (f_stats (sp_fill p))"
  from turn obtain asg where t: "(let reqs = stripe_requests m holders ?live asg in
       case stripe_recv E m c (fst ` set reqs) (N ?q reqs) p of
         (Inl e, p1) \<Rightarrow> Return (Inl e, p1)
       | (Inr _, p1) \<Rightarrow>
           (let f1 = sp_fill p1; st1 = f_stats f1;
                p2 = p1\<lparr>sp_fill := f1\<lparr>f_stats := st1\<lparr>ts_queries := ts_queries st1 + of_nat (length ?live)\<rparr>\<rparr>\<rparr>
            in case stripe_save E p2 of
                 (Inl e, p3) \<Rightarrow> Return (Inl e, p3)
               | (Inr _, p3) \<Rightarrow> stripe_settle cfg (tc_count c) (resume_received (f_state (sp_fill p))) p3)) = Continue q"
    by (auto simp: stripe_turn_def Let_def split: if_splits)
  let ?reqs = "stripe_requests m holders ?live asg"
  obtain r p1 where recv: "stripe_recv E m c (fst ` set ?reqs) (N ?q ?reqs) p = (r, p1)" by (meson surj_pair)
  let ?p2 = "p1\<lparr>sp_fill := (sp_fill p1)\<lparr>f_stats := (f_stats (sp_fill p1))
      \<lparr>ts_queries := ts_queries (f_stats (sp_fill p1)) + of_nat (length ?live)\<rparr>\<rparr>\<rparr>"
  obtain r3 p3 where save: "stripe_save E ?p2 = (r3, p3)" by (meson surj_pair)
  have "steady m c p p1" using stripe_recv_steady [OF rf] recv by (metis snd_conv)
  then have two: "steady m c p ?p2" "resume_for (f_state (sp_fill ?p2)) m c" by (simp_all add: steady_def advances_def)
  then have "steady m c p p3" using stripe_save_steady [OF two(2), of E] save steady_trans by (metis snd_conv)
  moreover have "(case r of Inl e \<Rightarrow> Return (Inl e, p1) | Inr _ \<Rightarrow>
      (case r3 of Inl e \<Rightarrow> Return (Inl e, p3)
       | Inr _ \<Rightarrow> stripe_settle cfg (tc_count c) (resume_received (f_state (sp_fill p))) p3)) = Continue q"
    using t unfolding Let_def recv save prod.case .
  ultimately show ?thesis by (auto split: sum.splits)
qed

lemma stripe_turn_some:
  assumes "dealing_ends cfg m holders" and "length (sp_rejects p) = length holders"
  shows "\<exists>t. stripe_turn E N cfg m c holders p = Some t"
  using deal_returns [OF assms] by (fastforce simp: stripe_turn_def Let_def)

lemma stripe_loop_returns:
  assumes "dealing_ends cfg m holders"
  shows "resume_for (f_state (sp_fill p)) m c \<Longrightarrow> attempts_ok cfg (sp_fill p) \<Longrightarrow> length (sp_rejects p) = length holders
    \<Longrightarrow> fill_measure cfg c (sp_fill p) < fuel \<Longrightarrow> \<exists>out. stripe_loop fuel E N cfg m c holders p = Some out"
proof (induction fuel arbitrary: p)
  case (Suc fuel)
  obtain t where t: "stripe_turn E N cfg m c holders p = Some t" using stripe_turn_some [OF assms Suc.prems(3)] by blast
  show ?case
  proof (cases t)
    case (Continue q)
    obtain p3 where "steady m c p p3"
        "stripe_settle cfg (tc_count c) (resume_received (f_state (sp_fill p))) p3 = Continue q"
      using stripe_turn_continues [OF Suc.prems(1)] t Continue by blast
    from settle_decreases [OF this(1) Suc.prems(2) this(2)] Suc show ?thesis by (simp add: t Continue)
  qed (simp_all add: t)
qed simp

lemma fill_holes_striped_returns:
  assumes "dealing_ends cfg m holders" and "resume_for s m c" and "fill_fuel cfg c \<le> fuel"
  shows "\<exists>out. fill_holes_striped fuel E N cfg m c holders s stats w = Some out"
proof -
  let ?f = "fill_start c 0 s stats w" and ?A = "unat (max_attempts (cc_retry cfg))"
  have "fill_measure cfg c ?f \<le> unat (tc_count c) * Suc ?A + ?A"
    by (simp add: fill_measure_def fill_start_def del: mult_Suc_right)
  also have "\<dots> < fill_fuel cfg c" by (simp add: fill_fuel_def)
  finally have "fill_measure cfg c ?f < fuel" using assms(3) by simp
  then show ?thesis
    unfolding fill_holes_striped_def using assms(2)
    by (intro stripe_loop_returns [OF assms(1)]) (simp_all add: fill_start_def attempts_ok_def)
qed

end
