(* ===== verification/Client.thy ===== *)
theory Client
  imports Striping_Props
begin

text \<open>
  The rest of the download client (\<open>src/src/client.rs\<close>): its configuration, the calls around a
  transfer (single flight per destination, staging, striping, downloads into a writer), and
  the probes that ask every origin what it holds.
\<close>

section \<open>Configuration\<close>

definition retry_default :: retry_policy where
  "retry_default = \<lparr>max_attempts = 5, base_backoff = 250000000, max_backoff = 10000000000\<rparr>"

definition config_default :: "query_prefix \<Rightarrow> client_config" where
  "config_default prefix = \<lparr>cc_prefix = prefix, cc_retry = retry_default, cc_max_chunks_per_query = 512,
     cc_max_blob_size = push_bit 40 1\<rparr>"

record blob_client =
  bc_cfg :: client_config
  bc_max_probe_replies :: nat
  bc_overwrite :: overwrite
  bc_active :: "string set"

definition blob_client_new :: "query_prefix \<Rightarrow> blob_client" where
  "blob_client_new prefix =
     \<lparr>bc_cfg = config_default prefix, bc_max_probe_replies = 256, bc_overwrite = Refuse, bc_active = {}\<rparr>"

definition with_retry :: "retry_policy \<Rightarrow> blob_client \<Rightarrow> blob_client" where
  "with_retry r c = c\<lparr>bc_cfg := (bc_cfg c)\<lparr>cc_retry := r\<rparr>\<rparr>"

definition with_max_chunks_per_query :: "u32 \<Rightarrow> blob_client \<Rightarrow> blob_client" where
  "with_max_chunks_per_query n c = c\<lparr>bc_cfg := (bc_cfg c)\<lparr>cc_max_chunks_per_query := max n 1\<rparr>\<rparr>"

definition with_max_blob_size :: "u64 \<Rightarrow> blob_client \<Rightarrow> blob_client" where
  "with_max_blob_size b c = c\<lparr>bc_cfg := (bc_cfg c)\<lparr>cc_max_blob_size := b\<rparr>\<rparr>"

definition with_overwrite :: "overwrite \<Rightarrow> blob_client \<Rightarrow> blob_client" where
  "with_overwrite ow c = c\<lparr>bc_overwrite := ow\<rparr>"

record download_request =
  dr_id :: string
  dr_expected_root :: "hash option"

definition request_new :: "string \<Rightarrow> download_request" where
  "request_new bid = \<lparr>dr_id = bid, dr_expected_root = None\<rparr>"

definition request_pinned :: "string \<Rightarrow> hash \<Rightarrow> download_request" where
  "request_pinned bid root = \<lparr>dr_id = bid, dr_expected_root = Some root\<rparr>"

definition request_by_root :: "hash \<Rightarrow> download_request" where
  "request_by_root root = \<lparr>dr_id = hash_display root, dr_expected_root = Some root\<rparr>"

section \<open>Calls around a transfer\<close>

text \<open>A failure, other than a cancellation, is also a progress event.\<close>

definition report_failure :: "'a res \<Rightarrow> disk \<Rightarrow> disk" where
  "report_failure r d =
     (case r of
        Inl e \<Rightarrow> if is_cancelled_error e then d else d\<lparr>dk_progress := dk_progress d @ [Failed]\<rparr>
      | Inr _ \<Rightarrow> d)"

definition run_download_to ::
  "nat \<Rightarrow> client_env \<Rightarrow> blob_client \<Rightarrow> download_request \<Rightarrow> string \<Rightarrow> overwrite \<Rightarrow> nat \<Rightarrow> disk
   \<Rightarrow> (transfer_stats res \<times> blob_client \<times> disk) option" where
  "run_download_to fuel E c req dest ow now d =
     (case guard_acquire (bc_active c) dest of
        Inl e \<Rightarrow> Some (Inl e, c, d)
      | Inr active \<Rightarrow>
          map_option (\<lambda>(r, d'). (r, c\<lparr>bc_active := guard_drop dest active\<rparr>, report_failure r d'))
            (download_to_inner fuel E (bc_cfg c) (dr_id req) (dr_expected_root req) ow now d))"

definition run_download_striped ::
  "nat \<Rightarrow> client_env \<Rightarrow> stripe_net \<Rightarrow> blob_client \<Rightarrow> download_request \<Rightarrow> string \<Rightarrow> blob_probe list \<Rightarrow> overwrite \<Rightarrow> nat
   \<Rightarrow> disk \<Rightarrow> (transfer_stats res \<times> blob_client \<times> disk) option" where
  "run_download_striped fuel E N c req dest holders ow now d =
     (if length holders < 2 then run_download_to fuel E c req dest ow now d
      else case guard_acquire (bc_active c) dest of
        Inl e \<Rightarrow> Some (Inl e, c, d)
      | Inr active \<Rightarrow>
          map_option (\<lambda>(r, d'). (r, c\<lparr>bc_active := guard_drop dest active\<rparr>, report_failure r d'))
            (download_striped_inner fuel E N (bc_cfg c) (dr_expected_root req) holders ow d))"

text \<open>The awaited \<open>Download\<close>: the transfer's own overwrite policy or the client's, striped or not.\<close>

definition run_download ::
  "nat \<Rightarrow> client_env \<Rightarrow> stripe_net \<Rightarrow> blob_client \<Rightarrow> download_request \<Rightarrow> string \<Rightarrow> overwrite option
   \<Rightarrow> blob_probe list option \<Rightarrow> nat \<Rightarrow> disk \<Rightarrow> (transfer_stats res \<times> blob_client \<times> disk) option" where
  "run_download fuel E N c req dest ow holders now d =
     (let policy = (case ow of Some p \<Rightarrow> p | None \<Rightarrow> bc_overwrite c) in
      case holders of
        Some hs \<Rightarrow> run_download_striped fuel E N c req dest hs policy now d
      | None \<Rightarrow> run_download_to fuel E c req dest policy now d)"

record staged =
  st_path :: string
  st_suggested :: "string option"
  st_stats :: transfer_stats

text \<open>
  A staged download: the file is named by the id, and the suggested name is asked for again
  afterwards, in the environment \<open>later\<close>.
\<close>

definition run_download_staged ::
  "nat \<Rightarrow> client_env \<Rightarrow> client_env \<Rightarrow> blob_client \<Rightarrow> download_request \<Rightarrow> string \<Rightarrow> overwrite \<Rightarrow> nat \<Rightarrow> disk
   \<Rightarrow> (staged res \<times> blob_client \<times> disk) option" where
  "run_download_staged fuel E later c req dir ow now d =
     (case validate_id (dr_id req) of
        Inl e \<Rightarrow> Some (Inl e, c, d)
      | Inr _ \<Rightarrow>
          (case disk_op E (\<lambda>d. d) d of
             (Inl e, d0) \<Rightarrow> Some (Inl e, c, d0)
           | (Inr _, d0) \<Rightarrow>
               (let path = dir @ ''/'' @ dr_id req in
                map_option
                  (\<lambda>(r, c', d'). case r of
                     Inl e \<Rightarrow> (Inl e, c', d')
                   | Inr stats \<Rightarrow>
                       (Inr \<lparr>st_path = path,
                             st_suggested = (case fetch_manifest_matching later (bc_cfg c) (dr_id req) (dr_expected_root req) of
                                               Inr m \<Rightarrow> suggested_filename m | Inl _ \<Rightarrow> None),
                             st_stats = stats\<rparr>, c', d'))
                  (run_download_to fuel E c req path ow now d0))))"

text \<open>
  A download into a writer has no partial file and no sidecar: the loop runs without saving, and
  the writer's content is the \<open>w_part\<close> of its world.
\<close>

definition run_download_to_writer ::
  "nat \<Rightarrow> client_env \<Rightarrow> client_config \<Rightarrow> download_request \<Rightarrow> nat \<Rightarrow> world \<Rightarrow> (transfer_stats res \<times> world) option" where
  "run_download_to_writer fuel E cfg req now w =
     (case start_download E cfg (dr_id req) (dr_expected_root req) of
        Inl e \<Rightarrow> Some (Inl e, w)
      | Inr (m, c) \<Rightarrow>
          map_option
            (\<lambda>(r, f). case r of
               Inr _ \<Rightarrow> (Inr (f_stats f), f_world f)
             | Inl e \<Rightarrow> (Inl e, if is_cancelled_error e then f_world f else emit Failed (f_world f)))
            (fill_holes fuel False E cfg m c now (resume_fresh m (tc_count c)) stats_default
               (emit (Started (m_total_len m) (tc_count c)) w)))"

definition delete_partial :: "client_env \<Rightarrow> disk \<Rightarrow> disk" where
  "delete_partial E d =
     snd (disk_op E (\<lambda>d. d\<lparr>dk_sidecar := Inl IoNotFound\<rparr>)
       (snd (disk_op E (\<lambda>d. d\<lparr>dk_part := None\<rparr>) d)))"

section \<open>Probing\<close>

text \<open>What a probe calls: the two queries, the decoders and zenoh's check of a key expression.\<close>

record probe_env =
  pv_valid_ke :: "string \<Rightarrow> bool"
  pv_dec_manifest :: "bytes \<Rightarrow> manifest res"
  pv_dec_avail :: "bytes \<Rightarrow> availability res"
  pv_manifest_replies :: "string \<Rightarrow> query_outcome"
  pv_have_replies :: "string \<Rightarrow> query_outcome"

text \<open>A manifest reply that names a new origin is a holder.\<close>

definition probe_entry ::
  "probe_env \<Rightarrow> client_config \<Rightarrow> string \<Rightarrow> blob_probe list \<Rightarrow> unit + sample \<Rightarrow> blob_probe option" where
  "probe_entry P cfg bid found reply =
     (case reply of
        Inl _ \<Rightarrow> None
      | Inr sm \<Rightarrow>
          if sm_encoding sm \<noteq> ENC_MANIFEST then None
          else case origin_of (sm_key sm) bid ''manifest'' of
            None \<Rightarrow> None
          | Some origin \<Rightarrow>
              (case pv_dec_manifest P (sm_payload sm) of
                 Inl _ \<Rightarrow> None
               | Inr m \<Rightarrow>
                   if \<not> is_ok (manifest_validate m (cc_max_blob_size cfg)) \<or> m_id m \<noteq> bid then None
                   else (case query_prefix_new (pv_valid_ke P) origin of
                           Inl _ \<Rightarrow> None
                         | Inr o' \<Rightarrow>
                             if \<exists>p \<in> set found. bp_origin p = o' then None
                             else Some \<lparr>bp_origin = o', bp_manifest = m, bp_availability = None\<rparr>)))"

fun probe_manifests ::
  "probe_env \<Rightarrow> client_config \<Rightarrow> nat \<Rightarrow> string \<Rightarrow> blob_probe list \<Rightarrow> recv list \<Rightarrow> blob_probe list" where
  "probe_manifests P cfg cap bid found (Recv reply t # rs) =
     (if length found \<ge> cap then found
      else probe_manifests P cfg cap bid
             (case probe_entry P cfg bid found reply of None \<Rightarrow> found | Some e \<Rightarrow> found @ [e]) rs)"
| "probe_manifests P cfg cap bid found _ = found"

text \<open>\<open>iter_mut().find\<close>: the first entry of the origin.\<close>

fun attach_availability :: "string \<Rightarrow> availability \<Rightarrow> blob_probe list \<Rightarrow> blob_probe list" where
  "attach_availability origin a [] = []"
| "attach_availability origin a (p # ps) =
     (if bp_origin p = origin
      then (let cap = (case manifest_chunk_count (bp_manifest p) of Inr n \<Rightarrow> n | Inl _ \<Rightarrow> U32_MAX) in
            (if is_ok (availability_validate a cap) then p\<lparr>bp_availability := Some a\<rparr> else p) # ps)
      else p # attach_availability origin a ps)"

definition note_have :: "probe_env \<Rightarrow> string \<Rightarrow> unit + sample \<Rightarrow> blob_probe list \<Rightarrow> blob_probe list" where
  "note_have P bid reply found =
     (case reply of
        Inl _ \<Rightarrow> found
      | Inr sm \<Rightarrow>
          if sm_encoding sm \<noteq> ENC_AVAIL then found
          else case origin_of (sm_key sm) bid ''have'' of
            None \<Rightarrow> found
          | Some origin \<Rightarrow>
              (case pv_dec_avail P (sm_payload sm) of
                 Inl _ \<Rightarrow> found
               | Inr a \<Rightarrow> attach_availability origin a found))"

fun probe_haves :: "probe_env \<Rightarrow> string \<Rightarrow> blob_probe list \<Rightarrow> recv list \<Rightarrow> blob_probe list" where
  "probe_haves P bid found (Recv reply t # rs) = probe_haves P bid (note_have P bid reply found) rs"
| "probe_haves P bid found _ = found"

definition client_probe :: "probe_env \<Rightarrow> blob_client \<Rightarrow> string \<Rightarrow> blob_probe list res" where
  "client_probe P c bid =
     and_then (validate_id bid) (\<lambda>_.
       case pv_manifest_replies P (manifest_key (cc_prefix (bc_cfg c)) bid) of
         QueryFailed \<Rightarrow> Inl Zenoh
       | Replies rs \<Rightarrow>
           (let found = probe_manifests P (bc_cfg c) (bc_max_probe_replies c) bid [] rs in
            if found = [] then Inr []
            else case pv_have_replies P (availability_key (cc_prefix (bc_cfg c)) bid) of
                   QueryFailed \<Rightarrow> Inl Zenoh
                 | Replies hs \<Rightarrow> Inr (probe_haves P bid found hs)))"

text \<open>The cap a bare availability reply is validated against: \<open>div_ceil\<close> in 64 bits, cut to 32.\<close>

definition availability_cap :: "client_config \<Rightarrow> u32" where
  "availability_cap cfg = ucast (div_ceil (cc_max_blob_size cfg) (ucast MIN_CHUNK_SIZE))"

fun availability_replies ::
  "probe_env \<Rightarrow> client_config \<Rightarrow> nat \<Rightarrow> availability list \<Rightarrow> recv list \<Rightarrow> availability list" where
  "availability_replies P cfg cap out (Recv reply t # rs) =
     (if length out \<ge> cap then out
      else availability_replies P cfg cap
        (case reply of
           Inl _ \<Rightarrow> out
         | Inr sm \<Rightarrow>
             if sm_encoding sm \<noteq> ENC_AVAIL then out
             else case pv_dec_avail P (sm_payload sm) of
                    Inl _ \<Rightarrow> out
                  | Inr a \<Rightarrow> if is_ok (availability_validate a (availability_cap cfg)) then out @ [a] else out) rs)"
| "availability_replies P cfg cap out _ = out"

definition fetch_availability :: "probe_env \<Rightarrow> blob_client \<Rightarrow> string \<Rightarrow> availability list res" where
  "fetch_availability P c bid =
     and_then (validate_id bid) (\<lambda>_.
       case pv_have_replies P (availability_key (cc_prefix (bc_cfg c)) bid) of
         QueryFailed \<Rightarrow> Inl Zenoh
       | Replies rs \<Rightarrow> Inr (availability_replies P (bc_cfg c) (bc_max_probe_replies c) [] rs))"

end
