(* ===== verification/Client_Props.thy ===== *)
theory Client_Props
  imports Client
begin

text \<open>The calls around a transfer and the probes: what they return.\<close>

section \<open>Probes\<close>

definition probe_ok :: "probe_env \<Rightarrow> client_config \<Rightarrow> string \<Rightarrow> blob_probe \<Rightarrow> bool" where
  "probe_ok P cfg bid p \<longleftrightarrow> m_id (bp_manifest p) = bid \<and> manifest_validate (bp_manifest p) (cc_max_blob_size cfg) = Inr ()
     \<and> query_prefix_new (pv_valid_ke P) (bp_origin p) = Inr (bp_origin p)
     \<and> (\<forall>a n. bp_availability p = Some a \<longrightarrow> manifest_chunk_count (bp_manifest p) = Inr n \<longrightarrow>
          availability_validate a n = Inr ())"

lemma is_ok_unit: "is_ok (r :: unit res) \<longleftrightarrow> r = Inr ()"
  by (auto simp: is_ok_iff)

lemma probe_entry_ok:
  assumes "probe_entry P cfg bid found reply = Some e"
  shows "probe_ok P cfg bid e \<and> bp_origin e \<notin> bp_origin ` set found"
  using assms
  by (auto simp: probe_entry_def probe_ok_def is_ok_unit query_prefix_new_def and_then_Inr
      split: sum.splits if_splits option.splits)

lemma probe_manifests_ok:
  assumes "\<forall>p \<in> set found. probe_ok P cfg bid p" and "distinct (map bp_origin found)" and "length found \<le> cap"
  shows "(\<forall>p \<in> set (probe_manifests P cfg cap bid found rs). probe_ok P cfg bid p)
    \<and> distinct (map bp_origin (probe_manifests P cfg cap bid found rs)) \<and> length (probe_manifests P cfg cap bid found rs) \<le> cap"
  using assms
proof (induction P cfg cap bid found rs rule: probe_manifests.induct)
  case (1 P cfg cap bid found reply t rs)
  show ?case
  proof (cases "cap \<le> length found")
    case False
    let ?f = "case probe_entry P cfg bid found reply of None \<Rightarrow> found | Some e \<Rightarrow> found @ [e]"
    have "\<forall>p \<in> set ?f. probe_ok P cfg bid p" "distinct (map bp_origin ?f)" "length ?f \<le> cap"
      using "1.prems" False probe_entry_ok [of P cfg bid found reply] by (auto split: option.splits)
    from "1.IH" [OF False this] show ?thesis using False by simp
  qed (use "1.prems" in simp)
qed simp_all

lemma attach_availability_ok:
  assumes "\<forall>p \<in> set found. probe_ok P cfg bid p"
  shows "(\<forall>p \<in> set (attach_availability origin a found). probe_ok P cfg bid p)
    \<and> map bp_origin (attach_availability origin a found) = map bp_origin found
    \<and> map bp_manifest (attach_availability origin a found) = map bp_manifest found"
  using assms
proof (induction found)
  case (Cons p ps)
  let ?cap = "case manifest_chunk_count (bp_manifest p) of Inr n \<Rightarrow> n | Inl _ \<Rightarrow> U32_MAX"
  have "probe_ok P cfg bid (p\<lparr>bp_availability := Some a\<rparr>)" if "is_ok (availability_validate a ?cap)"
    using Cons.prems that by (auto simp: probe_ok_def is_ok_unit)
  then show ?case using Cons by (cases "bp_origin p = origin") (auto simp: Let_def)
qed simp

lemma probe_haves_ok:
  assumes "\<forall>p \<in> set found. probe_ok P cfg bid p"
  shows "(\<forall>p \<in> set (probe_haves P bid found rs). probe_ok P cfg bid p)
    \<and> map bp_origin (probe_haves P bid found rs) = map bp_origin found
    \<and> map bp_manifest (probe_haves P bid found rs) = map bp_manifest found"
  using assms
proof (induction P bid found rs rule: probe_haves.induct)
  case (1 P bid found reply t rs)
  let ?f = "note_have P bid reply found"
  have "(\<forall>p \<in> set ?f. probe_ok P cfg bid p) \<and> map bp_origin ?f = map bp_origin found \<and> map bp_manifest ?f = map bp_manifest found"
    using "1.prems" attach_availability_ok [OF "1.prems"] by (auto simp: note_have_def split: sum.splits option.splits)
  then show ?case using "1.IH" by simp
qed simp_all

lemma client_probe_Inr:
  assumes "client_probe P c bid = Inr found"
  shows "(\<forall>p \<in> set found. probe_ok P (bc_cfg c) bid p) \<and> distinct (map bp_origin found)
    \<and> length found \<le> bc_max_probe_replies c"
proof -
  obtain rs where found: "found = [] \<or> (\<exists>hs. found = probe_haves P bid (probe_manifests P (bc_cfg c) (bc_max_probe_replies c) bid [] rs) hs)"
    using assms by (auto simp: client_probe_def and_then_Inr Let_def split: query_outcome.splits if_splits)
  let ?ms = "probe_manifests P (bc_cfg c) (bc_max_probe_replies c) bid [] rs"
  have m: "\<forall>p \<in> set ?ms. probe_ok P (bc_cfg c) bid p" "distinct (map bp_origin ?ms)" "length ?ms \<le> bc_max_probe_replies c"
    using probe_manifests_ok [of "[]" P "bc_cfg c" bid "bc_max_probe_replies c" rs] by simp_all
  from found show ?thesis
  proof
    assume "\<exists>hs. found = probe_haves P bid ?ms hs"
    then obtain hs where hs: "found = probe_haves P bid ?ms hs" by blast
    have ok: "\<forall>p \<in> set found. probe_ok P (bc_cfg c) bid p" "map bp_origin found = map bp_origin ?ms"
      using probe_haves_ok [OF m(1), of hs] by (simp_all add: hs)
    then have "length found = length ?ms" by (metis length_map)
    with ok m show ?thesis by simp
  qed simp
qed

section \<open>Transfers\<close>

text \<open>A call leaves the client as it found it, and refuses a destination that is in use.\<close>

lemma guard_roundtrip: "guard_acquire active dest = Inr act \<Longrightarrow> guard_drop dest act = active"
  by (auto simp: guard_acquire_def guard_drop_def split: if_splits)

lemma report_failure_same [simp]:
  "disk_inv E m c content (report_failure r d) = disk_inv E m c content d" "dk_dest (report_failure r d) = dk_dest d"
  by (auto simp: report_failure_def split: sum.splits)

lemma run_download_striped_inv:
  assumes codec: "codec_ok E" and pins: "bao_pins (ce_bao E) root content"
    and "2 \<le> length holders" and "stripe_manifest (Some root) holders = Inr (m, ch)"
    and ne: "m_total_len m = 0 \<Longrightarrow> content = []" and inv: "disk_inv E m ch content d" and "dr_expected_root req = Some root"
    and run: "run_download_striped fuel E N c req dest holders ow now d = Some (r, c', d')"
  shows "c' = c \<and> (if is_ok r then dk_dest d' = Some content else disk_inv E m ch content d')"
proof (cases "guard_acquire (bc_active c) dest")
  case (Inl e)
  then show ?thesis using assms by (auto simp: run_download_striped_def)
next
  case (Inr active)
  then obtain d1 where d1: "download_striped_inner fuel E N (bc_cfg c) (Some root) holders ow d = Some (r, d1)"
      "d' = report_failure r d1" "c' = c\<lparr>bc_active := guard_drop dest active\<rparr>"
    using assms(3,7) run by (auto simp: run_download_striped_def)
  have "c' = c" using d1(3) guard_roundtrip [OF Inr] by simp
  moreover have "if is_ok r then dk_dest d1 = Some content else disk_inv E m ch content d1"
    using download_striped_inner_inv [OF codec pins assms(4) ne inv d1(1)] .
  ultimately show ?thesis using d1(2) by simp
qed

lemma download_striped_inner_returns:
  assumes "dealing_ends cfg m holders" and "stripe_manifest root holders = Inr (m, c)" and "fill_fuel cfg c \<le> fuel"
  shows "\<exists>out. download_striped_inner fuel E N cfg root holders ow d = Some out"
proof -
  obtain r0 d0 where c0: "check_dest E ow d = (r0, d0)" by (meson surj_pair)
  obtain r1 d1 where probe: "then_io (disk_op E (\<lambda>d. d) d0) (\<lambda>_. resume_probe E m c) = (r1, d1)" by (meson surj_pair)
  obtain r2 d2 where d2: "disk_op E (\<lambda>d. d) d1 = (r2, d2)" by (meson surj_pair)
  have mc: "manifest_chunks m = Inr c" using assms(2) by (auto simp: stripe_manifest_def Let_def and_then_Inr split: if_splits)
  have "resume_for s m c" if "r1 = Inr s" for s
    using probe that resume_probe_for [OF mc] by (auto simp: then_io_Inr)
  then have "\<exists>out. fill_holes_striped fuel E N cfg m c holders s st w = Some out" if "r1 = Inr s" for s st w
    using fill_holes_striped_returns [OF assms(1) _ assms(3)] that by blast
  note fill = this
  show ?thesis
  proof (cases "is_ok r0 \<and> is_ok r1 \<and> is_ok r2")
    case True
    then obtain s where s: "r0 = Inr ()" "r1 = Inr s" "r2 = Inr ()" by (auto simp: is_ok_iff)
    obtain out where "fill_holes_striped fuel E N cfg m c holders s
        (stats_default\<lparr>ts_chunks_resumed := resume_received s\<rparr>) (to_world d2) = Some out" using fill [OF s(2)] by blast
    then show ?thesis using assms(2) c0 probe d2 s by (simp add: download_striped_inner_def)
  next
    case False
    then show ?thesis
      using assms(2) c0 probe d2 by (cases r0; cases r1; cases r2) (auto simp: download_striped_inner_def)
  qed
qed

text \<open>A writer that is as long as the blob ends up with the blob.\<close>

lemma run_download_to_writer_inv:
  assumes codec: "codec_ok E" and pins: "bao_pins (ce_bao E) root content"
    and empty: "root = ce_blake3 E [] \<Longrightarrow> content = []"
    and start: "start_download E cfg (dr_id req) (Some root) = Inr (m, c)" and "dr_expected_root req = Some root"
    and w: "length (w_part w) = unat (m_total_len m)" "length (w_durable w) = unat (m_total_len m)" "w_sidecar w = Inl IoNotFound"
    and run: "run_download_to_writer fuel E cfg req now w = Some (Inr st, w')"
  shows "w_part w' = content \<and> w_durable w' = content"
proof -
  note m = start_download_Inr [OF start]
  have pin: "pinned E m c content" using codec pins m by (auto simp: pinned_def)
  let ?w = "emit (Started (m_total_len m) (tc_count c)) w" and ?s = "resume_fresh m (tc_count c)"
  obtain r f where rf: "fill_holes fuel False E cfg m c now ?s stats_default ?w = Some (r, f)"
      "(case r of Inr _ \<Rightarrow> (Inr (f_stats f), f_world f)
         | Inl e \<Rightarrow> (Inl e, if is_cancelled_error e then f_world f else emit Failed (f_world f))) = (Inr st, w')"
    using run start assms(5) by (auto simp: run_download_to_writer_def)
  then have f: "fill_holes fuel False E cfg m c now ?s stats_default ?w = Some (Inr (), f)" "w' = f_world f"
    by (cases r; simp)+
  have "tc_total_len c = m_total_len m" using pinned_wf [OF pin] by blast
  then have "world_inv E m c content ?w"
    using w by (simp add: world_inv_def emit_def sidecar_backed_def resume_load_def)
  with fill_holes_correct [OF pin _ _ fresh_backed _ f(1)] m empty show ?thesis
    by (auto simp: f(2) resume_for_fresh)
qed

end
