(* ===== verification/Containers.thy ===== *)
theory Containers
  imports Wire Strings
begin

text \<open>
  Chunk containers (\<open>src/src/compress.rs\<close>) and sealing at rest (\<open>src/src/crypt.rs\<close>). Zstd,
  the AEAD cipher and the key derivation are other crates: a \<open>crates\<close> record holds their entry
  points. Without the cargo feature, \<open>cr_zstd\<close> is \<open>None\<close>.
\<close>

datatype container_error = Unsupported | Corrupt

datatype chunk_compression = NoCompression | Zstd int

definition TAG_RAW :: u8 where "TAG_RAW = 0"
definition TAG_ZSTD :: u8 where "TAG_ZSTD = 1"
definition TAG_SEALED :: u8 where "TAG_SEALED = 2"

lemmas tag_defs = TAG_RAW_def TAG_ZSTD_def TAG_SEALED_def

definition MAX_UNPACKED :: nat where "MAX_UNPACKED = 16 * 1024 * 1024"

record zstd =
  zstd_compress :: "bytes \<Rightarrow> int \<Rightarrow> io_error + bytes"
  zstd_decompress :: "bytes \<Rightarrow> nat \<Rightarrow> io_error + bytes"

record crates =
  cr_zstd :: "zstd option"
  cr_blake3 :: "bytes \<Rightarrow> hash"
  cr_derive_key :: "string \<Rightarrow> bytes \<Rightarrow> bytes"
  cr_keyed_hash :: "bytes \<Rightarrow> bytes \<Rightarrow> bytes"
  cr_encrypt :: "bytes \<Rightarrow> bytes \<Rightarrow> bytes \<Rightarrow> bytes \<Rightarrow> bytes option"
  cr_decrypt :: "bytes \<Rightarrow> bytes \<Rightarrow> bytes \<Rightarrow> bytes \<Rightarrow> bytes option"

section \<open>Framing\<close>

definition pack_raw :: "bytes \<Rightarrow> bytes" where
  "pack_raw bs = TAG_RAW # bs"

definition pack :: "crates \<Rightarrow> bytes \<Rightarrow> chunk_compression \<Rightarrow> bytes res" where
  "pack C bs compression =
     (case compression of
        NoCompression \<Rightarrow> Inr (pack_raw bs)
      | Zstd level \<Rightarrow>
          (case cr_zstd C of
             None \<Rightarrow> Inl MalformedMessage
           | Some z \<Rightarrow>
               and_then (from_io (zstd_compress z bs level)) (\<lambda>compressed.
                 if length compressed + 5 > length bs then Inr (pack_raw bs)
                 else Inr (TAG_ZSTD # to_le_bytes 4 (of_nat (length bs) :: u32) @ compressed))))"

definition try_unpack :: "crates \<Rightarrow> bytes \<Rightarrow> container_error + bytes" where
  "try_unpack C packed =
     (case packed of
        [] \<Rightarrow> Inl Corrupt
      | tag # rest \<Rightarrow>
          if tag = TAG_RAW then (if length rest > MAX_UNPACKED then Inl Corrupt else Inr rest)
          else if tag = TAG_ZSTD then
            (if length rest < 4 then Inl Corrupt
             else let declared = unat (from_le_bytes (take 4 rest) :: u32); frame = drop 4 rest in
               if declared > MAX_UNPACKED then Inl Corrupt
               else (case cr_zstd C of
                       None \<Rightarrow> Inl Unsupported
                     | Some z \<Rightarrow>
                         (case zstd_decompress z frame declared of
                            Inl _ \<Rightarrow> Inl Corrupt
                          | Inr out \<Rightarrow> if length out \<noteq> declared then Inl Corrupt else Inr out)))
          else if tag = TAG_SEALED then Inl Unsupported
          else Inl Corrupt)"

definition unpack :: "crates \<Rightarrow> bytes \<Rightarrow> bytes res" where
  "unpack C packed = (case try_unpack C packed of Inl _ \<Rightarrow> Inl MalformedMessage | Inr b \<Rightarrow> Inr b)"

section \<open>Sealing\<close>

definition CIPHER_CONTEXT :: string where
  "CIPHER_CONTEXT = ''zblob v2 2026-07 store chunk cipher key''"
definition NONCE_CONTEXT :: string where
  "NONCE_CONTEXT = ''zblob v2 2026-07 store chunk nonce key''"

definition cipher_key :: "crates \<Rightarrow> bytes \<Rightarrow> bytes" where
  "cipher_key C key = cr_derive_key C CIPHER_CONTEXT key"

definition nonce_for :: "crates \<Rightarrow> bytes \<Rightarrow> hash \<Rightarrow> bytes \<Rightarrow> bytes" where
  "nonce_for C key h container = take 24 (cr_keyed_hash C (cr_derive_key C NONCE_CONTEXT key) (h @ container))"

definition seal :: "crates \<Rightarrow> bytes \<Rightarrow> hash \<Rightarrow> bytes \<Rightarrow> io_error + bytes" where
  "seal C key h container =
     (let nonce = nonce_for C key h container in
      case cr_encrypt C (cipher_key C key) nonce h container of
        None \<Rightarrow> Inl IoOther
      | Some ciphertext \<Rightarrow> Inr (TAG_SEALED # nonce @ ciphertext))"

definition open_sealed :: "crates \<Rightarrow> bytes \<Rightarrow> hash \<Rightarrow> bytes \<Rightarrow> bytes option" where
  "open_sealed C key h sealed =
     (case strip_prefix [TAG_SEALED] sealed of
        None \<Rightarrow> None
      | Some rest \<Rightarrow>
          if length rest < 24 then None
          else cr_decrypt C (cipher_key C key) (take 24 rest) h (drop 24 rest))"

section \<open>Round trips\<close>

text \<open>What the crates document: decompressing at the right size and decrypting undo.\<close>

definition zstd_ok :: "crates \<Rightarrow> bool" where
  "zstd_ok C \<longleftrightarrow> (\<forall>z. cr_zstd C = Some z \<longrightarrow> (\<forall>bs level out.
     zstd_compress z bs level = Inr out \<longrightarrow> zstd_decompress z out (length bs) = Inr bs))"

definition aead_ok :: "crates \<Rightarrow> bool" where
  "aead_ok C \<longleftrightarrow> (\<forall>k n aad msg ct. cr_encrypt C k n aad msg = Some ct \<longrightarrow> cr_decrypt C k n aad ct = Some msg)
     \<and> (\<forall>k msg. length (cr_keyed_hash C k msg) = 32)"

lemma try_unpack_bound: "try_unpack C packed = Inr out \<Longrightarrow> length out \<le> MAX_UNPACKED"
  by (auto simp: try_unpack_def Let_def split: list.splits if_splits option.splits sum.splits)

lemma unpack_raw: "length bs \<le> MAX_UNPACKED \<Longrightarrow> try_unpack C (pack_raw bs) = Inr bs"
  by (simp add: try_unpack_def pack_raw_def)

lemma pack_unpack:
  assumes "zstd_ok C" "length bs \<le> MAX_UNPACKED" "pack C bs compression = Inr packed"
  shows "try_unpack C packed = Inr bs"
proof -
  have len: "unat (of_nat (length bs) :: u32) = length bs"
    using assms(2) by (simp add: unat_of_nat MAX_UNPACKED_def)
  have le: "(from_le_bytes (to_le_bytes 4 (of_nat (length bs) :: u32)) :: u32) = of_nat (length bs)"
    by (rule from_to_le_bytes) simp
  show ?thesis
  proof (cases compression)
    case NoCompression
    then show ?thesis using assms by (auto simp: pack_def unpack_raw)
  next
    case (Zstd level)
    then obtain z out where z: "cr_zstd C = Some z" and c: "zstd_compress z bs level = Inr out"
      and p: "packed = (if length out + 5 > length bs then pack_raw bs
          else TAG_ZSTD # to_le_bytes 4 (of_nat (length bs) :: u32) @ out)"
      using assms(3) by (auto simp: pack_def result_simps split: option.splits if_splits)
    have "zstd_decompress z out (length bs) = Inr bs"
      using assms(1) z c by (auto simp: zstd_ok_def)
    then show ?thesis
      using p assms(2) len le z
      by (cases "length out + 5 > length bs") (simp_all add: unpack_raw, simp add: try_unpack_def tag_defs)
  qed
qed

lemma pack_tag: "pack C bs compression = Inr packed \<Longrightarrow> \<exists>rest. packed = TAG_RAW # rest \<or> packed = TAG_ZSTD # rest"
  by (auto simp: pack_def pack_raw_def result_simps split: chunk_compression.splits option.splits if_splits)

lemma seal_open:
  assumes "aead_ok C" "seal C key h container = Inr sealed"
  shows "open_sealed C key h sealed = Some container"
proof -
  let ?n = "nonce_for C key h container"
  have n: "length ?n = 24" using assms(1) by (simp add: nonce_for_def aead_ok_def)
  from assms(2) obtain ct where "cr_encrypt C (cipher_key C key) ?n h container = Some ct"
      and s: "sealed = TAG_SEALED # ?n @ ct"
    by (auto simp: seal_def Let_def split: option.splits)
  then have "cr_decrypt C (cipher_key C key) ?n h ct = Some container"
    using assms(1) by (auto simp: aead_ok_def)
  then show ?thesis using n by (simp add: open_sealed_def s strip_prefix_def)
qed

end
