(* ===== verification/Stores.thy ===== *)
theory Stores
  imports Containers HashId "HOL-Library.AList"
begin

text \<open>
  The content store (\<open>src/src/store.rs\<close>): the trait with its default batch methods, the
  in-memory store and the directory store. The locale \<open>content_store\<close> is the contract of the
  trait; both stores interpret it, and clients such as the sweep are proved against it.
\<close>

section \<open>The trait's default methods\<close>

definition store_has_many :: "('s \<Rightarrow> hash \<Rightarrow> io_error + bool) \<Rightarrow> 's \<Rightarrow> hash list \<Rightarrow> io_error + bool list" where
  "store_has_many has s hs = collect_results (map (has s) hs)"

fun store_get_many ::
  "('s \<Rightarrow> hash \<Rightarrow> (io_error + bytes option) \<times> 's) \<Rightarrow> 's \<Rightarrow> hash list \<Rightarrow> (io_error + bytes option list) \<times> 's" where
  "store_get_many get s [] = (Inr [], s)"
| "store_get_many get s (h # hs) =
     then_io (get s h) (\<lambda>x s1.
     then_io (store_get_many get s1 hs) (\<lambda>xs s2. (Inr (x # xs), s2)))"

fun store_put_many ::
  "('s \<Rightarrow> hash \<Rightarrow> bytes \<Rightarrow> (io_error + unit) \<times> 's) \<Rightarrow> 's \<Rightarrow> (hash \<times> bytes) list \<Rightarrow> (io_error + unit) \<times> 's" where
  "store_put_many put s [] = (Inr (), s)"
| "store_put_many put s ((h, b) # cs) = then_io (put s h b) (\<lambda>_ s1. store_put_many put s1 cs)"

section \<open>The in-memory store\<close>

text \<open>A \<open>HashMap\<close> as an association list with distinct keys; its order is the map's own.\<close>

type_synonym memory_store = "(hash \<times> bytes) list"

definition mem_has :: "memory_store \<Rightarrow> hash \<Rightarrow> io_error + bool" where
  "mem_has s h = Inr (map_of s h \<noteq> None)"

definition mem_get :: "memory_store \<Rightarrow> hash \<Rightarrow> (io_error + bytes option) \<times> memory_store" where
  "mem_get s h = (Inr (map_of s h), s)"

definition mem_put :: "memory_store \<Rightarrow> hash \<Rightarrow> bytes \<Rightarrow> (io_error + unit) \<times> memory_store" where
  "mem_put s h b = (Inr (), AList.update h b s)"

definition mem_remove :: "memory_store \<Rightarrow> hash \<Rightarrow> (io_error + bool) \<times> memory_store" where
  "mem_remove s h = (Inr (map_of s h \<noteq> None), AList.delete h s)"

definition mem_hashes :: "memory_store \<Rightarrow> io_error + hash list" where
  "mem_hashes s = Inr (map fst s)"

definition mem_put_many :: "memory_store \<Rightarrow> (hash \<times> bytes) list \<Rightarrow> (io_error + unit) \<times> memory_store" where
  "mem_put_many s cs = (Inr (), fold (\<lambda>(h, b). AList.update h b) cs s)"

definition mem_len :: "memory_store \<Rightarrow> nat" where
  "mem_len s = length s"

definition mem_clear :: "memory_store \<Rightarrow> memory_store" where
  "mem_clear s = []"

section \<open>The directory store\<close>

text \<open>
  The two-level directory below \<open>blake3/\<close>: a key is the fanout directory and the file name, a
  file may be unreadable. Listing order is the order of the list. Reads may fail as the file
  says; writes and removals may fail as \<open>dir_fault\<close> says for a path.
\<close>

type_synonym dir_key = "string \<times> string"

record dir_store =
  dir_files :: "(dir_key \<times> (io_error + bytes)) list"
  dir_verify_on_read :: bool
  dir_compression :: chunk_compression
  dir_key_material :: "bytes option"
  dir_fault :: "dir_key \<Rightarrow> io_error option"

definition dir_path :: "hash \<Rightarrow> dir_key" where
  "dir_path h = (let hex = hash_display h in (take 2 hex, hex))"

definition dir_read :: "dir_store \<Rightarrow> dir_key \<Rightarrow> io_error + bytes" where
  "dir_read s k = (case map_of (dir_files s) k of None \<Rightarrow> Inl IoNotFound | Some r \<Rightarrow> r)"

definition dir_unlink :: "dir_store \<Rightarrow> dir_key \<Rightarrow> (io_error + unit) \<times> dir_store" where
  "dir_unlink s k =
     (case dir_fault s k of
        Some e \<Rightarrow> (Inl e, s)
      | None \<Rightarrow> if map_of (dir_files s) k = None then (Inl IoNotFound, s)
                else (Inr (), s\<lparr>dir_files := AList.delete k (dir_files s)\<rparr>))"

definition decode_at_rest :: "crates \<Rightarrow> dir_store \<Rightarrow> bytes \<Rightarrow> hash \<Rightarrow> bool \<Rightarrow> container_error + bytes" where
  "decode_at_rest C s packed h strict_seal =
     (if packed \<noteq> [] \<and> hd packed = TAG_SEALED then
        (case dir_key_material s of
           Some key \<Rightarrow>
             (case open_sealed C key h packed of
                Some inner \<Rightarrow> try_unpack C inner
              | None \<Rightarrow> if strict_seal then Inl Corrupt else Inl Unsupported)
         | None \<Rightarrow> Inl Unsupported)
      else try_unpack C packed)"

definition dir_has :: "crates \<Rightarrow> dir_store \<Rightarrow> hash \<Rightarrow> io_error + bool" where
  "dir_has C s h =
     (case dir_read s (dir_path h) of
        Inl e \<Rightarrow> if e = IoNotFound then Inr False else Inl e
      | Inr packed \<Rightarrow>
          (case packed of
             [] \<Rightarrow> Inr False
           | tag # _ \<Rightarrow> if tag = TAG_RAW then Inr True else Inr (is_ok (decode_at_rest C s packed h False))))"

definition dir_get :: "crates \<Rightarrow> dir_store \<Rightarrow> hash \<Rightarrow> (io_error + bytes option) \<times> dir_store" where
  "dir_get C s h =
     (case dir_read s (dir_path h) of
        Inl e \<Rightarrow> if e = IoNotFound then (Inr None, s) else (Inl e, s)
      | Inr packed \<Rightarrow>
          (case decode_at_rest C s packed h False of
             Inl Unsupported \<Rightarrow> (Inr None, s)
           | Inl Corrupt \<Rightarrow> (Inr None, snd (dir_unlink s (dir_path h)))
           | Inr bs \<Rightarrow>
               if dir_verify_on_read s \<and> cr_blake3 C bs \<noteq> h
               then (Inr None, snd (dir_unlink s (dir_path h)))
               else (Inr (Some bs), s)))"

definition dir_put :: "crates \<Rightarrow> dir_store \<Rightarrow> hash \<Rightarrow> bytes \<Rightarrow> (io_error + unit) \<times> dir_store" where
  "dir_put C s h bs =
     (case pack C bs (dir_compression s) of
        Inl _ \<Rightarrow> (Inl IoOther, s)
      | Inr packed \<Rightarrow>
          (case (case dir_key_material s of Some key \<Rightarrow> seal C key h packed | None \<Rightarrow> Inr packed) of
             Inl e \<Rightarrow> (Inl e, s)
           | Inr final \<Rightarrow>
               (case dir_fault s (dir_path h) of
                  Some e \<Rightarrow> (Inl e, s)
                | None \<Rightarrow> (Inr (), s\<lparr>dir_files := AList.update (dir_path h) (Inr final) (dir_files s)\<rparr>))))"

definition dir_remove :: "dir_store \<Rightarrow> hash \<Rightarrow> (io_error + bool) \<times> dir_store" where
  "dir_remove s h =
     (case dir_unlink s (dir_path h) of
        (Inr _, s') \<Rightarrow> (Inr True, s')
      | (Inl e, s') \<Rightarrow> if e = IoNotFound then (Inr False, s') else (Inl e, s'))"

definition dir_hashes :: "dir_store \<Rightarrow> io_error + hash list" where
  "dir_hashes s = Inr (List.map_filter
     (\<lambda>((_, name), _). case hash_from_str name of Inr h \<Rightarrow> Some h | Inl _ \<Rightarrow> None) (dir_files s))"

text \<open>\<open>scrub\<close> with the list of hashes taken at its start.\<close>

definition scrub_one :: "crates \<Rightarrow> hash \<Rightarrow> dir_store \<times> hash list \<Rightarrow> dir_store \<times> hash list" where
  "scrub_one C h = (\<lambda>(s, corrupted).
     let verdict = (case dir_read s (dir_path h) of
                      Inl _ \<Rightarrow> Inl Corrupt
                    | Inr packed \<Rightarrow> decode_at_rest C s packed h True)
     in case verdict of
          Inl Unsupported \<Rightarrow> (s, corrupted)
        | Inl Corrupt \<Rightarrow> (snd (dir_unlink s (dir_path h)), corrupted @ [h])
        | Inr bs \<Rightarrow> if cr_blake3 C bs = h then (s, corrupted)
                     else (snd (dir_unlink s (dir_path h)), corrupted @ [h]))"

definition scrub :: "crates \<Rightarrow> dir_store \<Rightarrow> (io_error + hash list) \<times> dir_store" where
  "scrub C s =
     (case dir_hashes s of
        Inl e \<Rightarrow> (Inl e, s)
      | Inr hs \<Rightarrow> (case fold (scrub_one C) hs (s, []) of (s', corrupted) \<Rightarrow> (Inr corrupted, s')))"

end
