(* ===== verification/Stores_Props.thy ===== *)
theory Stores_Props
  imports Stores
begin

text \<open>
  The contract of a content store and its two implementations. A store is abstracted to the map
  from hashes to the bytes it hands out; absence and failure are different answers.
\<close>

section \<open>The contract\<close>

text \<open>What storing a list of chunks makes of a map.\<close>

definition putm :: "(hash \<times> bytes) list \<Rightarrow> (hash \<Rightarrow> bytes option) \<Rightarrow> hash \<Rightarrow> bytes option" where
  "putm cs m = fold (\<lambda>(h, b) m. m(h \<mapsto> b)) cs m"

locale content_store =
  fixes has :: "'s \<Rightarrow> hash \<Rightarrow> io_error + bool"
    and get :: "'s \<Rightarrow> hash \<Rightarrow> (io_error + bytes option) \<times> 's"
    and put :: "'s \<Rightarrow> hash \<Rightarrow> bytes \<Rightarrow> (io_error + unit) \<times> 's"
    and remove :: "'s \<Rightarrow> hash \<Rightarrow> (io_error + bool) \<times> 's"
    and hashes :: "'s \<Rightarrow> io_error + hash list"
    and inv :: "'s \<Rightarrow> bool"
    and contents :: "'s \<Rightarrow> hash \<Rightarrow> bytes option"
    and good :: "hash \<Rightarrow> bytes \<Rightarrow> bool"
  assumes has_Inr: "inv s \<Longrightarrow> hash_wf h \<Longrightarrow> has s h = Inr b \<Longrightarrow> b \<longleftrightarrow> contents s h \<noteq> None"
    and get_Inr: "inv s \<Longrightarrow> hash_wf h \<Longrightarrow> get s h = (Inr x, s') \<Longrightarrow> x = contents s h \<and> s' = s"
    and get_Inl: "inv s \<Longrightarrow> get s h = (Inl e, s') \<Longrightarrow> s' = s"
    and put_Inr: "inv s \<Longrightarrow> good h d \<Longrightarrow> put s h d = (Inr (), s') \<Longrightarrow>
                    inv s' \<and> contents s' = (contents s)(h \<mapsto> d)"
    and put_Inl: "put s h d = (Inl e, s') \<Longrightarrow> s' = s"
    and remove_Inr: "inv s \<Longrightarrow> hash_wf h \<Longrightarrow> remove s h = (Inr b, s') \<Longrightarrow>
                    inv s' \<and> contents s' = (contents s)(h := None) \<and> (contents s h \<noteq> None \<longrightarrow> b)"
    and remove_Inl: "remove s h = (Inl e, s') \<Longrightarrow> s' = s"
    and hashes_Inr: "inv s \<Longrightarrow> hashes s = Inr hs \<Longrightarrow> dom (contents s) \<subseteq> set hs \<and> (\<forall>h \<in> set hs. hash_wf h)"
begin

text \<open>The batch methods answer positionally, as the single ones would.\<close>

lemma has_many_Inr:
  assumes "inv s" "\<forall>h \<in> set hs. hash_wf h" "store_has_many has s hs = Inr bs"
  shows "bs = map (\<lambda>h. contents s h \<noteq> None) hs"
proof -
  have e: "map (has s) hs = map Inr bs"
    using assms(3) by (simp add: store_has_many_def collect_results_Inr)
  then have len: "length bs = length hs" by (metis length_map)
  show ?thesis
  proof (rule nth_equalityI)
    fix i assume "i < length bs"
    then have "has s (hs ! i) = Inr (bs ! i)" "hash_wf (hs ! i)"
      using e len assms(2) by (metis nth_map) (use \<open>i < length bs\<close> len assms(2) in auto)
    then show "bs ! i = map (\<lambda>h. contents s h \<noteq> None) hs ! i"
      using has_Inr [OF assms(1)] \<open>i < length bs\<close> len by simp
  qed (simp add: len)
qed

lemma get_many_Inr:
  assumes "inv s" "\<forall>h \<in> set hs. hash_wf h" "store_get_many get s hs = (Inr xs, s')"
  shows "xs = map (contents s) hs \<and> s' = s"
  using assms(2,3)
proof (induction hs arbitrary: xs s')
  case (Cons h hs)
  then obtain x s1 ys where "get s h = (Inr x, s1)" "store_get_many get s1 hs = (Inr ys, s')" "xs = x # ys"
    by (auto simp: then_io_Inr)
  with Cons get_Inr [OF assms(1), of h x s1] show ?case by auto
qed simp

text \<open>Storing several chunks: all of them on success, some prefix of them on an error.\<close>

lemma put_many:
  assumes "inv s" "\<forall>(h, b) \<in> set cs. good h b" "store_put_many put s cs = (r, s')"
  shows "inv s' \<and> (\<exists>n. contents s' = putm (take n cs) (contents s) \<and> (r = Inr () \<longrightarrow> n = length cs))"
  using assms
proof (induction cs arbitrary: s)
  case Nil
  then show ?case by (auto simp: putm_def)
next
  case (Cons c cs)
  obtain h b where c: "c = (h, b)" by (cases c)
  obtain r1 s1 where p: "put s h b = (r1, s1)" by (meson surj_pair)
  show ?case
  proof (cases r1)
    case (Inl e)
    then show ?thesis using Cons.prems p put_Inl [of s h b e s1]
      by (auto simp: c putm_def intro!: exI [of _ 0])
  next
    case (Inr u)
    then have s1: "inv s1" "contents s1 = (contents s)(h \<mapsto> b)"
      using put_Inr [of s h b s1] Cons.prems p by (auto simp: c)
    have "store_put_many put s1 cs = (r, s')" using Cons.prems(3) p Inr by (simp add: c)
    from Cons.IH [OF s1(1) _ this] Cons.prems(2) obtain n where
      "inv s'" "contents s' = putm (take n cs) (contents s1)" "r = Inr () \<longrightarrow> n = length cs" by auto
    then show ?thesis by (intro conjI exI [of _ "Suc n"]) (auto simp: putm_def c s1(2))
  qed
qed

end

section \<open>The in-memory store\<close>

definition good_chunk :: "crates \<Rightarrow> hash \<Rightarrow> bytes \<Rightarrow> bool" where
  "good_chunk C h b \<longleftrightarrow> hash_wf h \<and> cr_blake3 C b = h \<and> length b \<le> MAX_UNPACKED"

definition mem_inv :: "memory_store \<Rightarrow> bool" where
  "mem_inv s \<longleftrightarrow> distinct (map fst s) \<and> (\<forall>h \<in> set (map fst s). hash_wf h)"

lemma mem_inv_update: "mem_inv s \<Longrightarrow> hash_wf h \<Longrightarrow> mem_inv (AList.update h b s)"
  by (auto simp: mem_inv_def distinct_update update_keys)

lemma mem_inv_delete: "mem_inv s \<Longrightarrow> mem_inv (AList.delete h s)"
  by (auto simp: mem_inv_def delete_keys distinct_removeAll)

interpretation mem: content_store mem_has mem_get mem_put mem_remove mem_hashes mem_inv map_of "good_chunk C"
  for C
proof
  fix s :: memory_store and hs
  assume "mem_inv s" "mem_hashes s = Inr hs"
  then show "dom (map_of s) \<subseteq> set hs \<and> (\<forall>h \<in> set hs. hash_wf h)"
    by (auto simp: mem_hashes_def mem_inv_def dom_map_of_conv_image_fst rev_image_eqI)
qed (auto simp: mem_has_def mem_get_def mem_put_def mem_remove_def good_chunk_def mem_inv_update
      mem_inv_delete update_conv' delete_conv')

lemma mem_put_many_default: "mem_put_many s cs = store_put_many mem_put s cs"
proof (induction cs arbitrary: s)
  case (Cons c cs)
  then show ?case by (cases c) (simp add: mem_put_many_def mem_put_def)
qed (simp add: mem_put_many_def)

section \<open>The directory store\<close>

definition crates_ok :: "crates \<Rightarrow> bool" where
  "crates_ok C \<longleftrightarrow> zstd_ok C \<and> aead_ok C"

text \<open>What a file at rest may be: unreadable, in a format this build cannot open, or the chunk.\<close>

definition file_ok :: "crates \<Rightarrow> dir_store \<Rightarrow> hash \<Rightarrow> io_error + bytes \<Rightarrow> bool" where
  "file_ok C s h r \<longleftrightarrow>
     (case r of
        Inl e \<Rightarrow> e \<noteq> IoNotFound
      | Inr packed \<Rightarrow> decode_at_rest C s packed h False = Inl Unsupported
          \<or> (\<exists>b. decode_at_rest C s packed h False = Inr b \<and> cr_blake3 C b = h))"

definition dir_inv :: "crates \<Rightarrow> dir_store \<Rightarrow> bool" where
  "dir_inv C s \<longleftrightarrow> crates_ok C \<and> distinct (map fst (dir_files s))
     \<and> (\<forall>k. dir_fault s k \<noteq> Some IoNotFound)
     \<and> (\<forall>(k, r) \<in> set (dir_files s). \<exists>h. hash_wf h \<and> k = dir_path h \<and> file_ok C s h r)"

definition dir_contents :: "crates \<Rightarrow> dir_store \<Rightarrow> hash \<Rightarrow> bytes option" where
  "dir_contents C s h =
     (if \<not> hash_wf h then None
      else case dir_read s (dir_path h) of
             Inl _ \<Rightarrow> None
           | Inr packed \<Rightarrow> (case decode_at_rest C s packed h False of Inl _ \<Rightarrow> None | Inr b \<Rightarrow> Some b))"

lemma dir_path_inj: "dir_path g = dir_path h \<Longrightarrow> g = h"
  by (simp add: dir_path_def Let_def hash_display_inj)

lemma decode_files [simp]:
  "decode_at_rest C (s\<lparr>dir_files := fs\<rparr>) packed h b = decode_at_rest C s packed h b"
  by (simp add: decode_at_rest_def)

lemma file_ok_files [simp]: "file_ok C (s\<lparr>dir_files := fs\<rparr>) h r = file_ok C s h r"
  by (simp add: file_ok_def split: sum.splits)

lemma dir_read_ok:
  assumes "dir_inv C s" "map_of (dir_files s) (dir_path h) = Some r"
  shows "file_ok C s h r"
proof -
  from assms(2) have "(dir_path h, r) \<in> set (dir_files s)" by (rule map_of_SomeD)
  with assms(1) obtain g where "dir_path h = dir_path g" "file_ok C s g r"
    by (fastforce simp: dir_inv_def)
  then show ?thesis using dir_path_inj by blast
qed

lemma dir_read_cases:
  assumes "dir_inv C s"
  obtains "dir_read s (dir_path h) = Inl IoNotFound"
  | e where "dir_read s (dir_path h) = Inl e" "e \<noteq> IoNotFound"
  | packed where "dir_read s (dir_path h) = Inr packed" "decode_at_rest C s packed h False = Inl Unsupported"
  | packed b where "dir_read s (dir_path h) = Inr packed" "decode_at_rest C s packed h False = Inr b"
      "cr_blake3 C b = h"
proof (cases "map_of (dir_files s) (dir_path h)")
  case None
  then show ?thesis using that(1) by (simp add: dir_read_def)
next
  case (Some r)
  with dir_read_ok [OF assms this] that(2-) show ?thesis
    by (cases r) (auto simp: dir_read_def file_ok_def)
qed

lemma decode_raw_tag:
  "decode_at_rest C s (TAG_RAW # rest) h b \<noteq> Inl Unsupported"
  by (simp add: decode_at_rest_def tag_defs try_unpack_def)

lemma dir_has_spec:
  assumes "dir_inv C s" "hash_wf h" "dir_has C s h = Inr b"
  shows "b \<longleftrightarrow> dir_contents C s h \<noteq> None"
proof (cases rule: dir_read_cases [OF assms(1), of h])
  case (3 packed)
  then show ?thesis
    using assms(2,3) decode_raw_tag[of C s]
    by (cases packed) (auto simp: dir_has_def dir_contents_def split: if_splits)
next
  case (4 packed b)
  then have "packed \<noteq> []" by (auto simp: decode_at_rest_def try_unpack_def)
  with 4 show ?thesis
    using assms(2,3) by (cases packed) (auto simp: dir_has_def dir_contents_def split: if_splits)
qed (use assms(2,3) in \<open>auto simp: dir_has_def dir_contents_def\<close>)

lemma dir_get_spec:
  assumes "dir_inv C s" "dir_get C s h = (r, s')"
  shows "s' = s \<and> (hash_wf h \<longrightarrow> (\<forall>x. r = Inr x \<longrightarrow> x = dir_contents C s h))"
  by (cases rule: dir_read_cases [OF assms(1), of h])
     (use assms(2) in \<open>auto simp: dir_get_def dir_contents_def\<close>)

lemma dir_put_final:
  assumes "crates_ok C" "good_chunk C h bs" "pack C bs (dir_compression s) = Inr packed"
    and "(case dir_key_material s of Some key \<Rightarrow> seal C key h packed | None \<Rightarrow> Inr packed) = Inr fin"
  shows "decode_at_rest C s fin h strict = Inr bs"
proof -
  have unp: "try_unpack C packed = Inr bs"
    using assms(1-3) by (intro pack_unpack) (auto simp: crates_ok_def good_chunk_def)
  show ?thesis
  proof (cases "dir_key_material s")
    case None
    with assms(4) pack_tag [OF assms(3)] unp show ?thesis
      by (auto simp: decode_at_rest_def tag_defs)
  next
    case (Some key)
    then have "open_sealed C key h fin = Some packed"
      using assms(1,4) by (intro seal_open) (auto simp: crates_ok_def)
    moreover have "fin \<noteq> [] \<and> hd fin = TAG_SEALED"
      using assms(4) Some by (auto simp: seal_def Let_def split: option.splits)
    ultimately show ?thesis using Some unp by (simp add: decode_at_rest_def)
  qed
qed

lemma dir_files_update:
  assumes "dir_inv C s" "hash_wf h" "file_ok C s h r"
  shows "dir_inv C (s\<lparr>dir_files := AList.update (dir_path h) r (dir_files s)\<rparr>)"
proof -
  let ?fs = "AList.update (dir_path h) r (dir_files s)"
  have "\<exists>g. hash_wf g \<and> k = dir_path g \<and> file_ok C s g q" if "(k, q) \<in> set ?fs" for k q
  proof -
    have "distinct (map fst ?fs)" using assms(1) by (simp add: dir_inv_def distinct_update)
    with that have "map_of ?fs k = Some q" by simp
    then show ?thesis
      using assms by (auto simp: update_conv' dir_inv_def split: if_splits dest!: map_of_SomeD)
  qed
  then show ?thesis using assms(1) by (auto simp: dir_inv_def distinct_update)
qed

lemma dir_put_spec:
  assumes "dir_inv C s" "good_chunk C h bs" "dir_put C s h bs = (Inr (), s')"
  shows "dir_inv C s' \<and> dir_contents C s' = (dir_contents C s)(h \<mapsto> bs)"
proof -
  from assms(3) obtain packed fin where p: "pack C bs (dir_compression s) = Inr packed"
    "(case dir_key_material s of Some key \<Rightarrow> seal C key h packed | None \<Rightarrow> Inr packed) = Inr fin"
    and s': "s' = s\<lparr>dir_files := AList.update (dir_path h) (Inr fin) (dir_files s)\<rparr>"
    by (auto simp: dir_put_def split: sum.splits option.splits)
  have ok: "crates_ok C" using assms(1) by (simp add: dir_inv_def)
  note dec = dir_put_final [OF ok assms(2) p]
  have wf: "hash_wf h" "cr_blake3 C bs = h" using assms(2) by (simp_all add: good_chunk_def)
  have "dir_inv C s'" unfolding s'
    by (rule dir_files_update [OF assms(1) wf(1)]) (simp add: file_ok_def dec wf(2))
  moreover have "dir_contents C s' g = ((dir_contents C s)(h \<mapsto> bs)) g" for g
    using wf(1) dec dir_path_inj[of g h]
    by (auto simp: s' dir_contents_def dir_read_def update_conv' cong: sum.case_cong)
  ultimately show ?thesis by auto
qed

lemma dir_remove_spec:
  assumes "dir_inv C s" "hash_wf h" "dir_remove s h = (Inr b, s')"
  shows "dir_inv C s' \<and> dir_contents C s' = (dir_contents C s)(h := None) \<and> (dir_contents C s h \<noteq> None \<longrightarrow> b)"
proof (cases "map_of (dir_files s) (dir_path h)")
  case None
  then have "dir_contents C s h = None" by (simp add: dir_contents_def dir_read_def)
  moreover from this have "(dir_contents C s)(h := None) = dir_contents C s" by auto
  moreover have "s' = s"
    using assms(3) None by (auto simp: dir_remove_def dir_unlink_def split: option.splits if_splits)
  ultimately show ?thesis using assms(1) by simp
next
  case (Some r)
  have "dir_fault s (dir_path h) \<noteq> Some IoNotFound" using assms(1) unfolding dir_inv_def by blast
  then have "dir_fault s (dir_path h) = None"
    using assms(3) by (cases "dir_fault s (dir_path h)") (auto simp: dir_remove_def dir_unlink_def)
  with Some assms(3) have s': "s' = s\<lparr>dir_files := AList.delete (dir_path h) (dir_files s)\<rparr>" "b"
    by (auto simp: dir_remove_def dir_unlink_def)
  have "dir_inv C s'"
    using assms(1) by (auto simp: dir_inv_def s'(1) AList.delete_eq distinct_map_filter)
  moreover have "dir_contents C s' g = ((dir_contents C s)(h := None)) g" for g
    using dir_path_inj[of g h]
    by (auto simp: s'(1) dir_contents_def dir_read_def delete_conv' cong: sum.case_cong)
  ultimately show ?thesis using s'(2) by auto
qed

lemma dir_hashes_spec:
  assumes "dir_inv C s" "dir_hashes s = Inr hs"
  shows "dom (dir_contents C s) \<subseteq> set hs \<and> (\<forall>h \<in> set hs. hash_wf h)"
proof -
  have hs: "hs = List.map_filter
      (\<lambda>((_, name), _). case hash_from_str name of Inr h \<Rightarrow> Some h | Inl _ \<Rightarrow> None) (dir_files s)"
    using assms(2) by (simp add: dir_hashes_def)
  have "h \<in> set hs" if c: "dir_contents C s h \<noteq> None" for h
  proof -
    have wf: "hash_wf h" using c by (auto simp: dir_contents_def split: if_splits)
    have "map_of (dir_files s) (dir_path h) \<noteq> None"
    proof
      assume "map_of (dir_files s) (dir_path h) = None"
      then have "dir_contents C s h = None" by (simp add: dir_contents_def dir_read_def)
      with c show False by simp
    qed
    then obtain r where "map_of (dir_files s) (dir_path h) = Some r" by blast
    then have "(dir_path h, r) \<in> set (dir_files s)" by (rule map_of_SomeD)
    then show ?thesis
      using hash_from_str_display [OF wf]
      by (force simp: hs List.map_filter_def dir_path_def Let_def image_iff)
  qed
  moreover have "hash_wf h" if "h \<in> set hs" for h
    using that by (auto simp: hs List.map_filter_def split: sum.splits dest: hash_from_str_wf)
  ultimately show ?thesis by blast
qed

interpretation dirs: content_store "dir_has C" "dir_get C" "dir_put C" dir_remove dir_hashes
    "dir_inv C" "dir_contents C" "good_chunk C" for C
proof (unfold_locales, goal_cases)
  case (1 s h b) then show ?case by (rule dir_has_spec)
next
  case (2 s h x s') then show ?case using dir_get_spec by blast
next
  case (3 s h e s') then show ?case using dir_get_spec by blast
next
  case (4 s h d s') then show ?case by (rule dir_put_spec)
next
  case (5 s h d e s') then show ?case by (auto simp: dir_put_def split: sum.splits option.splits)
next
  case (6 s h b s') then show ?case by (rule dir_remove_spec)
next
  case (7 s h e s') then show ?case
    by (auto simp: dir_remove_def dir_unlink_def split: option.splits if_splits)
next
  case (8 s hs) then show ?case by (rule dir_hashes_spec)
qed

section \<open>Corruption\<close>

text \<open>With verification on, wrong bytes are never handed out, whatever the directory holds.\<close>

lemma dir_get_verified:
  assumes "dir_verify_on_read s" "dir_get C s h = (Inr (Some b), s')"
  shows "cr_blake3 C b = h \<and> length b \<le> MAX_UNPACKED"
  using assms
  by (auto simp: dir_get_def decode_at_rest_def split: sum.splits if_splits option.splits container_error.splits
      dest: try_unpack_bound)

lemma dir_contents_bound: "dir_contents C s h = Some b \<Longrightarrow> length b \<le> MAX_UNPACKED"
  by (auto simp: dir_contents_def decode_at_rest_def split: sum.splits if_splits option.splits container_error.splits
      dest: try_unpack_bound)

text \<open>A scrub removes exactly the listed chunks that do not decode to their name.\<close>

definition chunk_sound :: "crates \<Rightarrow> dir_store \<Rightarrow> hash \<Rightarrow> bool" where
  "chunk_sound C s h \<longleftrightarrow>
     (case dir_read s (dir_path h) of
        Inl _ \<Rightarrow> False
      | Inr packed \<Rightarrow> (case decode_at_rest C s packed h True of
                          Inl e \<Rightarrow> e = Unsupported | Inr b \<Rightarrow> cr_blake3 C b = h))"

lemma unlink_effect:
  assumes "dir_fault s = (\<lambda>_. None)"
  shows "dir_read (snd (dir_unlink s k)) j = (if j = k then Inl IoNotFound else dir_read s j)"
    and "dir_key_material (snd (dir_unlink s k)) = dir_key_material s"
    and "dir_fault (snd (dir_unlink s k)) = dir_fault s"
  using assms by (auto simp: dir_unlink_def dir_read_def delete_conv')

lemma scrub_one_effect:
  assumes "dir_fault s = (\<lambda>_. None)" "scrub_one C h (s, bad) = (s', bad')"
  shows "dir_read s' (dir_path g) = (if g = h \<and> \<not> chunk_sound C s h then Inl IoNotFound else dir_read s (dir_path g))"
    and "dir_key_material s' = dir_key_material s" "dir_fault s' = (\<lambda>_. None)"
    and "bad' = (if chunk_sound C s h then bad else bad @ [h])"
  using assms unlink_effect [OF assms(1), of "dir_path h"] dir_path_inj[of g h]
  by (auto simp: scrub_one_def chunk_sound_def Let_def
      split: sum.splits if_splits container_error.splits)

lemma chunk_sound_cong:
  "dir_read s' (dir_path h) = dir_read s (dir_path h) \<Longrightarrow> dir_key_material s' = dir_key_material s \<Longrightarrow>
   chunk_sound C s' h = chunk_sound C s h"
  by (simp add: chunk_sound_def decode_at_rest_def split: sum.splits)

lemma scrub_fold:
  assumes "dir_fault s = (\<lambda>_. None)" "fold (scrub_one C) hs (s, bad) = (s', bad')"
  shows "dir_read s' (dir_path g) = (if g \<in> set hs \<and> \<not> chunk_sound C s g then Inl IoNotFound else dir_read s (dir_path g))
     \<and> set bad' = set bad \<union> {h \<in> set hs. \<not> chunk_sound C s h}"
  using assms
proof (induction hs arbitrary: s bad g)
  case (Cons h hs)
  obtain s1 bad1 where one: "scrub_one C h (s, bad) = (s1, bad1)" by (meson surj_pair)
  note e = scrub_one_effect [OF Cons.prems(1) one]
  have rest: "fold (scrub_one C) hs (s1, bad1) = (s', bad')" using Cons.prems(2) one by simp
  note IH = Cons.IH [OF e(3) rest]
  have snd1: "chunk_sound C s1 g \<longleftrightarrow> chunk_sound C s g" for g
  proof (cases "g = h \<and> \<not> chunk_sound C s h")
    case True
    then show ?thesis using e(1)[of g] by (simp add: chunk_sound_def)
  next
    case False
    then show ?thesis using e(1)[of g] e(2) by (intro chunk_sound_cong) auto
  qed
  show ?case using IH[of g] e(1)[of g] e(4) by (auto simp: snd1)
qed simp

lemma scrub_exact:
  assumes "dir_fault s = (\<lambda>_. None)" "scrub C s = (Inr bad, s')" "dir_hashes s = Inr hs"
  shows "set bad = {h \<in> set hs. \<not> chunk_sound C s h}"
    and "dir_read s' (dir_path g) = (if g \<in> set bad then Inl IoNotFound else dir_read s (dir_path g))"
  using assms scrub_fold [OF assms(1), of C hs "[]" s' bad]
  by (auto simp: scrub_def split: prod.splits)

end
