(* ===== verification/Trees.thy ===== *)
theory Trees
  imports Stores_Props Paths Chunks "HOL-Library.Char_ord" "HOL-Library.List_Lexorder" "HOL-Library.Multiset"
begin

text \<open>
  Tree snapshots (\<open>src/src/tree.rs\<close>): entries, the index with its accessors, its identity
  digest and its validation, and the walk that builds an index from a directory. The postcard
  encoding of the identity view and BLAKE3 are parameters.
\<close>

section \<open>The index\<close>

datatype entry =
    Dir (dir_path_of: string) (dir_mode: u32) (dir_mtime: int)
  | File (file_path: string) (file_mode: u32) (file_mtime: int) (file_size: u64) (file_refs: "chunk_ref list")
  | Symlink (link_path: string) (link_target: string)
  | Hardlink (hard_path: string) (hard_target: string)

fun entry_path :: "entry \<Rightarrow> string" where
  "entry_path (Dir p _ _) = p"
| "entry_path (File p _ _ _ _) = p"
| "entry_path (Symlink p _) = p"
| "entry_path (Hardlink p _) = p"

record tree_index =
  ti_version :: u16
  ti_id :: blob_id
  ti_algo :: hash_algo
  ti_cdc :: cdc_params
  ti_entries :: "entry list"
  ti_root_hash :: hash

datatype identity_entry =
    IdDir string u32
  | IdFile string u32 u64 "chunk_ref list"
  | IdSymlink string string
  | IdHardlink string string

fun identity_of :: "entry \<Rightarrow> identity_entry" where
  "identity_of (Dir p m _) = IdDir p m"
| "identity_of (File p m _ s cs) = IdFile p m s cs"
| "identity_of (Symlink p t) = IdSymlink p t"
| "identity_of (Hardlink p t) = IdHardlink p t"

type_synonym identity_encoder = "u16 \<times> string \<times> identity_entry list \<Rightarrow> bytes res"

definition root_digest :: "identity_encoder \<Rightarrow> (bytes \<Rightarrow> hash) \<Rightarrow> entry list \<Rightarrow> hash res" where
  "root_digest enc blake3 es =
     and_then (enc (WIRE_VERSION, ''blake3'', map identity_of es)) (\<lambda>bs. Inr (blake3 bs))"

fun entry_refs :: "entry \<Rightarrow> chunk_ref list" where
  "entry_refs (File _ _ _ _ cs) = cs"
| "entry_refs _ = []"

definition all_refs :: "entry list \<Rightarrow> chunk_ref list" where
  "all_refs es = concat (map entry_refs es)"

text \<open>The two loops with a \<open>seen\<close> set, in first-occurrence order.\<close>

definition note_hash :: "chunk_ref \<Rightarrow> hash list \<Rightarrow> hash list" where
  "note_hash c out = (if cr_hash c \<in> set out then out else out @ [cr_hash c])"

definition needed_chunks :: "tree_index \<Rightarrow> hash list" where
  "needed_chunks t = fold note_hash (all_refs (ti_entries t)) []"

fun note_ref :: "chunk_ref \<Rightarrow> chunk_ref list \<Rightarrow> chunk_ref list" where
  "note_ref c [] = [c]"
| "note_ref c (d # ds) =
     (if cr_hash d = cr_hash c then d\<lparr>cr_len := max (cr_len d) (cr_len c)\<rparr> # ds else d # note_ref c ds)"

definition needed_chunk_refs :: "tree_index \<Rightarrow> chunk_ref list" where
  "needed_chunk_refs t = fold note_ref (all_refs (ti_entries t)) []"

definition tree_entry :: "tree_index \<Rightarrow> string \<Rightarrow> entry option" where
  "tree_entry t path = find (\<lambda>e. entry_path e = path) (ti_entries t)"

definition tree_files :: "tree_index \<Rightarrow> (string \<times> u64 \<times> chunk_ref list) list" where
  "tree_files t = List.map_filter
     (\<lambda>e. case e of File p _ _ s cs \<Rightarrow> Some (p, s, cs) | _ \<Rightarrow> None) (ti_entries t)"

definition file_chunks :: "tree_index \<Rightarrow> string \<Rightarrow> chunk_ref list option" where
  "file_chunks t path =
     Option.bind (tree_entry t path) (\<lambda>e. case e of File _ _ _ _ cs \<Rightarrow> Some cs | _ \<Rightarrow> None)"

definition total_size :: "tree_index \<Rightarrow> u64" where
  "total_size t = sum_list (map (\<lambda>e. case e of File _ _ _ s _ \<Rightarrow> s | _ \<Rightarrow> 0) (ti_entries t))"

definition file_count :: "tree_index \<Rightarrow> nat" where
  "file_count t = length (filter (\<lambda>e. case e of File _ _ _ _ _ \<Rightarrow> True | _ \<Rightarrow> False) (ti_entries t))"

definition keyed_by_root :: "tree_index \<Rightarrow> tree_index" where
  "keyed_by_root t = t\<lparr>ti_id := hash_display (ti_root_hash t)\<rparr>"

definition is_content_addressed :: "tree_index \<Rightarrow> bool" where
  "is_content_addressed t \<longleftrightarrow> ti_id t = hash_display (ti_root_hash t)"

section \<open>Validation\<close>

text \<open>One pass over the entries, with the paths seen and the links declared so far.\<close>

definition validate_file :: "cdc_params \<Rightarrow> u64 \<Rightarrow> chunk_ref list \<Rightarrow> unit res" where
  "validate_file cdc sz chunks =
     (if sum_lens chunks \<noteq> sz then Inl InvalidManifest
      else case find (\<lambda>c. cr_len c = 0 \<or> cr_len c > cdc_max cdc) chunks of
             Some _ \<Rightarrow> Inl InvalidManifest | None \<Rightarrow> Inr ())"

fun validate_entries ::
  "cdc_params \<Rightarrow> rel_path list \<Rightarrow> (rel_path \<times> string) list \<Rightarrow> entry list \<Rightarrow> (rel_path \<times> string) list res" where
  "validate_entries cdc seen links [] = Inr links"
| "validate_entries cdc seen links (e # es) =
     and_then (sanitize_rel_path (entry_path e)) (\<lambda>rel.
       if rel \<in> set seen then Inl InvalidManifest
       else and_then
         (case e of
            File _ _ _ sz chunks \<Rightarrow> and_then (validate_file cdc sz chunks) (\<lambda>_. Inr links)
          | Symlink _ target \<Rightarrow>
              and_then (sanitize_symlink_target rel target) (\<lambda>_. Inr (links @ [(rel, target)]))
          | Hardlink _ target \<Rightarrow> and_then (sanitize_rel_path target) (\<lambda>_. Inr links)
          | Dir _ _ _ \<Rightarrow> Inr links)
         (\<lambda>links'. validate_entries cdc (rel # seen) links' es))"

definition tree_validate :: "identity_encoder \<Rightarrow> (bytes \<Rightarrow> hash) \<Rightarrow> tree_index \<Rightarrow> unit res" where
  "tree_validate enc blake3 t =
     (if ti_version t \<noteq> WIRE_VERSION then Inl (UnsupportedVersion (ti_version t))
      else and_then (cdc_validate (ti_cdc t)) (\<lambda>_.
           and_then (validate_entries (ti_cdc t) [] [] (ti_entries t)) (\<lambda>links.
           and_then (assert_symlinks_confined links) (\<lambda>_.
           and_then (root_digest enc blake3 (ti_entries t)) (\<lambda>actual.
             if actual \<noteq> ti_root_hash t then Inl (RootMismatch (ti_root_hash t) actual) else Inr ())))))"

section \<open>Building an index from a directory\<close>

text \<open>
  The directory as the walk sees it: metadata with a link count and an inode, file contents,
  link targets. A \<open>Special\<close> is a FIFO, a socket or a device.
\<close>

datatype node =
    DirNode u32 int "(string \<times> node) list"
  | FileNode u32 int "nat \<times> nat" nat bytes
  | LinkNode string
  | Special

type_synonym 's chunk_has = "'s \<Rightarrow> hash \<Rightarrow> io_error + bool"
type_synonym 's chunk_put = "'s \<Rightarrow> hash \<Rightarrow> bytes \<Rightarrow> (io_error + unit) \<times> 's"

definition hardlink_target ::
  "nat \<times> nat \<Rightarrow> nat \<Rightarrow> string \<Rightarrow> (nat \<times> nat \<rightharpoonup> string) \<Rightarrow> string option \<times> (nat \<times> nat \<rightharpoonup> string)" where
  "hardlink_target key nlink rel inodes =
     (if nlink > 1
      then (case inodes key of Some first \<Rightarrow> (Some first, inodes) | None \<Rightarrow> (None, inodes(key \<mapsto> rel)))
      else (None, inodes))"

text \<open>Chunking one file: each new chunk goes to the store.\<close>

fun store_pieces ::
  "'s chunk_has \<Rightarrow> 's chunk_put \<Rightarrow> (bytes \<Rightarrow> hash) \<Rightarrow> u64 \<Rightarrow> chunk_ref list \<Rightarrow> bytes list \<Rightarrow> 's
   \<Rightarrow> (u64 \<times> chunk_ref list) res \<times> 's" where
  "store_pieces has put blake3 sz refs [] s = (Inr (sz, refs), s)"
| "store_pieces has put blake3 sz refs (b # bs) s =
     (let h = blake3 b;
          sz' = sz + of_nat (length b);
          refs' = refs @ [\<lparr>cr_hash = h, cr_len = of_nat (length b)\<rparr>]
      in case has s h of
           Inl e \<Rightarrow> (Inl (Io e), s)
         | Inr True \<Rightarrow> store_pieces has put blake3 sz' refs' bs s
         | Inr False \<Rightarrow>
             (case put s h b of
                (Inl e, s1) \<Rightarrow> (Inl (Io e), s1)
              | (Inr _, s1) \<Rightarrow> store_pieces has put blake3 sz' refs' bs s1))"

text \<open>\<open>try_fold\<close> over presence: every chunk is asked for, an error stops the walk.\<close>

fun all_present :: "'s chunk_has \<Rightarrow> 's \<Rightarrow> bool \<Rightarrow> chunk_ref list \<Rightarrow> bool res" where
  "all_present has s acc [] = Inr acc"
| "all_present has s acc (c # cs) =
     (case has s (cr_hash c) of Inl e \<Rightarrow> Inl (Io e) | Inr p \<Rightarrow> all_present has s (acc \<and> p) cs)"

record 's walk_state =
  wk_inodes :: "nat \<times> nat \<rightharpoonup> string"
  wk_entries :: "entry list"
  wk_store :: 's

definition add_entry :: "entry \<Rightarrow> 's walk_state \<Rightarrow> 's walk_state" where
  "add_entry e w = w\<lparr>wk_entries := wk_entries w @ [e]\<rparr>"

definition reuse_file ::
  "'s chunk_has \<Rightarrow> (string \<rightharpoonup> entry) \<Rightarrow> string \<Rightarrow> int \<Rightarrow> bytes \<Rightarrow> 's \<Rightarrow> (u64 \<times> chunk_ref list) option res" where
  "reuse_file has reusable rel mtime content s =
     (case reusable rel of
        Some (File _ _ prev_mtime prev_size prev_chunks) \<Rightarrow>
          if unat prev_size = length content \<and> prev_mtime = mtime
          then and_then (all_present has s True prev_chunks) (\<lambda>ok.
                 Inr (if ok then Some (prev_size, prev_chunks) else None))
          else Inr None
      | _ \<Rightarrow> Inr None)"

definition walk_file ::
  "'s chunk_has \<Rightarrow> 's chunk_put \<Rightarrow> (bytes \<Rightarrow> hash) \<Rightarrow> cdc_cutter \<Rightarrow> cdc_params \<Rightarrow> (string \<rightharpoonup> entry)
   \<Rightarrow> string \<Rightarrow> u32 \<Rightarrow> int \<Rightarrow> nat \<times> nat \<Rightarrow> nat \<Rightarrow> bytes \<Rightarrow> 's walk_state \<Rightarrow> unit res \<times> 's walk_state" where
  "walk_file has put blake3 cutter cdc reusable rel mode mtime ino nlink content w =
     (case hardlink_target ino nlink rel (wk_inodes w) of
        (Some first, inodes) \<Rightarrow> (Inr (), add_entry (Hardlink rel first) (w\<lparr>wk_inodes := inodes\<rparr>))
      | (None, inodes) \<Rightarrow>
          (let w1 = w\<lparr>wk_inodes := inodes\<rparr> in
           case reuse_file has reusable rel mtime content (wk_store w1) of
             Inl e \<Rightarrow> (Inl e, w1)
           | Inr (Some (sz, chunks)) \<Rightarrow> (Inr (), add_entry (File rel mode mtime sz chunks) w1)
           | Inr None \<Rightarrow>
               (case store_pieces has put blake3 0 [] (cdc_chunk_reader cutter cdc content) (wk_store w1) of
                  (Inl e, s') \<Rightarrow> (Inl e, w1\<lparr>wk_store := s'\<rparr>)
                | (Inr (sz, refs), s') \<Rightarrow>
                    (Inr (), add_entry (File rel mode mtime sz refs) (w1\<lparr>wk_store := s'\<rparr>)))))"

definition rel_join :: "string \<Rightarrow> string \<Rightarrow> string" where
  "rel_join prefix name = (if prefix = [] then name else prefix @ ''/'' @ name)"

definition stack_weight :: "(string \<times> (string \<times> node) list) list \<Rightarrow> nat" where
  "stack_weight stack = sum_list (map (\<lambda>(_, items). Suc (sum_list (map (\<lambda>(_, n). Suc (size n)) items))) stack)"

lemma sum_list_sort_key: "sum_list (map f (sort_key g xs)) = (sum_list (map f xs) :: nat)"
  by (metis mset_map mset_sort sum_mset_sum_list)

lemma size_DirNode_children:
  "sum_list (map (\<lambda>(_, n). Suc (size n)) children) < Suc (size_list (size_prod (\<lambda>x. 0) size) children)"
  by (induction children) auto

text \<open>
  The walk with its explicit stack of directory iterators, the innermost first. Each directory
  is listed in the order of its names.
\<close>

function walk_loop ::
  "'s chunk_has \<Rightarrow> 's chunk_put \<Rightarrow> (bytes \<Rightarrow> hash) \<Rightarrow> cdc_cutter \<Rightarrow> cdc_params \<Rightarrow> (string \<rightharpoonup> entry)
   \<Rightarrow> (string \<times> (string \<times> node) list) list \<Rightarrow> 's walk_state \<Rightarrow> unit res \<times> 's walk_state" where
  "walk_loop has put blake3 cutter cdc reusable [] w = (Inr (), w)"
| "walk_loop has put blake3 cutter cdc reusable ((pre, []) # stack) w =
     walk_loop has put blake3 cutter cdc reusable stack w"
| "walk_loop has put blake3 cutter cdc reusable ((pre, (name, LinkNode target) # items) # stack) w =
     walk_loop has put blake3 cutter cdc reusable ((pre, items) # stack)
       (add_entry (Symlink (rel_join pre name) target) w)"
| "walk_loop has put blake3 cutter cdc reusable ((pre, (name, DirNode mode mtime children) # items) # stack) w =
     walk_loop has put blake3 cutter cdc reusable
       ((rel_join pre name, sort_key fst children) # (pre, items) # stack)
       (add_entry (Dir (rel_join pre name) mode mtime) w)"
| "walk_loop has put blake3 cutter cdc reusable
     ((pre, (name, FileNode mode mtime ino nlink content) # items) # stack) w =
     (case walk_file has put blake3 cutter cdc reusable (rel_join pre name) mode mtime ino nlink content w of
        (Inl e, w') \<Rightarrow> (Inl e, w')
      | (Inr _, w') \<Rightarrow> walk_loop has put blake3 cutter cdc reusable ((pre, items) # stack) w')"
| "walk_loop has put blake3 cutter cdc reusable ((pre, (name, Special) # items) # stack) w = (Inl Usage, w)"
  by pat_completeness auto

termination walk_loop
  by (relation "measure (\<lambda>(has, put, blake3, cutter, cdc, reusable, stack, w). stack_weight stack)")
     (auto simp: stack_weight_def sum_list_sort_key size_DirNode_children)

text \<open>The parent's file entries by path; a later entry of the same path replaces an earlier one.\<close>

definition reusable_files :: "tree_index option \<Rightarrow> string \<rightharpoonup> entry" where
  "reusable_files parent =
     (case parent of
        None \<Rightarrow> Map.empty
      | Some t \<Rightarrow> fold (\<lambda>e m. case e of File p _ _ _ _ \<Rightarrow> m(p \<mapsto> e) | _ \<Rightarrow> m) (ti_entries t) Map.empty)"

definition build_tree_from ::
  "'s chunk_has \<Rightarrow> 's chunk_put \<Rightarrow> identity_encoder \<Rightarrow> (bytes \<Rightarrow> hash) \<Rightarrow> cdc_cutter \<Rightarrow> (string \<times> node) list
   \<Rightarrow> string \<Rightarrow> cdc_params \<Rightarrow> tree_index option \<Rightarrow> 's \<Rightarrow> tree_index res \<times> 's" where
  "build_tree_from has put enc blake3 cutter root bid cdc parent s =
     (case and_then (cdc_validate cdc) (\<lambda>_. blob_id_new bid) of
        Inl e \<Rightarrow> (Inl e, s)
      | Inr i \<Rightarrow>
          if (case parent of Some t \<Rightarrow> ti_cdc t \<noteq> cdc | None \<Rightarrow> False) then (Inl Usage, s)
          else case walk_loop has put blake3 cutter cdc (reusable_files parent) [([], sort_key fst root)]
                      \<lparr>wk_inodes = Map.empty, wk_entries = [], wk_store = s\<rparr> of
            (Inl e, w) \<Rightarrow> (Inl e, wk_store w)
          | (Inr _, w) \<Rightarrow>
              (and_then (root_digest enc blake3 (wk_entries w)) (\<lambda>root_hash.
                 let t = \<lparr>ti_version = WIRE_VERSION, ti_id = i, ti_algo = Blake3, ti_cdc = cdc,
                          ti_entries = wk_entries w, ti_root_hash = root_hash\<rparr> in
                 and_then (tree_validate enc blake3 t) (\<lambda>_. Inr t)),
               wk_store w))"

definition build_tree ::
  "'s chunk_has \<Rightarrow> 's chunk_put \<Rightarrow> identity_encoder \<Rightarrow> (bytes \<Rightarrow> hash) \<Rightarrow> cdc_cutter \<Rightarrow> (string \<times> node) list
   \<Rightarrow> string \<Rightarrow> cdc_params \<Rightarrow> 's \<Rightarrow> tree_index res \<times> 's" where
  "build_tree has put enc blake3 cutter root bid cdc s =
     build_tree_from has put enc blake3 cutter root bid cdc None s"

section \<open>Sharding a large index\<close>

definition INDEX_SHARD :: nat where "INDEX_SHARD = 64 * 1024"

text \<open>\<open>slice::chunks\<close>: pieces of \<open>n\<close> elements, the last one shorter.\<close>

function pieces_of :: "nat \<Rightarrow> 'a list \<Rightarrow> 'a list list" where
  "pieces_of n bs = (if bs = [] \<or> n = 0 then [] else take n bs # pieces_of n (drop n bs))"
  by auto
termination pieces_of
  by (relation "measure (\<lambda>(n, bs). length bs)") auto

declare pieces_of.simps [simp del]

definition shard_index ::
  "'s chunk_has \<Rightarrow> 's chunk_put \<Rightarrow> (bytes \<Rightarrow> hash) \<Rightarrow> bytes \<Rightarrow> hash \<Rightarrow> 's \<Rightarrow> index_descriptor res \<times> 's" where
  "shard_index has put blake3 encoded root s =
     (case store_pieces has put blake3 0 [] (pieces_of INDEX_SHARD encoded) s of
        (Inl e, s') \<Rightarrow> (Inl e, s')
      | (Inr (_, chunks), s') \<Rightarrow>
          (Inr \<lparr>id_version = WIRE_VERSION, id_root = root, id_algo = Blake3, id_index_chunks = chunks,
               id_index_len = of_nat (length encoded), id_ext = ext_new\<rparr>, s'))"

end
