(* ===== verification/Trees_Props.thy ===== *)
theory Trees_Props
  imports Trees
begin

text \<open>
  What a validated index guarantees, that a built index is one a client accepts and whose files
  are in the store, and that a sharded index is its encoding cut into pieces.
\<close>

section \<open>Referenced chunks\<close>

lemma note_hash_fold:
  "distinct out \<Longrightarrow> distinct (fold note_hash cs out) \<and> set (fold note_hash cs out) = set out \<union> cr_hash ` set cs"
proof (induction cs arbitrary: out)
  case (Cons c cs)
  have "distinct (note_hash c out)" "set (note_hash c out) = insert (cr_hash c) (set out)"
    using Cons.prems by (auto simp: note_hash_def)
  with Cons.IH[of "note_hash c out"] show ?case by auto
qed simp

lemma needed_chunks_spec:
  "distinct (needed_chunks t)" "set (needed_chunks t) = cr_hash ` set (all_refs (ti_entries t))"
  using note_hash_fold[of "[]"] by (simp_all add: needed_chunks_def)

lemma note_ref_hashes: "map cr_hash (note_ref c out) = note_hash c (map cr_hash out)"
  by (induction out) (auto simp: note_hash_def)

lemma note_ref_fold: "map cr_hash (fold note_ref cs out) = fold note_hash cs (map cr_hash out)"
  by (induction cs arbitrary: out) (simp_all add: note_ref_hashes)

lemma note_ref_mono: "d \<in> set out \<Longrightarrow> \<exists>d' \<in> set (note_ref c out). cr_hash d' = cr_hash d \<and> cr_len d \<le> cr_len d'"
  by (induction out) auto

lemma note_ref_new: "\<exists>d' \<in> set (note_ref c out). cr_hash d' = cr_hash c \<and> cr_len c \<le> cr_len d'"
  by (induction out) auto

lemma fold_note_ref_covers:
  "d \<in> set out \<union> set cs \<Longrightarrow> \<exists>d' \<in> set (fold note_ref cs out). cr_hash d' = cr_hash d \<and> cr_len d \<le> cr_len d'"
proof (induction cs arbitrary: out d)
  case (Cons c cs)
  consider "d \<in> set out" | "d = c" | "d \<in> set cs" using Cons.prems by auto
  then obtain d1 where "d1 \<in> set (note_ref c out) \<union> set cs" "cr_hash d1 = cr_hash d" "cr_len d \<le> cr_len d1"
  proof cases
    case 1
    then show ?thesis using note_ref_mono[of d out c] that by blast
  next
    case 2
    then show ?thesis using note_ref_new[of c out] that by blast
  qed (use that in auto)
  with Cons.IH[of d1 "note_ref c out"] show ?case by (auto intro: order_trans)
qed auto

lemma needed_chunk_refs_hashes: "map cr_hash (needed_chunk_refs t) = needed_chunks t"
  by (simp add: needed_chunk_refs_def needed_chunks_def note_ref_fold)

text \<open>The declared bound of a hash is at least every length an entry declares for it.\<close>

lemma needed_chunk_refs_bound:
  "c \<in> set (all_refs (ti_entries t)) \<Longrightarrow> \<exists>d \<in> set (needed_chunk_refs t). cr_hash d = cr_hash c \<and> cr_len c \<le> cr_len d"
  using fold_note_ref_covers[of c "[]"] by (simp add: needed_chunk_refs_def)

lemma fold_note_ref_max:
  "(\<forall>d \<in> set out \<union> set cs. P (cr_len d)) \<Longrightarrow> \<forall>d \<in> set (fold note_ref cs out). P (cr_len d)"
proof (induction cs arbitrary: out)
  case (Cons c cs)
  have "\<forall>d \<in> set (note_ref c out). P (cr_len d)"
    using Cons.prems by (induction out) (auto simp: max_def)
  then show ?case using Cons.IH [of "note_ref c out"] Cons.prems by auto
qed simp

section \<open>Validation\<close>

lemma validate_file_Inr:
  "validate_file cdc sz chunks = Inr () \<longleftrightarrow>
     sum_lens chunks = sz \<and> (\<forall>c \<in> set chunks. cr_len c \<noteq> 0 \<and> cr_len c \<le> cdc_max cdc)"
proof (cases "find (\<lambda>c. cr_len c = 0 \<or> cr_len c > cdc_max cdc) chunks")
  case None
  then have "\<forall>c \<in> set chunks. cr_len c \<noteq> 0 \<and> cr_len c \<le> cdc_max cdc" by (auto simp: find_None_iff not_less)
  with None show ?thesis by (simp add: validate_file_def)
next
  case (Some c)
  then have "c \<in> set chunks" "cr_len c = 0 \<or> cr_len c > cdc_max cdc" by (auto simp: find_Some_iff)
  then have "\<not> (\<forall>c \<in> set chunks. cr_len c \<noteq> 0 \<and> cr_len c \<le> cdc_max cdc)" by (meson leD)
  with Some show ?thesis by (simp add: validate_file_def)
qed

text \<open>The rules an accepted entry satisfies.\<close>

definition entry_ok :: "cdc_params \<Rightarrow> entry \<Rightarrow> bool" where
  "entry_ok cdc e \<longleftrightarrow> (\<exists>rel. sanitize_rel_path (entry_path e) = Inr rel
     \<and> (case e of
          File _ _ _ sz chunks \<Rightarrow>
            sum_lens chunks = sz \<and> (\<forall>c \<in> set chunks. cr_len c \<noteq> 0 \<and> cr_len c \<le> cdc_max cdc)
        | Symlink _ target \<Rightarrow> sanitize_symlink_target rel target = Inr ()
        | Hardlink _ target \<Rightarrow> is_ok (sanitize_rel_path target)
        | Dir _ _ _ \<Rightarrow> True))"

fun declared_links :: "entry list \<Rightarrow> (rel_path \<times> string) list" where
  "declared_links [] = []"
| "declared_links (Symlink p t # es) =
     (case sanitize_rel_path p of Inr rel \<Rightarrow> (rel, t) # declared_links es | Inl _ \<Rightarrow> declared_links es)"
| "declared_links (e # es) = declared_links es"

definition landing :: "entry \<Rightarrow> rel_path" where
  "landing e = (case sanitize_rel_path (entry_path e) of Inr rel \<Rightarrow> rel | Inl _ \<Rightarrow> [])"

lemma validate_entries_Inr:
  "validate_entries cdc seen links es = Inr ls \<longleftrightarrow>
     (\<forall>e \<in> set es. entry_ok cdc e) \<and> distinct (map landing es) \<and> set (map landing es) \<inter> set seen = {}
     \<and> ls = links @ declared_links es"
proof (induction es arbitrary: seen links)
  case Nil
  then show ?case by auto
next
  case (Cons e es)
  show ?case
  proof (cases "sanitize_rel_path (entry_path e)")
    case (Inl x)
    then show ?thesis by (auto simp: entry_ok_def)
  next
    case (Inr rel)
    then have l: "landing e = rel" by (simp add: landing_def)
    show ?thesis
    proof (cases e)
      case (File p m t sz chunks)
      then show ?thesis
        using Inr l by (auto simp: Cons.IH and_then_Inr entry_ok_def validate_file_Inr)
    next
      case (Symlink p t)
      then show ?thesis
        using Inr l by (auto simp: Cons.IH and_then_Inr entry_ok_def)
    next
      case (Hardlink p t)
      then show ?thesis
        using Inr l by (auto simp: Cons.IH and_then_Inr entry_ok_def is_ok_iff)
    next
      case (Dir p m t)
      then show ?thesis using Inr l by (auto simp: Cons.IH entry_ok_def)
    qed
  qed
qed

lemma tree_validate_Inr:
  "tree_validate enc blake3 t = Inr () \<longleftrightarrow>
     ti_version t = WIRE_VERSION \<and> cdc_validate (ti_cdc t) = Inr ()
     \<and> (\<forall>e \<in> set (ti_entries t). entry_ok (ti_cdc t) e) \<and> distinct (map landing (ti_entries t))
     \<and> assert_symlinks_confined (declared_links (ti_entries t)) = Inr ()
     \<and> root_digest enc blake3 (ti_entries t) = Inr (ti_root_hash t)"
  by (auto simp: tree_validate_def and_then_Inr validate_entries_Inr split: if_splits)

text \<open>Re-keying by the root keeps an index valid, and its new id is legal.\<close>

lemma keyed_by_root_ok:
  assumes "hash_wf (ti_root_hash t)"
  shows "is_content_addressed (keyed_by_root t)" "blob_id_new (ti_id (keyed_by_root t)) = Inr (ti_id (keyed_by_root t))"
    "tree_validate enc blake3 (keyed_by_root t) = tree_validate enc blake3 t"
  using hash_display_valid_id [OF assms]
  by (simp_all add: is_content_addressed_def keyed_by_root_def blob_id_new_def tree_validate_def cong: if_cong)

text \<open>The root covers everything but the modification times.\<close>

lemma root_digest_identity:
  "map identity_of es = map identity_of es' \<Longrightarrow> root_digest enc blake3 es = root_digest enc blake3 es'"
  by (simp add: root_digest_def)

section \<open>Building\<close>

text \<open>
  A build only adds to the store, keeps it sound when it was, and stores every chunk its entries
  name; on an error it leaves the store with more chunks, never with wrong ones.
\<close>

definition hash_sound :: "(bytes \<Rightarrow> hash) \<Rightarrow> (hash \<Rightarrow> bytes option) \<Rightarrow> bool" where
  "hash_sound blake3 m \<longleftrightarrow> (\<forall>h b. m h = Some b \<longrightarrow> blake3 b = h)"

definition grows :: "(bytes \<Rightarrow> hash) \<Rightarrow> (hash \<Rightarrow> bytes option) \<Rightarrow> (hash \<Rightarrow> bytes option) \<Rightarrow> bool" where
  "grows blake3 m m' \<longleftrightarrow> dom m \<subseteq> dom m' \<and> (hash_sound blake3 m \<longrightarrow> hash_sound blake3 m')"

lemma grows_refl [simp]: "grows blake3 m m"
  by (simp add: grows_def)

lemma grows_trans: "grows blake3 m m' \<Longrightarrow> grows blake3 m' m'' \<Longrightarrow> grows blake3 m m''"
  by (auto simp: grows_def)

lemma grows_update: "blake3 b = h \<Longrightarrow> grows blake3 m (m(h \<mapsto> b))"
  by (auto simp: grows_def hash_sound_def)

definition refs_wf :: "(string \<rightharpoonup> entry) \<Rightarrow> bool" where
  "refs_wf reusable \<longleftrightarrow> (\<forall>e \<in> ran reusable. \<forall>c \<in> set (entry_refs e). hash_wf (cr_hash c))"

definition piece_ref :: "(bytes \<Rightarrow> hash) \<Rightarrow> bytes \<Rightarrow> chunk_ref" where
  "piece_ref blake3 b = \<lparr>cr_hash = blake3 b, cr_len = of_nat (length b)\<rparr>"

lemma piece_ref_hashes [simp]: "cr_hash ` piece_ref blake3 ` B = blake3 ` B"
  by (simp add: image_image piece_ref_def)

context content_store
begin

lemma store_pieces_grows:
  assumes "inv s" "\<forall>b \<in> set bs. good (blake3 b) b \<and> hash_wf (blake3 b)"
    and "store_pieces has put blake3 sz refs bs s = (r, s')"
  shows "inv s' \<and> grows blake3 (contents s) (contents s')
     \<and> (\<forall>x. r = Inr x \<longrightarrow> x = (sz + of_nat (length (concat bs)), refs @ map (piece_ref blake3) bs)
          \<and> blake3 ` set bs \<subseteq> dom (contents s'))"
  using assms
proof (induction bs arbitrary: sz refs s)
  case (Cons b bs)
  let ?h = "blake3 b"
  note IH = Cons.IH [of _ "sz + of_nat (length b)" "refs @ [piece_ref blake3 b]"]
  have g: "good ?h b" "hash_wf ?h" using Cons.prems(2) by auto
  consider e where "has s ?h = Inl e" | "has s ?h = Inr True" | "has s ?h = Inr False"
    by (metis (full_types) sum.exhaust)
  then show ?case
  proof cases
    case 1
    then show ?thesis using Cons.prems by (auto simp: Let_def)
  next
    case 2
    then have "?h \<in> dom (contents s)" using has_Inr [OF Cons.prems(1) g(2)] by auto
    moreover have "store_pieces has put blake3 (sz + of_nat (length b)) (refs @ [piece_ref blake3 b]) bs s = (r, s')"
      using Cons.prems(3) 2 by (simp add: Let_def piece_ref_def)
    ultimately show ?thesis using IH [of s] Cons.prems(1,2) by (auto simp: grows_def piece_ref_def)
  next
    case 3
    show ?thesis
    proof (cases "put s ?h b")
      case (Pair r1 s1)
      show ?thesis
      proof (cases r1)
        case (Inl e)
        then show ?thesis using Cons.prems 3 Pair put_Inl [of s ?h b e s1] by (auto simp: Let_def)
      next
        case (Inr u)
        then have s1: "inv s1" "contents s1 = (contents s)(?h \<mapsto> b)"
          using put_Inr [OF Cons.prems(1) g(1), of s1] Pair by auto
        have "store_pieces has put blake3 (sz + of_nat (length b)) (refs @ [piece_ref blake3 b]) bs s1 = (r, s')"
          using Cons.prems(3) 3 Pair Inr by (simp add: Let_def piece_ref_def)
        from IH [OF s1(1) _ this] Cons.prems(2) have rest: "inv s'" "grows blake3 (contents s1) (contents s')"
          "\<forall>x. r = Inr x \<longrightarrow> x = (sz + of_nat (length b) + of_nat (length (concat bs)),
             (refs @ [piece_ref blake3 b]) @ map (piece_ref blake3) bs) \<and> blake3 ` set bs \<subseteq> dom (contents s')"
          by auto
        moreover have "grows blake3 (contents s) (contents s1)" by (simp add: s1(2) grows_update)
        moreover have "?h \<in> dom (contents s')" using rest(2) s1(2) by (auto simp: grows_def)
        ultimately show ?thesis by (auto intro: grows_trans)
      qed
    qed
  qed
qed auto

lemma all_present_Inr:
  assumes "inv s" "\<forall>c \<in> set cs. hash_wf (cr_hash c)" "all_present has s acc cs = Inr ok"
  shows "ok \<longleftrightarrow> acc \<and> (\<forall>c \<in> set cs. cr_hash c \<in> dom (contents s))"
  using assms(2,3)
proof (induction cs arbitrary: acc)
  case (Cons c cs)
  then obtain p where p: "has s (cr_hash c) = Inr p" "all_present has s (acc \<and> p) cs = Inr ok"
    by (auto split: sum.splits)
  with has_Inr [OF assms(1), of "cr_hash c" p] Cons show ?case by auto
qed simp

text \<open>The walk: its store grows, and every chunk its entries name is there.\<close>

definition stored :: "chunk_ref list \<Rightarrow> 's \<Rightarrow> bool" where
  "stored refs s \<longleftrightarrow> cr_hash ` set refs \<subseteq> dom (contents s)"

definition walk_inv :: "(bytes \<Rightarrow> hash) \<Rightarrow> (hash \<Rightarrow> bytes option) \<Rightarrow> 's walk_state \<Rightarrow> bool" where
  "walk_inv blake3 m w \<longleftrightarrow> inv (wk_store w) \<and> grows blake3 m (contents (wk_store w))
     \<and> stored (all_refs (wk_entries w)) (wk_store w)"

definition pieces_good :: "(bytes \<Rightarrow> hash) \<Rightarrow> cdc_cutter \<Rightarrow> cdc_params \<Rightarrow> bool" where
  "pieces_good blake3 cutter cdc \<longleftrightarrow> (\<forall>content. \<forall>b \<in> set (cdc_chunk_reader cutter cdc content).
     good (blake3 b) b \<and> hash_wf (blake3 b))"

lemma walk_inv_push [simp]:
  "walk_inv blake3 m (add_entry e w) \<longleftrightarrow> walk_inv blake3 m w \<and> stored (entry_refs e) (wk_store w)"
  by (auto simp: walk_inv_def add_entry_def all_refs_def image_Un stored_def)

lemma stored_Nil [simp]: "stored [] s"
  by (simp add: stored_def)

lemma walk_inv_inodes [simp]: "walk_inv blake3 m (w\<lparr>wk_inodes := i\<rparr>) = walk_inv blake3 m w"
  by (simp add: walk_inv_def)

lemma walk_inv_store:
  assumes "walk_inv blake3 m w" "inv s" "grows blake3 (contents (wk_store w)) (contents s)"
  shows "walk_inv blake3 m (w\<lparr>wk_store := s\<rparr>)"
proof -
  have "dom (contents (wk_store w)) \<subseteq> dom (contents s)" using assms(3) by (simp add: grows_def)
  moreover have "grows blake3 m (contents s)"
    using assms(1,3) grows_trans [of blake3 m "contents (wk_store w)"] by (simp add: walk_inv_def)
  ultimately show ?thesis using assms(1,2) by (simp add: walk_inv_def stored_def) (meson subset_trans)
qed

lemma reuse_file_present:
  assumes "inv s" "refs_wf reusable" "reuse_file has reusable rel mtime content s = Inr (Some (sz, chunks))"
  shows "stored chunks s"
proof -
  obtain e where e: "reusable rel = Some e" "sz = file_size e" "chunks = entry_refs e"
    "all_present has s True chunks = Inr True"
    using assms(3) by (auto simp: reuse_file_def and_then_Inr split: option.splits entry.splits if_splits)
  then have "\<forall>c \<in> set chunks. hash_wf (cr_hash c)"
    using assms(2) by (auto simp: refs_wf_def ran_def)
  from all_present_Inr [OF assms(1) this e(4)] show ?thesis by (auto simp: stored_def)
qed

lemma walk_file_inv:
  assumes "walk_inv blake3 m w" "pieces_good blake3 cutter cdc" "refs_wf reusable"
    and "walk_file has put blake3 cutter cdc reusable rel mode mtime ino nlink content w = (r, w')"
  shows "walk_inv blake3 m w'"
proof -
  obtain first inodes where hl: "hardlink_target ino nlink rel (wk_inodes w) = (first, inodes)"
    by (meson surj_pair)
  let ?w1 = "w\<lparr>wk_inodes := inodes\<rparr>"
  have w1: "walk_inv blake3 m ?w1" using assms(1) by simp
  obtain x s' where sp: "store_pieces has put blake3 0 [] (cdc_chunk_reader cutter cdc content) (wk_store w) = (x, s')"
    by (meson surj_pair)
  have "inv (wk_store w)" "\<forall>b \<in> set (cdc_chunk_reader cutter cdc content). good (blake3 b) b \<and> hash_wf (blake3 b)"
    using assms(1,2) by (simp_all add: walk_inv_def pieces_good_def)
  note all = store_pieces_grows [OF this sp]
  then have sg: "inv s'" "grows blake3 (contents (wk_store w)) (contents s')"
    by simp_all
  have refs: "stored refs s'" if "x = Inr (sz, refs)" for sz refs
    using all that by (simp add: stored_def)
  have ws: "walk_inv blake3 m (?w1\<lparr>wk_store := s'\<rparr>)" using w1 sg by (intro walk_inv_store) auto
  have reuse: "stored chunks (wk_store w)"
    if "reuse_file has reusable rel mtime content (wk_store w) = Inr (Some (sz, chunks))" for sz chunks
    using that assms(1,3) by (intro reuse_file_present) (auto simp: walk_inv_def)
  show ?thesis
    using assms(4) w1 ws refs reuse
    by (auto simp: walk_file_def Let_def hl sp
        split: option.splits sum.splits prod.splits)
qed

lemma walk_loop_inv:
  assumes "walk_inv blake3 m w" "pieces_good blake3 cutter cdc" "refs_wf reusable"
    and "walk_loop has put blake3 cutter cdc reusable stack w = (r, w')"
  shows "walk_inv blake3 m w'"
  using assms
proof (induction has' \<equiv> has put' \<equiv> put blake3 cutter cdc reusable stack w rule: walk_loop.induct)
  case (5 blake3 cutter cdc reusable pre name mode mtime ino nlink content items stack w)
  obtain x w1 where f: "walk_file has put blake3 cutter cdc reusable (rel_join pre name) mode mtime ino nlink content w
      = (x, w1)" by (meson surj_pair)
  have w1: "walk_inv blake3 m w1" by (rule walk_file_inv [OF 5(2-4) f])
  show ?case
  proof (cases x)
    case (Inl e)
    then show ?thesis using w1 5(5) f by simp
  next
    case (Inr u)
    then show ?thesis using 5(1) [OF f [symmetric] Inr w1 5(3,4)] 5(5) f by simp
  qed
qed auto

text \<open>A snapshot that was built is one every client accepts, and its chunks are in the store.\<close>

lemma build_tree_from_stored:
  assumes "inv s" "pieces_good blake3 cutter cdc" "refs_wf (reusable_files parent)"
    and "build_tree_from has put enc blake3 cutter root bid cdc parent s = (r, s')"
  shows "inv s' \<and> grows blake3 (contents s) (contents s')
     \<and> (\<forall>t. r = Inr t \<longrightarrow> tree_validate enc blake3 t = Inr () \<and> ti_cdc t = cdc
          \<and> set (needed_chunks t) \<subseteq> dom (contents s'))"
proof -
  let ?w0 = "\<lparr>wk_inodes = Map.empty, wk_entries = [], wk_store = s\<rparr>"
  obtain x w where wl: "walk_loop has put blake3 cutter cdc (reusable_files parent) [([], sort_key fst root)] ?w0
      = (x, w)" by (meson surj_pair)
  have "walk_inv blake3 (contents s) ?w0"
    using assms(1) by (simp add: walk_inv_def all_refs_def)
  from walk_loop_inv [OF this assms(2,3) wl]
  have w: "inv (wk_store w)" "grows blake3 (contents s) (contents (wk_store w))"
    "stored (all_refs (wk_entries w)) (wk_store w)" by (simp_all add: walk_inv_def)
  have "set (needed_chunks t) \<subseteq> dom (contents (wk_store w))" if "ti_entries t = wk_entries w" for t
    using w(3) that by (simp add: needed_chunks_spec stored_def)
  then show ?thesis
    using assms(1,4) w wl
    by (auto simp: build_tree_from_def and_then_Inr Let_def blob_id_new_def simp del: needed_chunks_spec
        del: subsetI split: sum.splits if_splits option.splits)
qed

text \<open>A sharded index is its encoding in pieces, all of them stored.\<close>

lemma shard_index_stored:
  assumes "inv s" "\<forall>b \<in> set (pieces_of INDEX_SHARD encoded). good (blake3 b) b \<and> hash_wf (blake3 b)"
    and "shard_index has put blake3 encoded root s = (r, s')"
  shows "inv s' \<and> grows blake3 (contents s) (contents s')
     \<and> (\<forall>d. r = Inr d \<longrightarrow> id_root d = root \<and> id_version d = WIRE_VERSION
          \<and> id_index_chunks d = map (piece_ref blake3) (pieces_of INDEX_SHARD encoded)
          \<and> id_index_len d = of_nat (length encoded)
          \<and> cr_hash ` set (id_index_chunks d) \<subseteq> dom (contents s'))"
proof -
  obtain x s1 where sp: "store_pieces has put blake3 0 [] (pieces_of INDEX_SHARD encoded) s = (x, s1)"
    by (meson surj_pair)
  from store_pieces_grows [OF assms(1,2) sp] assms(3) show ?thesis
    by (auto simp: shard_index_def sp simp del: image_image del: subsetI split: sum.splits)
qed

end

lemma concat_pieces_of: "0 < n \<Longrightarrow> concat (pieces_of n bs) = bs"
  by (induction n bs rule: pieces_of.induct) (subst pieces_of.simps, simp)

lemma pieces_of_bounds: "b \<in> set (pieces_of n bs) \<Longrightarrow> b \<noteq> [] \<and> length b \<le> n"
proof (induction n bs rule: pieces_of.induct)
  case (1 n bs)
  show ?case
    using 1(2) 1(1) by (subst (asm) pieces_of.simps) (auto split: if_splits)
qed

lemma sum_lens_pieces:
  assumes "\<forall>b \<in> set bs. length b < 2 ^ 32"
  shows "sum_lens (map (piece_ref blake3) bs) = of_nat (length (concat bs))"
  using assms
proof (induction bs)
  case (Cons b bs)
  have "ucast (of_nat (length b) :: u32) = (of_nat (length b) :: u64)"
    using Cons.prems by (simp add: word_unat_eq_iff unat_of_nat unat_ucast)
  with Cons show ?case by (simp add: sum_lens_def piece_ref_def)
qed (simp add: sum_lens_def)

text \<open>Entries with other modification times have the same identity.\<close>

fun retimed :: "(string \<Rightarrow> int) \<Rightarrow> entry \<Rightarrow> entry" where
  "retimed f (Dir p m _) = Dir p m (f p)"
| "retimed f (File p m _ s cs) = File p m (f p) s cs"
| "retimed f e = e"

lemma identity_retimed [simp]: "identity_of (retimed f e) = identity_of e"
  by (cases e) simp_all

section \<open>Building into a directory store\<close>

lemma build_into_dir:
  assumes inv: "dir_inv C s" and cutter: "cutter_lossless cutter" and wf: "\<And>b. hash_wf (cr_blake3 C b)"
    and parent: "refs_wf (reusable_files parent)"
    and run: "build_tree_from (dir_has C) (dir_put C) enc (cr_blake3 C) cutter root bid cdc parent s = (r, s')"
  shows "dir_inv C s' \<and> grows (cr_blake3 C) (dir_contents C s) (dir_contents C s')
    \<and> (\<forall>t. r = Inr t \<longrightarrow> tree_validate enc (cr_blake3 C) t = Inr () \<and> ti_cdc t = cdc
         \<and> set (needed_chunks t) \<subseteq> dom (dir_contents C s'))"
proof (cases "cdc_validate cdc")
  case (Inl e)
  then show ?thesis using run inv by (auto simp: build_tree_from_def)
next
  case (Inr u)
  then have "dirs.pieces_good C (cr_blake3 C) cutter cdc"
    using cutter wf cdc_validate_max [of cdc]
    by (fastforce simp: dirs.pieces_good_def cutter_lossless_def good_chunk_def MAX_UNPACKED_def)
  then show ?thesis by (rule dirs.build_tree_from_stored [OF inv _ parent run])
qed

lemma validated_lens:
  assumes "tree_validate enc blake3 index = Inr ()" "r \<in> set (all_refs (ti_entries index))"
  shows "cr_len r \<le> cdc_max (ti_cdc index)"
proof -
  obtain e where e: "e \<in> set (ti_entries index)" "r \<in> set (entry_refs e)" using assms(2) by (auto simp: all_refs_def)
  then have "entry_ok (ti_cdc index) e" using assms(1) by (simp add: tree_validate_Inr)
  then show ?thesis using e(2) by (cases e) (auto simp: entry_ok_def)
qed

end
