(* ===== verification/Tree_Serving.thy ===== *)
theory Tree_Serving
  imports Trees_Props Keys_Props Wire_Props Download
begin

text \<open>
  The tree server (\<open>src/src/tree.rs\<close>, \<open>TreeServer\<close> and the \<open>serve_*\<close> functions): registering a
  snapshot, and the handlers of store and tree queries. A handler returns its result, the
  replies it sent in order, and the store, which a read may change by dropping a corrupt file.
  Postcard is the parameter \<open>postcard\<close>.
\<close>

record postcard =
  pc_index :: "tree_index \<Rightarrow> bytes res"
  pc_get_index :: "bytes \<Rightarrow> tree_index res"
  pc_desc :: "index_descriptor \<Rightarrow> bytes res"
  pc_get_desc :: "bytes \<Rightarrow> index_descriptor res"
  pc_want :: "want_list \<Rightarrow> bytes res"
  pc_get_want :: "bytes \<Rightarrow> want_list res"
  pc_bits :: "have_bits \<Rightarrow> bytes res"
  pc_get_bits :: "bytes \<Rightarrow> have_bits res"
  pc_probe :: "tree_probe \<Rightarrow> bytes res"
  pc_get_probe :: "bytes \<Rightarrow> tree_probe res"
  pc_identity :: identity_encoder

text \<open>What the crate documents: decoding undoes encoding.\<close>

definition postcard_ok :: "postcard \<Rightarrow> bool" where
  "postcard_ok P \<longleftrightarrow>
     (\<forall>x b. pc_index P x = Inr b \<longrightarrow> pc_get_index P b = Inr x)
     \<and> (\<forall>x b. pc_desc P x = Inr b \<longrightarrow> pc_get_desc P b = Inr x)
     \<and> (\<forall>x b. pc_want P x = Inr b \<longrightarrow> pc_get_want P b = Inr x)
     \<and> (\<forall>x b. pc_bits P x = Inr b \<longrightarrow> pc_get_bits P b = Inr x)
     \<and> (\<forall>x b. pc_probe P x = Inr b \<longrightarrow> pc_get_probe P b = Inr x)"

section \<open>Queries and replies\<close>

text \<open>
  A query as its handler sees it. \<open>tq_open\<close> is how many replies it takes before its client is
  gone; from then on sending fails. An error reply is \<open>Inl ()\<close>.
\<close>

record tree_query =
  tq_key :: string
  tq_payload :: "bytes option"
  tq_accepts_any :: bool
  tq_open :: nat

type_synonym reply = "unit + sample"

definition send :: "'a tree_query_scheme \<Rightarrow> sample \<Rightarrow> reply list \<Rightarrow> unit res \<times> reply list" where
  "send q s out = (if length out < tq_open q then (Inr (), out @ [Inr s]) else (Inl Zenoh, out))"

definition send_err :: "'a tree_query_scheme \<Rightarrow> reply list" where
  "send_err q = (if 0 < tq_open q then [Inl ()] else [])"

section \<open>The server\<close>

record registered =
  rg_index :: tree_index
  rg_sharded :: "index_descriptor option"

record 's store_ops =
  so_has :: "'s chunk_has"
  so_get :: "'s \<Rightarrow> hash \<Rightarrow> (io_error + bytes option) \<times> 's"
  so_put :: "'s chunk_put"

record tree_config =
  tv_store_prefix :: serve_prefix
  tv_tree_prefix :: serve_prefix
  tv_compression :: chunk_compression
  tv_max_want_list :: nat
  tv_shard_threshold :: nat

record 's tree_server =
  tv_index :: "blob_id \<rightharpoonup> registered"
  tv_store :: 's

definition tree_register ::
  "'s store_ops \<Rightarrow> crates \<Rightarrow> postcard \<Rightarrow> tree_config \<Rightarrow> tree_index \<Rightarrow> 's tree_server \<Rightarrow> unit res \<times> 's tree_server" where
  "tree_register S C P cfg index v =
     (case pc_index P index of
        Inl e \<Rightarrow> (Inl e, v)
      | Inr encoded \<Rightarrow>
          if length encoded > tv_shard_threshold cfg
          then (case shard_index (so_has S) (so_put S) (cr_blake3 C) encoded (ti_root_hash index) (tv_store v) of
                  (Inl e, s) \<Rightarrow> (Inl e, v\<lparr>tv_store := s\<rparr>)
                | (Inr desc, s) \<Rightarrow>
                    (Inr (), \<lparr>tv_index = (tv_index v)(ti_id index \<mapsto> \<lparr>rg_index = index, rg_sharded = Some desc\<rparr>),
                             tv_store = s\<rparr>))
          else (Inr (), v\<lparr>tv_index := (tv_index v)(ti_id index \<mapsto> \<lparr>rg_index = index, rg_sharded = None\<rparr>)\<rparr>))"

definition tree_unregister :: "string \<Rightarrow> 's tree_server \<Rightarrow> 's tree_server" where
  "tree_unregister bid v = v\<lparr>tv_index := (tv_index v)(bid := None)\<rparr>"

definition tree_serves :: "string \<Rightarrow> 's tree_server \<Rightarrow> bool" where
  "tree_serves bid v \<longleftrightarrow> tv_index v bid \<noteq> None"

definition tree_served_index :: "string \<Rightarrow> 's tree_server \<Rightarrow> tree_index option" where
  "tree_served_index bid v = map_option rg_index (tv_index v bid)"

definition want_list_of :: "postcard \<Rightarrow> tree_config \<Rightarrow> tree_query \<Rightarrow> want_list option \<times> reply list" where
  "want_list_of P cfg q =
     (case tq_payload q of
        None \<Rightarrow> (None, send_err q)
      | Some payload \<Rightarrow>
          (case pc_get_want P payload of
             Inl _ \<Rightarrow> (None, send_err q)
           | Inr want \<Rightarrow>
               (case want_list_validate want (tv_max_want_list cfg) of
                  Inl _ \<Rightarrow> (None, send_err q)
                | Inr _ \<Rightarrow> (Some want, []))))"

text \<open>The blocking pass of a batch; the first error stops it.\<close>

fun pack_held ::
  "'s store_ops \<Rightarrow> crates \<Rightarrow> tree_config \<Rightarrow> hash list \<Rightarrow> 's \<Rightarrow> (string \<times> bytes) list res \<times> 's" where
  "pack_held S C cfg [] s = (Inr [], s)"
| "pack_held S C cfg (h # hs) s =
     (case so_get S s h of
        (Inl e, s1) \<Rightarrow> (Inl (Io e), s1)
      | (Inr None, s1) \<Rightarrow> pack_held S C cfg hs s1
      | (Inr (Some b), s1) \<Rightarrow>
          (case pack C b (tv_compression cfg) of
             Inl e \<Rightarrow> (Inl e, s1)
           | Inr framed \<Rightarrow>
               then_io (pack_held S C cfg hs s1) (\<lambda>rest s2.
                 (Inr ((store_key (tv_store_prefix cfg) Blake3 h, framed) # rest), s2))))"

fun stream_replies :: "tree_query \<Rightarrow> (string \<times> bytes) list \<Rightarrow> reply list \<Rightarrow> reply list" where
  "stream_replies q [] out = out"
| "stream_replies q ((key, b) # rest) out =
     (case send q \<lparr>sm_encoding = ENC_CHUNK, sm_key = key, sm_payload = b\<rparr> out of
        (Inl _, out') \<Rightarrow> out'
      | (Inr _, out') \<Rightarrow> stream_replies q rest out')"

definition serve_chunk_batch ::
  "'s store_ops \<Rightarrow> crates \<Rightarrow> postcard \<Rightarrow> tree_config \<Rightarrow> tree_query \<Rightarrow> 's \<Rightarrow> (unit res \<times> reply list) \<times> 's" where
  "serve_chunk_batch S C P cfg q s =
     (if \<not> tq_accepts_any q then ((Inr (), send_err q), s)
      else case want_list_of P cfg q of
             (None, out) \<Rightarrow> ((Inr (), out), s)
           | (Some want, out) \<Rightarrow>
               (case pack_held S C cfg (wl_hashes want) s of
                  (Inl e, s') \<Rightarrow> ((Inl e, out), s')
                | (Inr held, s') \<Rightarrow> ((Inr (), stream_replies q held out), s')))"

definition serve_chunk_probe ::
  "'s store_ops \<Rightarrow> postcard \<Rightarrow> tree_config \<Rightarrow> tree_query \<Rightarrow> 's \<Rightarrow> unit res \<times> reply list" where
  "serve_chunk_probe S P cfg q s =
     (case want_list_of P cfg q of
        (None, out) \<Rightarrow> (Inr (), out)
      | (Some want, out) \<Rightarrow>
          (case store_has_many (so_has S) s (wl_hashes want) of
             Inl e \<Rightarrow> (Inl (Io e), out)
           | Inr presence \<Rightarrow>
               (case pc_bits P (have_bits_from_presence presence) of
                  Inl e \<Rightarrow> (Inl e, out)
                | Inr payload \<Rightarrow>
                    send q \<lparr>sm_encoding = ENC_HAVEBITS, sm_key = store_have_key (tv_store_prefix cfg) Blake3,
                            sm_payload = payload\<rparr> out)))"

definition serve_one_chunk ::
  "'s store_ops \<Rightarrow> crates \<Rightarrow> tree_config \<Rightarrow> tree_query \<Rightarrow> string \<Rightarrow> 's \<Rightarrow> (unit res \<times> reply list) \<times> 's" where
  "serve_one_chunk S C cfg q hex s =
     (case hash_from_str hex of
        Inl _ \<Rightarrow> ((Inr (), []), s)
      | Inr h \<Rightarrow>
          (case so_get S s h of
             (Inl e, s') \<Rightarrow> ((Inl (Io e), []), s')
           | (Inr None, s') \<Rightarrow> ((Inr (), []), s')
           | (Inr (Some b), s') \<Rightarrow>
               (case pack C b (tv_compression cfg) of
                  Inl e \<Rightarrow> ((Inl e, []), s')
                | Inr packed \<Rightarrow>
                    (send q \<lparr>sm_encoding = ENC_CHUNK, sm_key = store_key (tv_store_prefix cfg) Blake3 h,
                             sm_payload = packed\<rparr> [], s'))))"

definition serve_chunk_query ::
  "'s store_ops \<Rightarrow> crates \<Rightarrow> postcard \<Rightarrow> tree_config \<Rightarrow> tree_query \<Rightarrow> 's \<Rightarrow> (unit res \<times> reply list) \<times> 's" where
  "serve_chunk_query S C P cfg q s =
     (case parse_tier2_tail (tv_store_prefix cfg) (tq_key q) of
        Some (Two algo lst) \<Rightarrow>
          if algo \<noteq> ''blake3'' then ((Inr (), []), s)
          else if lst = STORE_BATCH then serve_chunk_batch S C P cfg q s
          else if lst = STORE_HAVE then (serve_chunk_probe S P cfg q s, s)
          else serve_one_chunk S C cfg q lst s
      | _ \<Rightarrow> ((Inr (), []), s))"

definition serve_tree_probe ::
  "'s store_ops \<Rightarrow> postcard \<Rightarrow> tree_config \<Rightarrow> tree_query \<Rightarrow> string \<Rightarrow> 's tree_server \<Rightarrow> unit res \<times> reply list" where
  "serve_tree_probe S P cfg q bid v =
     (case tv_index v bid of
        None \<Rightarrow> (Inr (), [])
      | Some reg \<Rightarrow>
          (let needed = needed_chunks (rg_index reg) in
           case store_has_many (so_has S) (tv_store v) needed of
             Inl e \<Rightarrow> (Inl (Io e), [])
           | Inr presence \<Rightarrow>
               (case pc_probe P \<lparr>tp_version = WIRE_VERSION, tp_have_index = True,
                                 tp_chunks_present = of_nat (length (filter (\<lambda>p. p) presence)),
                                 tp_chunks_total = of_nat (length needed)\<rparr> of
                  Inl e \<Rightarrow> (Inl e, [])
                | Inr payload \<Rightarrow>
                    send q \<lparr>sm_encoding = ENC_TREEPROBE, sm_key = tree_have_key (tv_tree_prefix cfg) bid,
                            sm_payload = payload\<rparr> [])))"

definition serve_index_query ::
  "'s store_ops \<Rightarrow> postcard \<Rightarrow> tree_config \<Rightarrow> tree_query \<Rightarrow> 's tree_server \<Rightarrow> unit res \<times> reply list" where
  "serve_index_query S P cfg q v =
     (case parse_tier2_tail (tv_tree_prefix cfg) (tq_key q) of
        None \<Rightarrow> (Inr (), [])
      | Some (Two bid lst) \<Rightarrow> if lst = STORE_HAVE then serve_tree_probe S P cfg q bid v else (Inr (), [])
      | Some (One bid) \<Rightarrow>
          (case tv_index v bid of
             None \<Rightarrow> (Inr (), [])
           | Some reg \<Rightarrow>
               (case (case rg_sharded reg of
                        Some desc \<Rightarrow> and_then (pc_desc P desc) (\<lambda>b. Inr (b, ENC_INDEX_DESC))
                      | None \<Rightarrow> and_then (pc_index P (rg_index reg)) (\<lambda>b. Inr (b, ENC_INDEX))) of
                  Inl e \<Rightarrow> (Inl e, [])
                | Inr (payload, enc) \<Rightarrow>
                    send q \<lparr>sm_encoding = enc, sm_key = tree_key (tv_tree_prefix cfg) bid, sm_payload = payload\<rparr> [])))"

end
