(* ===== verification/Server.thy ===== *)
theory Server
  imports Tree_Serving
begin

text \<open>
  The blob server (\<open>src/src/server.rs\<close>): registering blobs, serving manifests, availability and
  slices, and receiving pushes. State is the registry, the pushes in progress and the files of
  the spool; the clock is part of it. The bao tree, postcard and the push policy are parameters.
  The handlers of a push are cut where the source releases its lock, so that interleavings of
  concurrent handlers are sequences of these steps; the handlers themselves run them in order.
\<close>

section \<open>Environment and state\<close>

type_synonym outboard = bytes

datatype spool_op = SpoolMkdir | SpoolCreate string | SpoolSetLen string | SpoolSave string | SpoolWrite string
  | SpoolRename string

record server_env =
  se_bao :: bao
  se_compute_outboard :: "bytes \<Rightarrow> io_error + outboard"
  se_root :: "outboard \<Rightarrow> hash"
  se_encode_slice :: "outboard \<Rightarrow> bytes \<Rightarrow> u64 \<times> u64 \<Rightarrow> io_error + bytes"
  se_enc_manifest :: "manifest \<Rightarrow> bytes res"
  se_dec_manifest :: "bytes \<Rightarrow> manifest res"
  se_enc_avail :: "availability \<Rightarrow> bytes res"
  se_enc_ranges :: "range list \<Rightarrow> bytes res"
  se_enc_u32 :: "u32 \<Rightarrow> bytes res"
  se_enc_state :: "resume_state \<Rightarrow> bytes res"
  se_dec_state :: "bytes \<Rightarrow> resume_state res"
  se_policy :: "manifest \<Rightarrow> bytes option \<Rightarrow> bool"
  se_fault :: "spool_op \<Rightarrow> io_error option"
  se_torn :: "(u64 \<times> bytes) list \<Rightarrow> (u64 \<times> bytes) list"

text \<open>
  A failing write leaves the leaves \<open>se_torn\<close> says. A file is its content and its modification
  time.
\<close>

type_synonym files = "string \<rightharpoonup> bytes \<times> nat"

datatype blob_source = FileBlobSource string | MemoryBlobSource bytes

record source_fingerprint =
  sf_len :: nat
  sf_mtime :: nat

definition source_open :: "files \<Rightarrow> blob_source \<Rightarrow> io_error + bytes" where
  "source_open fl src =
     (case src of
        MemoryBlobSource b \<Rightarrow> Inr b
      | FileBlobSource p \<Rightarrow> (case fl p of Some (b, _) \<Rightarrow> Inr b | None \<Rightarrow> Inl IoNotFound))"

definition fingerprint :: "files \<Rightarrow> blob_source \<Rightarrow> source_fingerprint option" where
  "fingerprint fl src =
     (case src of
        MemoryBlobSource b \<Rightarrow> None
      | FileBlobSource p \<Rightarrow> map_option (\<lambda>(b, t). \<lparr>sf_len = length b, sf_mtime = t\<rparr>) (fl p))"

record registered_blob =
  rb_manifest :: manifest
  rb_chunks :: transfer_chunks
  rb_source :: blob_source
  rb_outboard :: outboard
  rb_fingerprint :: "source_fingerprint option"

record push_config =
  pu_spool_dir :: string
  pu_max_blob_size :: u64
  pu_max_concurrent :: nat
  pu_idle_timeout :: nat

record push_entry =
  pe_manifest :: manifest
  pe_chunks :: transfer_chunks
  pe_state :: resume_state
  pe_last_activity :: nat
  pe_dirty_marks :: u32

record server_config =
  sv_prefix :: serve_prefix
  sv_max_chunks_per_query :: u32
  sv_push :: "push_config option"

record blob_server =
  bs_registry :: "blob_id \<rightharpoonup> registered_blob"
  bs_pushes :: "(blob_id \<times> push_entry) list"
  bs_files :: files
  bs_now :: nat

definition with_max_concurrent :: "nat \<Rightarrow> push_config \<Rightarrow> push_config" where
  "with_max_concurrent n p = p\<lparr>pu_max_concurrent := max n 1\<rparr>"

section \<open>Registering\<close>

definition push_max_blob_size :: "server_config \<Rightarrow> u64" where
  "push_max_blob_size cfg = (case sv_push cfg of None \<Rightarrow> U64_MAX | Some p \<Rightarrow> pu_max_blob_size p)"

definition advertised_ext :: "server_config \<Rightarrow> ext res" where
  "advertised_ext cfg =
     (case ext_set_u32 ext_new EXT_MAX_CHUNKS_PER_QUERY (sv_max_chunks_per_query cfg) of
        (Inl e, _) \<Rightarrow> Inl e
      | (Inr _, ext) \<Rightarrow>
          (case ext_set_u64 ext EXT_MAX_BLOB_SIZE (push_max_blob_size cfg) of
             (Inl e, _) \<Rightarrow> Inl e
           | (Inr _, ext') \<Rightarrow> Inr ext'))"

definition finish_register ::
  "server_env \<Rightarrow> server_config \<Rightarrow> blob_spec \<Rightarrow> blob_source \<Rightarrow> outboard \<Rightarrow> u64 \<Rightarrow> blob_server \<Rightarrow> manifest res \<times> blob_server" where
  "finish_register E cfg spec src ob tot v =
     (case and_then (validate_id (bs_id spec)) (\<lambda>_.
           and_then (transfer_chunks_new (bs_chunk_size spec) tot) (\<lambda>chunks.
           and_then (blob_id_new (bs_id spec)) (\<lambda>i.
           and_then (advertised_ext cfg) (\<lambda>ext.
             Inr (chunks, \<lparr>m_version = WIRE_VERSION, m_id = i, m_filename = bs_filename spec, m_total_len = tot,
                           m_chunk_size = bs_chunk_size spec, m_root = se_root E ob,
                           m_created_ms = bs_created_ms spec, m_ext = ext\<rparr>))))) of
        Inl e \<Rightarrow> (Inl e, v)
      | Inr (chunks, manifest) \<Rightarrow>
          (case bs_registry v (bs_id spec) of
             Some existing \<Rightarrow>
               if m_root (rb_manifest existing) = m_root manifest then (Inr manifest, v) else (Inl Usage, v)
           | None \<Rightarrow>
               (Inr manifest,
                v\<lparr>bs_registry := (bs_registry v)(m_id manifest \<mapsto>
                    \<lparr>rb_manifest = manifest, rb_chunks = chunks, rb_source = src, rb_outboard = ob,
                     rb_fingerprint = fingerprint (bs_files v) src\<rparr>)\<rparr>)))"

definition register_file ::
  "server_env \<Rightarrow> server_config \<Rightarrow> blob_spec \<Rightarrow> string \<Rightarrow> blob_server \<Rightarrow> manifest res \<times> blob_server" where
  "register_file E cfg spec path v =
     (case bs_files v path of
        None \<Rightarrow> (Inl (Io IoNotFound), v)
      | Some (content, _) \<Rightarrow>
          (case se_compute_outboard E content of
             Inl e \<Rightarrow> (Inl (Io e), v)
           | Inr ob \<Rightarrow> finish_register E cfg spec (FileBlobSource path) ob (of_nat (length content)) v))"

definition register_source ::
  "server_env \<Rightarrow> server_config \<Rightarrow> blob_spec \<Rightarrow> blob_source \<Rightarrow> blob_server \<Rightarrow> manifest res \<times> blob_server" where
  "register_source E cfg spec src v =
     (case source_open (bs_files v) src of
        Inl e \<Rightarrow> (Inl (Io e), v)
      | Inr content \<Rightarrow>
          (case se_compute_outboard E content of
             Inl e \<Rightarrow> (Inl (Io e), v)
           | Inr ob \<Rightarrow> finish_register E cfg spec src ob (of_nat (length content)) v))"

definition unregister :: "string \<Rightarrow> blob_server \<Rightarrow> blob_server" where
  "unregister bid v = v\<lparr>bs_registry := (bs_registry v)(bid := None)\<rparr>"

definition served_manifest :: "string \<Rightarrow> blob_server \<Rightarrow> manifest option" where
  "served_manifest bid v = map_option rb_manifest (bs_registry v bid)"

section \<open>Serving\<close>

record blob_query = tree_query +
  bq_params :: string
  bq_attachment :: "bytes option"

text \<open>A handler's outcome: its result and the replies sent so far.\<close>

type_synonym outcome = "unit res \<times> reply list"

definition refuse :: "'a tree_query_scheme \<Rightarrow> outcome" where
  "refuse q = (Inr (), send_err q)"

definition add_err :: "'a tree_query_scheme \<Rightarrow> reply list \<Rightarrow> reply list" where
  "add_err q out = (if length out < tq_open q then out @ [Inl ()] else out)"

fun serve_slices ::
  "server_env \<Rightarrow> server_config \<Rightarrow> blob_query \<Rightarrow> string \<Rightarrow> registered_blob \<Rightarrow> bytes \<Rightarrow> u32 list \<Rightarrow> reply list \<Rightarrow> outcome" where
  "serve_slices E cfg q bid r content [] out = (Inr (), out)"
| "serve_slices E cfg q bid r content (i # is) out =
     (case se_encode_slice E (rb_outboard r) content (chunk_range (se_bao E) (byte_range (rb_chunks r) i)) of
        Inl e \<Rightarrow> (Inl (Io e), out)
      | Inr body \<Rightarrow>
          (case send q \<lparr>sm_encoding = ENC_SLICE, sm_key = slice_key (sv_prefix cfg) bid i, sm_payload = body\<rparr> out of
             (Inl _, out') \<Rightarrow> (Inr (), out')
           | (Inr _, out') \<Rightarrow> serve_slices E cfg q bid r content is out'))"

definition range_indices :: "range \<Rightarrow> u32 list" where
  "range_indices r = map of_nat [unat (fst r) ..< unat (snd r)]"

definition serve_registered :: "server_env \<Rightarrow> server_config \<Rightarrow> blob_query \<Rightarrow> string \<Rightarrow> registered_blob \<Rightarrow> files \<Rightarrow> outcome" where
  "serve_registered E cfg q bid r fl =
     (if (case (rb_fingerprint r, fingerprint fl (rb_source r)) of
            (Some a, Some b) \<Rightarrow> a \<noteq> b | _ \<Rightarrow> False)
      then (Inl Protocol, send_err q)
      else if ends_with ''/have'' (tq_key q)
      then (case se_enc_avail E (availability_full (tc_count (rb_chunks r))) of
              Inl e \<Rightarrow> (Inl e, [])
            | Inr payload \<Rightarrow>
                send q \<lparr>sm_encoding = ENC_AVAIL, sm_key = availability_key (sv_prefix cfg) bid, sm_payload = payload\<rparr> [])
      else if ends_with ''/manifest'' (tq_key q)
      then (case se_enc_manifest E (rb_manifest r) of
              Inl e \<Rightarrow> (Inl e, [])
            | Inr payload \<Rightarrow>
                send q \<lparr>sm_encoding = ENC_MANIFEST, sm_key = manifest_key (sv_prefix cfg) bid, sm_payload = payload\<rparr> [])
      else case parse_ranges (bq_params q) (tc_count (rb_chunks r)) (sv_max_chunks_per_query cfg) of
             Inl e \<Rightarrow> (Inl e, send_err q)
           | Inr ranges \<Rightarrow>
               (case source_open fl (rb_source r) of
                  Inl e \<Rightarrow> (Inl (Io e), [])
                | Inr content \<Rightarrow>
                    serve_slices E cfg q bid r content (concat (map range_indices ranges)) []))"

section \<open>Receiving pushes\<close>

definition push_part_path :: "push_config \<Rightarrow> string \<Rightarrow> string" where
  "push_part_path push bid = pu_spool_dir push @ ''/'' @ bid @ ''.push.part''"

definition push_blob_path :: "push_config \<Rightarrow> string \<Rightarrow> string" where
  "push_blob_path push bid = pu_spool_dir push @ ''/'' @ bid @ ''.blob''"

definition cleanup_spool :: "push_config \<Rightarrow> blob_id list \<Rightarrow> files \<Rightarrow> files" where
  "cleanup_spool push evicted fl =
     fold (\<lambda>i fl. let part = push_part_path push i in fl(part := None, sidecar_path part := None)) evicted fl"

definition save_push_state ::
  "server_env \<Rightarrow> string \<Rightarrow> resume_state \<Rightarrow> blob_server \<Rightarrow> unit res \<times> blob_server" where
  "save_push_state E part st v =
     (case sidecar_payload (se_enc_state E) st of
        Inl e \<Rightarrow> (Inl e, v)
      | Inr payload \<Rightarrow>
          (case se_fault E (SpoolSave part) of
             Some e \<Rightarrow> (Inl (Io e), v)
           | None \<Rightarrow> (Inr (), v\<lparr>bs_files := (bs_files v)(sidecar_path part \<mapsto> (payload, bs_now v))\<rparr>)))"

definition finalize_push ::
  "server_env \<Rightarrow> push_config \<Rightarrow> string \<Rightarrow> blob_server \<Rightarrow> unit res \<times> blob_server" where
  "finalize_push E push bid v =
     (case map_of (bs_pushes v) bid of
        None \<Rightarrow> (Inr (), v)
      | Some entry \<Rightarrow>
          (let v1 = v\<lparr>bs_pushes := AList.delete bid (bs_pushes v)\<rparr>;
               part = push_part_path push bid; blob = push_blob_path push bid in
           case (se_fault E (SpoolRename part), bs_files v1 part) of
             (Some e, _) \<Rightarrow> (Inl (Io e), v1)
           | (None, None) \<Rightarrow> (Inl (Io IoNotFound), v1)
           | (None, Some (content, t)) \<Rightarrow>
               (let fl = (bs_files v1)(part := None, blob \<mapsto> (content, t), sidecar_path part := None);
                    v2 = v1\<lparr>bs_files := fl\<rparr> in
                case se_compute_outboard E content of
                  Inl e \<Rightarrow> (Inl (Io e), v2)
                | Inr ob \<Rightarrow>
                    if se_root E ob \<noteq> m_root (pe_manifest entry) \<or> of_nat (length content) \<noteq> m_total_len (pe_manifest entry)
                    then (Inl (RootMismatch (m_root (pe_manifest entry)) (se_root E ob)),
                          v2\<lparr>bs_files := fl(blob := None)\<rparr>)
                    else (case bs_registry v2 bid of
                            Some existing \<Rightarrow>
                              (if m_root (rb_manifest existing) = m_root (pe_manifest entry) then Inr () else Inl PushDenied,
                               v2\<lparr>bs_files := fl(blob := None)\<rparr>)
                          | None \<Rightarrow>
                              (Inr (), v2\<lparr>bs_registry := (bs_registry v2)(m_id (pe_manifest entry) \<mapsto>
                                 \<lparr>rb_manifest = pe_manifest entry, rb_chunks = pe_chunks entry,
                                  rb_source = FileBlobSource blob, rb_outboard = ob,
                                  rb_fingerprint = fingerprint fl (FileBlobSource blob)\<rparr>)\<rparr>)))))"

text \<open>The checks of an offer before any state is looked at.\<close>

definition offer_checks ::
  "server_env \<Rightarrow> server_config \<Rightarrow> blob_query \<Rightarrow> string \<Rightarrow> outcome + (push_config \<times> manifest \<times> transfer_chunks)" where
  "offer_checks E cfg q key_id =
     (case (sv_push cfg, tq_payload q) of
        (None, _) \<Rightarrow> Inl (refuse q)
      | (Some push, None) \<Rightarrow> Inl (refuse q)
      | (Some push, Some payload) \<Rightarrow>
          (case se_dec_manifest E payload of
             Inl _ \<Rightarrow> Inl (refuse q)
           | Inr m \<Rightarrow>
               if \<not> is_ok (manifest_validate m (pu_max_blob_size push)) then Inl (refuse q)
               else if m_id m \<noteq> key_id then Inl (refuse q)
               else if \<not> se_policy E m (bq_attachment q) then Inl (refuse q)
               else (case manifest_chunks m of
                       Inl e \<Rightarrow> Inl (Inl e, [])
                     | Inr chunks \<Rightarrow> Inr (push, m, chunks))))"

definition push_ack :: "blob_query \<Rightarrow> bytes \<Rightarrow> outcome" where
  "push_ack q payload = send q \<lparr>sm_encoding = ENC_PUSH, sm_key = tq_key q, sm_payload = payload\<rparr> []"

text \<open>Encode an acknowledgement, finalize when nothing is missing, then reply.\<close>

definition ack_and_finalize ::
  "server_env \<Rightarrow> push_config \<Rightarrow> blob_query \<Rightarrow> string \<Rightarrow> bytes res \<Rightarrow> bool \<Rightarrow> blob_server \<Rightarrow> outcome \<times> blob_server" where
  "ack_and_finalize E push q bid ack complete v =
     (case ack of
        Inl e \<Rightarrow> ((Inl e, []), v)
      | Inr payload \<Rightarrow>
          (if complete
           then (case finalize_push E push bid v of
                   (Inl e, v') \<Rightarrow> ((Inl e, []), v')
                 | (Inr _, v') \<Rightarrow> (push_ack q payload, v'))
           else (push_ack q payload, v)))"

text \<open>
  The fast path: collisions with the registry, eviction of idle pushes, resuming one in flight,
  the cap. \<open>Inl\<close> ends the offer; \<open>Inr\<close> goes on to the spool with the evicted files removed.
\<close>

definition idle_pushes :: "push_config \<Rightarrow> blob_server \<Rightarrow> (blob_id \<times> push_entry) list" where
  "idle_pushes push v =
     filter (\<lambda>(_, e). \<not> bs_now v - pe_last_activity e \<le> pu_idle_timeout push) (bs_pushes v)"

definition evict_idle :: "push_config \<Rightarrow> blob_server \<Rightarrow> blob_server" where
  "evict_idle push v = v\<lparr>bs_pushes :=
     filter (\<lambda>(_, e). bs_now v - pe_last_activity e \<le> pu_idle_timeout push) (bs_pushes v)\<rparr>"

definition offer_fast_path ::
  "server_env \<Rightarrow> push_config \<Rightarrow> blob_query \<Rightarrow> manifest \<Rightarrow> transfer_chunks \<Rightarrow> blob_server
   \<Rightarrow> (outcome + unit) \<times> blob_server" where
  "offer_fast_path E push q m chunks v =
     (case bs_registry v (m_id m) of
        Some existing \<Rightarrow>
          (if m_root (rb_manifest existing) = m_root m
           then (case se_enc_ranges E [] of Inl e \<Rightarrow> (Inl (Inl e, []), v) | Inr b \<Rightarrow> (Inl (push_ack q b), v))
           else (Inl (refuse q), v))
      | None \<Rightarrow>
          (let evicted = map fst (idle_pushes push v);
               v1 = evict_idle push v;
               cleaned = v1\<lparr>bs_files := cleanup_spool push evicted (bs_files v1)\<rparr> in
           case map_of (bs_pushes v1) (m_id m) of
             Some e \<Rightarrow>
               if m_root (pe_manifest e) \<noteq> m_root m \<or> m_total_len (pe_manifest e) \<noteq> m_total_len m
                  \<or> m_chunk_size (pe_manifest e) \<noteq> m_chunk_size m
               then (Inl (refuse q), v1)
               else (let e' = e\<lparr>pe_last_activity := bs_now v\<rparr>;
                         touch = (\<lambda>w. w\<lparr>bs_pushes := AList.update (m_id m) e' (bs_pushes w)\<rparr>);
                         wanted = missing_ranges (pe_state e) (tc_count chunks) in
                     case se_enc_ranges E wanted of
                       Inl x \<Rightarrow> (Inl (Inl x, []), touch v1)
                     | Inr ack \<Rightarrow>
                         (case ack_and_finalize E push q (m_id m) (Inr ack) (wanted = []) (touch cleaned) of
                            (out, v') \<Rightarrow> (Inl out, v')))
           | None \<Rightarrow>
               if length (bs_pushes v1) \<ge> pu_max_concurrent push then (Inl (refuse q), cleaned)
               else (Inr (), cleaned)))"

text \<open>Looking for a spooled push of an earlier run.\<close>

definition spool_probe ::
  "server_env \<Rightarrow> push_config \<Rightarrow> manifest \<Rightarrow> transfer_chunks \<Rightarrow> blob_server \<Rightarrow> resume_state option" where
  "spool_probe E push m chunks v =
     (let part = push_part_path push (m_id m);
          sidecar = (case bs_files v (sidecar_path part) of Some (b, _) \<Rightarrow> Inr b | None \<Rightarrow> Inl IoNotFound) in
      case resume_load (se_dec_state E) sidecar of
        Some s \<Rightarrow>
          if resume_matches s m (tc_count chunks)
             \<and> map_option (\<lambda>(b, _). of_nat (length b)) (bs_files v part) = Some (m_total_len m)
          then Some s else None
      | None \<Rightarrow> None)"

definition spool_create ::
  "server_env \<Rightarrow> push_config \<Rightarrow> manifest \<Rightarrow> transfer_chunks \<Rightarrow> blob_server \<Rightarrow> resume_state res \<times> blob_server" where
  "spool_create E push m chunks v =
     (let part = push_part_path push (m_id m) in
      case se_fault E (SpoolCreate part) of
        Some e \<Rightarrow> (Inl (Io e), v)
      | None \<Rightarrow>
          (let v1 = v\<lparr>bs_files := (bs_files v)(part \<mapsto> ([], bs_now v))\<rparr> in
           case se_fault E (SpoolSetLen part) of
             Some e \<Rightarrow> (Inl (Io e), v1)
           | None \<Rightarrow>
               (let v2 = v1\<lparr>bs_files := (bs_files v1)(part \<mapsto> (set_len (unat (m_total_len m)) [], bs_now v))\<rparr>;
                    fresh = resume_fresh m (tc_count chunks) in
                then_io (save_push_state E part fresh v2) (\<lambda>_ v3. (Inr fresh, v3)))))"

definition offer_insert ::
  "server_env \<Rightarrow> push_config \<Rightarrow> blob_query \<Rightarrow> manifest \<Rightarrow> transfer_chunks \<Rightarrow> resume_state \<Rightarrow> blob_server
   \<Rightarrow> outcome \<times> blob_server" where
  "offer_insert E push q m chunks st v =
     (case map_of (bs_pushes v) (m_id m) of
        None \<Rightarrow>
          if length (bs_pushes v) \<ge> pu_max_concurrent push then (refuse q, v)
          else (let e = \<lparr>pe_manifest = m, pe_chunks = chunks, pe_state = st, pe_last_activity = bs_now v,
                         pe_dirty_marks = 0\<rparr>;
                    wanted = missing_ranges st (tc_count chunks) in
                ack_and_finalize E push q (m_id m) (se_enc_ranges E wanted) (wanted = [])
                  (v\<lparr>bs_pushes := AList.update (m_id m) e (bs_pushes v)\<rparr>))
      | Some e \<Rightarrow>
          (let wanted = missing_ranges (pe_state e) (tc_count chunks) in
           ack_and_finalize E push q (m_id m) (se_enc_ranges E wanted) (wanted = []) v))"

definition push_offer_inner ::
  "server_env \<Rightarrow> server_config \<Rightarrow> blob_query \<Rightarrow> string \<Rightarrow> blob_server \<Rightarrow> outcome \<times> blob_server" where
  "push_offer_inner E cfg q key_id v =
     (case offer_checks E cfg q key_id of
        Inl out \<Rightarrow> (out, v)
      | Inr (push, m, chunks) \<Rightarrow>
          (case offer_fast_path E push q m chunks v of
             (Inl out, v1) \<Rightarrow> (out, v1)
           | (Inr _, v1) \<Rightarrow>
               (case se_fault E SpoolMkdir of
                  Some e \<Rightarrow> ((Inl (Io e), []), v1)
                | None \<Rightarrow>
                    (case spool_probe E push m chunks v1 of
                       Some st \<Rightarrow> offer_insert E push q m chunks st v1
                     | None \<Rightarrow>
                         (case spool_create E push m chunks v1 of
                            (Inl e, v2) \<Rightarrow> ((Inl e, []), v2)
                          | (Inr st, v2) \<Rightarrow> offer_insert E push q m chunks st v2)))))"

text \<open>An error is also told to the uploader.\<close>

definition with_error_reply :: "blob_query \<Rightarrow> outcome \<times> blob_server \<Rightarrow> outcome \<times> blob_server" where
  "with_error_reply q r =
     (case r of ((Inl e, out), v) \<Rightarrow> ((Inl e, add_err q out), v) | _ \<Rightarrow> r)"

definition handle_push_offer ::
  "server_env \<Rightarrow> server_config \<Rightarrow> blob_query \<Rightarrow> string \<Rightarrow> blob_server \<Rightarrow> outcome \<times> blob_server" where
  "handle_push_offer E cfg q key_id v = with_error_reply q (push_offer_inner E cfg q key_id v)"

text \<open>One pushed slice: the snapshot, the verified write, the mark with the batched save.\<close>

definition slice_snapshot ::
  "server_env \<Rightarrow> blob_query \<Rightarrow> string \<Rightarrow> u32 \<Rightarrow> blob_server
   \<Rightarrow> (outcome + (manifest \<times> transfer_chunks \<times> bool)) \<times> blob_server" where
  "slice_snapshot E q bid i v =
     (case map_of (bs_pushes v) bid of
        None \<Rightarrow>
          if bs_registry v bid \<noteq> None
          then (case se_enc_u32 E 0 of Inl e \<Rightarrow> (Inl (Inl e, []), v) | Inr b \<Rightarrow> (Inl (push_ack q b), v))
          else (Inl (refuse q), v)
      | Some e \<Rightarrow>
          (Inr (pe_manifest e, pe_chunks e, resume_is_set (pe_state e) i),
           v\<lparr>bs_pushes := AList.update bid (e\<lparr>pe_last_activity := bs_now v\<rparr>) (bs_pushes v)\<rparr>))"

definition slice_write ::
  "server_env \<Rightarrow> push_config \<Rightarrow> string \<Rightarrow> (u64 \<times> bytes) list \<Rightarrow> blob_server \<Rightarrow> unit res \<times> blob_server" where
  "slice_write E push bid leaves v =
     (let part = push_part_path push bid in
      case (se_fault E (SpoolWrite part), bs_files v part) of
        (_, None) \<Rightarrow> (Inl (Io IoNotFound), v)
      | (fault, Some (b, t)) \<Rightarrow>
          (let put = (case fault of None \<Rightarrow> leaves | Some _ \<Rightarrow> se_torn E leaves) in
           (case fault of None \<Rightarrow> Inr () | Some e \<Rightarrow> Inl (Io e),
            v\<lparr>bs_files := (bs_files v)(part \<mapsto>
              (fold (\<lambda>(off, d). write_at (unat off) d) put b, bs_now v))\<rparr>)))"

definition slice_mark ::
  "server_env \<Rightarrow> push_config \<Rightarrow> blob_query \<Rightarrow> string \<Rightarrow> u32 \<Rightarrow> u32 \<Rightarrow> blob_server \<Rightarrow> outcome \<times> blob_server" where
  "slice_mark E push q bid i n v =
     (case map_of (bs_pushes v) bid of
        None \<Rightarrow> (case se_enc_u32 E 0 of Inl e \<Rightarrow> ((Inl e, []), v) | Inr b \<Rightarrow> (push_ack q b, v))
      | Some e \<Rightarrow>
          (case resume_mark (pe_state e) i of (newly, st) \<Rightarrow>
             let dirty = (if newly then pe_dirty_marks e + 1 else pe_dirty_marks e);
                 remaining = n - resume_received st;
                 save = (remaining = 0 \<or> dirty \<ge> 16);
                 e' = e\<lparr>pe_state := st, pe_dirty_marks := (if save then 0 else dirty)\<rparr>;
                 v1 = v\<lparr>bs_pushes := AList.update bid e' (bs_pushes v)\<rparr> in
             case (if save then save_push_state E (push_part_path push bid) st v1 else (Inr (), v1)) of
               (Inl x, v2) \<Rightarrow> ((Inl x, []), v2)
             | (Inr _, v2) \<Rightarrow> ack_and_finalize E push q bid (se_enc_u32 E remaining) (remaining = 0) v2))"

definition push_slice_inner ::
  "server_env \<Rightarrow> server_config \<Rightarrow> blob_query \<Rightarrow> string \<Rightarrow> u32 \<Rightarrow> blob_server \<Rightarrow> outcome \<times> blob_server" where
  "push_slice_inner E cfg q bid i v =
     (case (sv_push cfg, tq_payload q) of
        (None, _) \<Rightarrow> (refuse q, v)
      | (Some push, None) \<Rightarrow> (refuse q, v)
      | (Some push, Some body) \<Rightarrow>
          (case slice_snapshot E q bid i v of
             (Inl out, v1) \<Rightarrow> (out, v1)
           | (Inr (m, chunks, already_set), v1) \<Rightarrow>
               if \<not> se_policy E m (bq_attachment q) then (refuse q, v1)
               else if i \<ge> tc_count chunks then (refuse q, v1)
               else if already_set then slice_mark E push q bid i (tc_count chunks) v1
               else (case decode_slice (se_bao E) (m_root m) (m_total_len m)
                            (chunk_range (se_bao E) (byte_range chunks i)) body push_leaf [] of
                       (Inl _, _) \<Rightarrow> (refuse q, v1)
                     | (Inr _, leaves) \<Rightarrow>
                         (case slice_write E push bid leaves v1 of
                            (Inl e, v2) \<Rightarrow> ((Inl e, []), v2)
                          | (Inr _, v2) \<Rightarrow> slice_mark E push q bid i (tc_count chunks) v2))))"

definition handle_push_slice ::
  "server_env \<Rightarrow> server_config \<Rightarrow> blob_query \<Rightarrow> string \<Rightarrow> u32 \<Rightarrow> blob_server \<Rightarrow> outcome \<times> blob_server" where
  "handle_push_slice E cfg q bid i v = with_error_reply q (push_slice_inner E cfg q bid i v)"

section \<open>Dispatch\<close>

text \<open>\<open>rsplit_once\<close> with a string pattern: the last occurrence.\<close>

definition rsplit_str :: "string \<Rightarrow> string \<Rightarrow> (string \<times> string) option" where
  "rsplit_str pat s =
     (let ks = filter (\<lambda>k. take (length pat) (drop k s) = pat) [0..<Suc (length s)] in
      if ks = [] then None else Some (take (last ks) s, drop (last ks + length pat) s))"

definition push_slice_index :: "string \<Rightarrow> string \<Rightarrow> u32 option" where
  "push_slice_index key bid =
     Option.bind (rsplit_str ''/push/slice/'' key) (\<lambda>(hd_part, i).
       if ends_with bid hd_part then parse_u32 i else None)"

definition serve_one :: "server_env \<Rightarrow> server_config \<Rightarrow> blob_query \<Rightarrow> blob_server \<Rightarrow> outcome \<times> blob_server" where
  "serve_one E cfg q v =
     (case parse_id (sv_prefix cfg) (tq_key q) of
        None \<Rightarrow> ((Inr (), []), v)
      | Some bid \<Rightarrow>
          if ends_with ''/push/offer'' (tq_key q) then handle_push_offer E cfg q bid v
          else (case push_slice_index (tq_key q) bid of
                  Some i \<Rightarrow> handle_push_slice E cfg q bid i v
                | None \<Rightarrow>
                    (case bs_registry v bid of
                       None \<Rightarrow> ((Inr (), []), v)
                     | Some r \<Rightarrow> (serve_registered E cfg q bid r (bs_files v), v))))"

end
