(* ===== verification/Slice_Exchange.thy ===== *)
theory Slice_Exchange
  imports Server_Props Download_Top
begin

text \<open>
  The download client against the blob server: a slice query for the holes of a download is
  answered by exactly the slices asked for, every one of them is accepted by the client, and a
  download from such a server completes.
\<close>

section \<open>What a slice query is answered with\<close>

definition slice_sample :: "server_env \<Rightarrow> server_config \<Rightarrow> string \<Rightarrow> registered_blob \<Rightarrow> bytes \<Rightarrow> u32 \<Rightarrow> sample" where
  "slice_sample E cfg bid r content i =
     \<lparr>sm_encoding = ENC_SLICE, sm_key = slice_key (sv_prefix cfg) bid i,
      sm_payload = (case se_encode_slice E (rb_outboard r) content (chunk_range (se_bao E) (byte_range (rb_chunks r) i)) of
                      Inr body \<Rightarrow> body | Inl _ \<Rightarrow> [])\<rparr>"

definition encodes :: "server_env \<Rightarrow> registered_blob \<Rightarrow> bytes \<Rightarrow> u32 \<Rightarrow> bool" where
  "encodes E r content i \<longleftrightarrow>
     is_ok (se_encode_slice E (rb_outboard r) content (chunk_range (se_bao E) (byte_range (rb_chunks r) i)))"

lemma serve_slices_all:
  assumes "\<forall>i \<in> set is. encodes E r content i" "length out + length is \<le> tq_open q"
  shows "serve_slices E cfg q bid r content is out
    = (Inr (), out @ map (\<lambda>i. Inr (slice_sample E cfg bid r content i)) is)"
  using assms
  by (induction "is" arbitrary: out) (auto simp: encodes_def slice_sample_def send_def is_ok_def split: sum.splits)

text \<open>Whatever goes wrong, the replies are the first slices of the query, in order.\<close>

lemma serve_slices_prefix:
  "\<exists>k. snd (serve_slices E cfg q bid r content is out)
     = out @ map (\<lambda>i. Inr (slice_sample E cfg bid r content i)) (take k is)"
proof (induction "is" arbitrary: out)
  case (Cons i "is")
  let ?enc = "se_encode_slice E (rb_outboard r) content (chunk_range (se_bao E) (byte_range (rb_chunks r) i))"
  let ?out = "out @ [Inr (slice_sample E cfg bid r content i)]"
  show ?case
  proof (cases "is_ok ?enc \<and> length out < tq_open q")
    case True
    then have "serve_slices E cfg q bid r content (i # is) out = serve_slices E cfg q bid r content is ?out"
      by (auto simp: send_def slice_sample_def is_ok_def split: sum.splits)
    moreover obtain k where "snd (serve_slices E cfg q bid r content is ?out)
        = ?out @ map (\<lambda>i. Inr (slice_sample E cfg bid r content i)) (take k is)" using Cons.IH by blast
    ultimately show ?thesis by (intro exI [of _ "Suc k"]) simp
  next
    case False
    then have "snd (serve_slices E cfg q bid r content (i # is) out) = out"
      by (auto simp: send_def is_ok_def split: sum.splits)
    then show ?thesis by (intro exI [of _ 0]) simp
  qed
qed simp

lemma in_range_indices: "k \<in> set (range_indices r) \<longleftrightarrow> fst r \<le> k \<and> k < snd r"
proof -
  have "k \<in> set (range_indices r) \<longleftrightarrow> (\<exists>n. unat (fst r) \<le> n \<and> n < unat (snd r) \<and> k = of_nat n)"
    by (auto simp: range_indices_def)
  also have "\<dots> \<longleftrightarrow> unat (fst r) \<le> unat k \<and> unat k < unat (snd r)"
  proof
    assume "\<exists>n. unat (fst r) \<le> n \<and> n < unat (snd r) \<and> k = of_nat n"
    then obtain n where n: "unat (fst r) \<le> n" "n < unat (snd r)" "k = of_nat n" by blast
    then have "unat k = n" using unat_lt32[of "snd r"] by (simp add: unat_of_nat)
    with n show "unat (fst r) \<le> unat k \<and> unat k < unat (snd r)" by simp
  qed (auto intro!: exI [of _ "unat k"])
  finally show ?thesis by (simp add: word_le_nat_alt word_less_nat_alt)
qed

lemma in_query_indices: "k \<in> set (concat (map range_indices rs)) \<longleftrightarrow> in_ranges rs k"
  by (auto simp: in_range_indices in_ranges_def)

lemma length_query_indices: "length (concat (map range_indices rs)) = range_total rs"
  by (induction rs) (simp_all add: range_indices_def)

definition unchanged :: "registered_blob \<Rightarrow> files \<Rightarrow> bool" where
  "unchanged r fl \<longleftrightarrow> (case (rb_fingerprint r, fingerprint fl (rb_source r)) of
     (Some a, Some b) \<Rightarrow> a = b | _ \<Rightarrow> True)"

definition slice_query :: "blob_query \<Rightarrow> string \<Rightarrow> string \<Rightarrow> range list \<Rightarrow> bool" where
  "slice_query q prefix bid rs \<longleftrightarrow> tq_key q = prefix @ ''/'' @ bid @ ''/**''
     \<and> bq_params q = ''ranges='' @ format_ranges rs"

lemma slice_query_kind:
  assumes "slice_query q prefix bid rs"
  shows "\<not> ends_with ''/have'' (tq_key q)" "\<not> ends_with ''/manifest'' (tq_key q)"
proof -
  have "last (tq_key q) = CHR ''*''" using assms by (simp add: slice_query_def)
  then show "\<not> ends_with ''/have'' (tq_key q)" "\<not> ends_with ''/manifest'' (tq_key q)"
    by (auto simp: ends_with_iff)
qed

lemma serve_registered_slices:
  assumes "unchanged r fl" "slice_query q prefix bid rs" "source_open fl (rb_source r) = Inr content"
    and "rs \<noteq> []" "ranges_ok (tc_count (rb_chunks r)) (sv_max_chunks_per_query cfg) rs"
    and "\<forall>i. in_ranges rs i \<longrightarrow> encodes E r content i" "range_total rs \<le> tq_open q"
  shows "serve_registered E cfg q bid r fl
    = (Inr (), map (\<lambda>i. Inr (slice_sample E cfg bid r content i)) (concat (map range_indices rs)))"
proof -
  have "\<not> (case (rb_fingerprint r, fingerprint fl (rb_source r)) of (Some a, Some b) \<Rightarrow> a \<noteq> b | _ \<Rightarrow> False)"
    using assms(1) by (auto simp: unchanged_def split: option.splits)
  moreover have "parse_ranges (bq_params q) (tc_count (rb_chunks r)) (sv_max_chunks_per_query cfg) = Inr rs"
    using assms(2) parse_format_ranges [OF assms(5,4)] by (simp add: slice_query_def)
  moreover have "serve_slices E cfg q bid r content (concat (map range_indices rs)) []
      = (Inr (), map (\<lambda>i. Inr (slice_sample E cfg bid r content i)) (concat (map range_indices rs)))"
    using serve_slices_all[of "concat (map range_indices rs)" E r content "[]" q cfg bid] assms(6,7)
    by (simp add: in_query_indices length_query_indices del: set_concat)
  ultimately show ?thesis
    using assms(3) slice_query_kind [OF assms(2)] by (simp add: serve_registered_def)
qed

text \<open>Whatever the query and whatever fails: a refused range set gets no slice, an accepted one its first slices.\<close>

lemma serve_registered_replies:
  assumes kind: "\<not> ends_with ''/have'' (tq_key q)" "\<not> ends_with ''/manifest'' (tq_key q)"
    and run: "serve_registered E cfg q bid r fl = (res, out)"
  shows "length out \<le> max (unat (sv_max_chunks_per_query cfg)) 1
    \<and> (case parse_ranges (bq_params q) (tc_count (rb_chunks r)) (sv_max_chunks_per_query cfg) of
         Inl _ \<Rightarrow> \<not> (\<exists>s. Inr s \<in> set out)
       | Inr rs \<Rightarrow> (\<forall>s. Inr s \<in> set out \<longrightarrow> (\<exists>i content. in_ranges rs i \<and> i < tc_count (rb_chunks r) \<and> s = slice_sample E cfg bid r content i))
           \<and> ((\<exists>s. Inr s \<in> set out) \<longrightarrow> (\<exists>k content. out = map (\<lambda>i. Inr (slice_sample E cfg bid r content i)) (take k (concat (map range_indices rs))))))"
proof (cases "\<exists>rs content. parse_ranges (bq_params q) (tc_count (rb_chunks r)) (sv_max_chunks_per_query cfg) = Inr rs
    \<and> out = snd (serve_slices E cfg q bid r content (concat (map range_indices rs)) [])")
  case True
  then obtain rs content k where rs: "parse_ranges (bq_params q) (tc_count (rb_chunks r)) (sv_max_chunks_per_query cfg) = Inr rs"
    and out: "out = map (\<lambda>i. Inr (slice_sample E cfg bid r content i)) (take k (concat (map range_indices rs)))"
    using serve_slices_prefix [of E cfg q bid r _ _ "[]"] by (metis append_Nil)
  have ok: "ranges_ok (tc_count (rb_chunks r)) (sv_max_chunks_per_query cfg) rs" using parse_ranges_sound [OF rs] by blast
  have len: "length out \<le> unat (sv_max_chunks_per_query cfg)"
    using ok length_query_indices [of rs] by (auto simp: out ranges_ok_def min_def simp del: length_concat)
  have "\<exists>i content. in_ranges rs i \<and> i < tc_count (rb_chunks r) \<and> s = slice_sample E cfg bid r content i" if s: "Inr s \<in> set out" for s
  proof -
    obtain i where i: "i \<in> set (concat (map range_indices rs))" "s = slice_sample E cfg bid r content i"
      using s unfolding out set_map by (blast dest: in_set_takeD)
    then have ir: "in_ranges rs i" by (simp only: in_query_indices)
    then have "i < tc_count (rb_chunks r)" using ok by (force simp: in_ranges_def ranges_ok_def ranges_sorted_def)
    with ir i(2) show ?thesis by blast
  qed
  then show ?thesis using len rs out by (auto simp del: set_concat)
next
  case False
  then have "out = send_err q \<or> out = []"
    using run kind by (auto simp: serve_registered_def split: if_splits sum.splits option.splits) (metis snd_conv)+
  then have "length out \<le> 1" "\<not> (\<exists>s. Inr s \<in> set out)" by (auto simp: send_err_def)
  then show ?thesis by (auto split: sum.splits)
qed

section \<open>An honest reply is accepted\<close>

lemma parse_slice_key: "parse_slice_index (slice_key p bid i) = Some i"
proof -
  have "CHR ''/'' \<notin> set (u32_to_string i)" by (rule u32_to_string_no) simp
  then have "rsplit_once (CHR ''/'') ((p @ ''/'' @ bid @ ''/slice'') @ CHR ''/'' # u32_to_string i)
      = Some (p @ ''/'' @ bid @ ''/slice'', u32_to_string i)" by (rule rsplit_once_append)
  moreover have "ends_with ''/slice'' (p @ ''/'' @ bid @ ''/slice'')"
    unfolding ends_with_iff by (intro exI [of _ "p @ ''/'' @ bid"]) simp
  ultimately show ?thesis by (simp add: parse_slice_index_def slice_key_def)
qed

text \<open>A client whose files take every write and whose states can be encoded.\<close>

definition quiet :: "client_env \<Rightarrow> manifest \<Rightarrow> transfer_chunks \<Rightarrow> bool" where
  "quiet E m c \<longleftrightarrow> (\<forall>n. ce_faults E n = None) \<and> (\<forall>s. resume_for s m c \<longrightarrow> (\<exists>b. ce_enc E s = Inr b))"

lemma quiet_write: "quiet E m c \<Longrightarrow> fst (write_leaves E ls w) = Inr ()"
  by (induction ls arbitrary: w) (auto simp: quiet_def write_leaf_def)

lemma quiet_commit: "quiet E m c \<Longrightarrow> fst (on_world (commit E) f) = Inr ()"
  by (simp add: quiet_def on_world_fst commit_def)

lemma quiet_save: "quiet E m c \<Longrightarrow> resume_for (f_state f) m c \<Longrightarrow> fst (save_if p E f) = Inr ()"
  by (auto simp: quiet_def save_if_def on_world_fst save_sidecar_def resume_save_def sidecar_payload_def
      split: prod.splits sum.splits)

lemma quiet_commit_save:
  assumes "quiet E m c" "resume_for (f_state f) m c"
  shows "\<exists>f1 f2. on_world (commit E) f = (Inr (), f1) \<and> save_if p E f1 = (Inr (), f2) \<and> f_state f2 = f_state f"
proof -
  obtain f1 where f1: "on_world (commit E) f = (Inr (), f1)" using quiet_commit [OF assms(1), of f] by (metis prod.collapse)
  then have s1: "f_state f1 = f_state f" using on_world_state[of "commit E" f] by simp
  obtain f2 where f2: "save_if p E f1 = (Inr (), f2)"
    using quiet_save [OF assms(1), of f1 p] assms(2) s1 by (metis prod.collapse)
  then have "f_state f2 = f_state f" using save_if_state[of p E f1] s1 by simp
  with f1 f2 show ?thesis by blast
qed

lemma quiet_save_batch:
  assumes "quiet E m c" "resume_for (f_state f) m c"
  shows "fst (save_batch p E now f) = Inr ()"
  using quiet_commit_save [OF assms, of p] by (auto simp: save_batch_def then_io_def)

lemma quiet_mark_chunk:
  assumes "quiet E m c" "resume_for (f_state f) m c"
  shows "fst (mark_chunk p E c now i f) = Inr ()"
proof -
  obtain newly s where s: "resume_mark (f_state f) i = (newly, s)" by fastforce
  then have "resume_for s m c" using resume_for_mark[of "f_state f" i m c] assms(2) by simp
  then show ?thesis
    by (auto simp: mark_chunk_def s Let_def intro!: quiet_save_batch [OF assms(1)] split: bool.splits)
qed

lemma on_world_quiet:
  "quiet E m c \<Longrightarrow> \<exists>f1. on_world (write_leaves E ls) f = (Inr (), f1) \<and> f_state f1 = f_state f"
  using quiet_write[of E m c ls "f_world f"] by (auto simp: on_world_def split: prod.splits)

lemma quiet_on_reply:
  assumes "quiet E m c" "resume_for (f_state f) m c"
  shows "fst (on_reply p E m c now reply f) = Inr ()"
proof -
  have "fst (then_io (on_world (write_leaves E ls) f) (\<lambda>_ f1. mark_chunk p E c now i f1)) = Inr ()" for ls i
    using on_world_quiet [OF assms(1), of ls f] assms(2) by (auto simp: then_io_def quiet_mark_chunk [OF assms(1)])
  then show ?thesis by (auto simp: on_reply_def split: sum.splits option.splits prod.splits)
qed

definition accepted :: "client_env \<Rightarrow> manifest \<Rightarrow> transfer_chunks \<Rightarrow> u32 \<Rightarrow> sample \<Rightarrow> bool" where
  "accepted E m c i sm \<longleftrightarrow> sm_encoding sm = ENC_SLICE \<and> parse_slice_index (sm_key sm) = Some i \<and> i < tc_count c
     \<and> (\<exists>ls. decode_slice (ce_bao E) (m_root m) (m_total_len m)
              (chunk_range (ce_bao E) (byte_range c i)) (sm_payload sm) push_leaf [] = (Inr (), ls))"

lemma accepted_marks:
  assumes "quiet E m c" "resume_for (f_state f) m c" "accepted E m c i sm"
  shows "resume_is_set (f_state (snd (on_reply p E m c now (Inr sm) f))) i"
proof (cases "resume_is_set (f_state f) i")
  case True
  then show ?thesis using on_reply_advances [OF assms(2)] by (simp add: advances_def)
next
  case False
  obtain ls where dec: "decode_slice (ce_bao E) (m_root m) (m_total_len m)
      (chunk_range (ce_bao E) (byte_range c i)) (sm_payload sm) push_leaf [] = (Inr (), ls)"
    using assms(3) by (auto simp: accepted_def)
  obtain f1 where f1: "on_world (write_leaves E ls) f = (Inr (), f1)" "f_state f1 = f_state f"
    using on_world_quiet [OF assms(1)] by blast
  have i: "i < tc_count c" "\<not> tc_count c \<le> i" using assms(3) by (auto simp: accepted_def)
  have "f_state (snd (on_reply p E m c now (Inr sm) f)) = snd (resume_mark (f_state f) i)"
    using assms(3) i False dec f1 by (simp add: on_reply_def accepted_def mark_chunk_state then_io_def)
  moreover have "resume_is_set (snd (resume_mark (f_state f) i)) i"
    using resume.mark_is_set [OF resume_for_sized [OF assms(2)], of i i] i(1) resume_for_count [OF assms(2)]
      resume_for_room [OF assms(2)] by simp
  ultimately show ?thesis by simp
qed

text \<open>Replies may come in any order, repeated, and with others in between.\<close>

lemma recv_loop_quiet:
  assumes "quiet E m c" "resume_for (f_state f) m c" "RecvCancelled \<notin> set rs"
  shows "fst (recv_loop p E m c rs f) = Inr ()
    \<and> (\<forall>i sm now. Recv (Inr sm) now \<in> set rs \<longrightarrow> accepted E m c i sm
        \<longrightarrow> resume_is_set (f_state (snd (recv_loop p E m c rs f))) i)"
  using assms(2,3)
proof (induction rs arbitrary: f)
  case (Cons x rs)
  then obtain reply now where x: "x = Recv reply now" by (cases x) auto
  obtain f1 where f1: "on_reply p E m c now reply f = (Inr (), f1)"
    using quiet_on_reply [OF assms(1) Cons.prems(1)] by (metis prod.collapse)
  have "advances m c (f_state f) (f_state f1)" using on_reply_advances [OF Cons.prems(1)] f1 by (metis snd_conv)
  then have rf1: "resume_for (f_state f1) m c" by (rule advances_for)
  have mono: "resume_is_set (f_state f1) i \<Longrightarrow> resume_is_set (f_state (snd (recv_loop p E m c rs f1))) i" for i
    using recv_loop_advances [OF rf1] by (simp add: advances_def)
  have head: "resume_is_set (f_state f1) i" if "reply = Inr sm" "accepted E m c i sm" for i sm
    using accepted_marks [OF assms(1) Cons.prems(1) that(2), of p now] f1 that(1) by simp
  have "recv_loop p E m c (x # rs) f = recv_loop p E m c rs f1" by (simp add: x f1)
  then show ?case using Cons.IH [OF rf1] Cons.prems(2) mono head x by (simp del: recv_loop.simps) blast
qed simp

section \<open>A download from an honest server completes\<close>

text \<open>
  The documented behaviour of bao: a slice encoded from the blob's own outboard decodes without an
  error against its root and length.
\<close>

definition bao_serves :: "server_env \<Rightarrow> bool" where
  "bao_serves E \<longleftrightarrow> (\<forall>content ob r. se_compute_outboard E content = Inr ob \<longrightarrow>
     (\<exists>body. se_encode_slice E ob content r = Inr body
        \<and> (\<forall>x \<in> set (DecodeResponseIter (se_bao E) (se_root E ob) (of_nat (length content)) r body). is_ok x)))"

lemma bao_serves_accepted:
  assumes "bao_serves E" "se_compute_outboard E content = Inr (rb_outboard r)"
    and "se_root E (rb_outboard r) = m_root m" "of_nat (length content) = m_total_len m"
    and "ce_bao CE = se_bao E" "i < tc_count (rb_chunks r)"
  shows "encodes E r content i \<and> accepted CE m (rb_chunks r) i (slice_sample E cfg bid r content i)"
proof -
  let ?r = "chunk_range (se_bao E) (byte_range (rb_chunks r) i)"
  obtain body where b: "se_encode_slice E (rb_outboard r) content ?r = Inr body"
    "\<forall>x \<in> set (DecodeResponseIter (se_bao E) (m_root m) (m_total_len m) ?r body). is_ok x"
    using assms(1-4) unfolding bao_serves_def by metis
  then have "\<exists>ls. decode_slice (se_bao E) (m_root m) (m_total_len m) ?r body push_leaf [] = (Inr (), ls)"
    by (simp add: decode_slice_def decode_items_push)
  then show ?thesis
    using b(1) assms(5,6) by (simp add: encodes_def accepted_def slice_sample_def parse_slice_key is_ok_def)
qed

text \<open>A network on which the replies of the server reach the client, perhaps among others.\<close>

definition served_by ::
  "client_env \<Rightarrow> client_config \<Rightarrow> manifest \<Rightarrow> server_env \<Rightarrow> server_config \<Rightarrow> registered_blob \<Rightarrow> files \<Rightarrow> bool" where
  "served_by CE ccfg m E cfg r fl \<longleftrightarrow> (\<forall>n holes.
     holes \<noteq> [] \<longrightarrow> ranges_ok (tc_count (rb_chunks r)) (sv_max_chunks_per_query cfg) holes \<longrightarrow> (\<exists>rs q.
     ce_answer CE n (slice_selector (cc_prefix ccfg) (m_id m) holes) = Replies rs \<and> RecvCancelled \<notin> set rs
     \<and> slice_query q (cc_prefix ccfg) (m_id m) holes \<and> range_total holes \<le> tq_open q
     \<and> (\<forall>reply \<in> set (snd (serve_registered E cfg q (m_id m) r fl)). \<exists>now. Recv reply now \<in> set rs)))"

definition honest ::
  "server_env \<Rightarrow> server_config \<Rightarrow> registered_blob \<Rightarrow> files \<Rightarrow> bytes \<Rightarrow> bool" where
  "honest E cfg r fl content \<longleftrightarrow> bao_serves E \<and> registered_ok E (m_id (rb_manifest r)) r
     \<and> manifest_max_chunks_per_query (rb_manifest r) = Some (sv_max_chunks_per_query cfg)
     \<and> 1 \<le> sv_max_chunks_per_query cfg
     \<and> unchanged r fl \<and> source_open fl (rb_source r) = Inr content
     \<and> se_compute_outboard E content = Inr (rb_outboard r) \<and> of_nat (length content) = m_total_len (rb_manifest r)"

lemma ranges_ok_mono: "ranges_ok n a rs \<Longrightarrow> a \<le> b \<Longrightarrow> ranges_ok n b rs"
  by (auto simp: ranges_ok_def word_le_nat_alt)

lemma query_budget_within:
  "manifest_max_chunks_per_query m = Some mx \<Longrightarrow> 1 \<le> mx \<Longrightarrow> query_budget cfg m \<le> mx"
  by (simp add: query_budget_def)

lemma advances_gains:
  assumes "resume_for s m c" "advances m c s s'" "resume_is_set s' i" "\<not> resume_is_set s i"
  shows "resume_received s < resume_received s'"
proof -
  have "{k. resume_is_set s k} \<subset> {k. resume_is_set s' k}" using assms by (auto simp: advances_def)
  then have "card {k. resume_is_set s k} < card {k. resume_is_set s' k}"
    by (rule psubset_card_mono [rotated]) (rule finite_subset [of _ UNIV], auto)
  then show ?thesis
    using assms(1) advances_for [OF assms(2)]
    by (simp add: word_less_nat_alt resume.count_card resume_for_sized)
qed

text \<open>A turn against such a server gains every chunk it asked for, so it never spends an attempt.\<close>

lemma honest_turn:
  assumes h: "honest E cfg r fl content" and CE: "ce_bao CE = se_bao E" "quiet CE m c" "\<forall>n. \<not> ce_cancelled CE n"
    and m: "m = rb_manifest r" "c = rb_chunks r" and net: "served_by CE ccfg m E cfg r fl"
    and rf: "resume_for (f_state f) m c"
  shows "\<exists>f'. fill_turn p CE ccfg m c f = Break f' \<and> resume_for (f_state f') m c \<and> resume_is_complete (f_state f') (tc_count c)
    \<or> fill_turn p CE ccfg m c f = Continue f' \<and> resume_for (f_state f') m c
        \<and> resume_received (f_state f) < resume_received (f_state f')"
proof (cases "resume_is_complete (f_state f) (tc_count c)")
  case True
  then show ?thesis using rf by (simp add: fill_turn_def)
next
  case False
  let ?holes = "query_holes ccfg m (tc_count c) (f_state f)"
  let ?f1 = "f\<lparr>f_stats := (f_stats f)\<lparr>ts_queries := ts_queries (f_stats f) + 1\<rparr>\<rparr>"
  have ne: "?holes \<noteq> []"
    using False resume_complete_iff [OF rf] missing_ranges_empty by (intro query_holes_nonempty) blast
  have ok: "ranges_ok (tc_count c) (sv_max_chunks_per_query cfg) ?holes"
    using h m by (intro ranges_ok_mono [OF query_holes_ok] query_budget_within) (simp_all add: honest_def)
  obtain rs q where ans: "ce_answer CE (ts_queries (f_stats f)) (slice_selector (cc_prefix ccfg) (m_id m) ?holes) = Replies rs"
    and nc: "RecvCancelled \<notin> set rs" and q: "slice_query q (cc_prefix ccfg) (m_id m) ?holes" "range_total ?holes \<le> tq_open q"
    and del: "\<forall>reply \<in> set (snd (serve_registered E cfg q (m_id m) r fl)). \<exists>now. Recv reply now \<in> set rs"
    using net ne ok unfolding served_by_def m(2) by meson
  have acc: "encodes E r content i \<and> accepted CE m c i (slice_sample E cfg (m_id m) r content i)"
    if "in_ranges ?holes i" for i
    using bao_serves_accepted [of E content r m CE i cfg "m_id m"] query_holes_missing [OF that] h CE(1)
    by (auto simp: m honest_def registered_ok_def)
  have "serve_registered E cfg q (m_id m) r fl
      = (Inr (), map (\<lambda>i. Inr (slice_sample E cfg (m_id m) r content i)) (concat (map range_indices ?holes)))"
    using h acc ok q ne by (intro serve_registered_slices [OF _ q(1)]) (auto simp: honest_def m)
  then have recv: "\<exists>now. Recv (Inr (slice_sample E cfg (m_id m) r content i)) now \<in> set rs" if "in_ranges ?holes i" for i
    using del that by (auto simp: in_query_indices [symmetric])
  obtain f2 where f2: "recv_loop p CE m c rs ?f1 = (Inr (), f2)"
    using recv_loop_quiet [OF CE(2) _ nc, of ?f1 p] rf by (cases "recv_loop p CE m c rs ?f1") auto
  have got: "resume_is_set (f_state f2) i" if hole: "in_ranges ?holes i" for i
    using recv_loop_quiet [OF CE(2) _ nc, of ?f1 p] rf recv [OF hole] acc [OF hole] f2 by auto
  have adv: "advances m c (f_state f) (f_state f2)"
    using recv_loop_advances[of ?f1 m c p CE rs] rf f2 by simp
  obtain i where i: "in_ranges ?holes i" using ne query_holes_ok[of "tc_count c" ccfg m "f_state f"]
    by (cases ?holes) (auto simp: in_ranges_def ranges_ok_def ranges_sorted_def)
  have lt: "resume_received (f_state f) < resume_received (f_state f2)"
    using advances_gains [OF rf adv got [OF i]] query_holes_missing [OF i] by blast
  show ?thesis
    using False CE(3) ans f2 lt adv
    by (auto simp: fill_turn_def Let_def advances_def)
qed

lemma honest_loop:
  assumes h: "honest E cfg r fl content" and CE: "ce_bao CE = se_bao E" "quiet CE m c" "\<forall>n. \<not> ce_cancelled CE n"
    and m: "m = rb_manifest r" "c = rb_chunks r" and net: "served_by CE ccfg m E cfg r fl"
    and rf: "resume_for (f_state f) m c" and fuel: "unat (tc_count c) - unat (resume_received (f_state f)) < fuel"
  shows "\<exists>f'. fill_loop fuel p CE ccfg m c f = Some (Inr (), f') \<and> resume_is_complete (f_state f') (tc_count c)"
  using rf fuel
proof (induction fuel arbitrary: f)
  case (Suc fuel)
  obtain f' where t: "fill_turn p CE ccfg m c f = Break f' \<and> resume_for (f_state f') m c \<and> resume_is_complete (f_state f') (tc_count c)
    \<or> fill_turn p CE ccfg m c f = Continue f' \<and> resume_for (f_state f') m c
        \<and> resume_received (f_state f) < resume_received (f_state f')"
    using honest_turn [OF h CE m net Suc.prems(1)] by blast
  then show ?case
  proof (elim disjE conjE)
    assume b: "fill_turn p CE ccfg m c f = Break f'" "resume_for (f_state f') m c" "resume_is_complete (f_state f') (tc_count c)"
    then show ?thesis using quiet_commit_save [OF CE(2) b(2), of p] by (auto simp: then_io_def)
  next
    assume a: "fill_turn p CE ccfg m c f = Continue f'" "resume_for (f_state f') m c"
      "resume_received (f_state f) < resume_received (f_state f')"
    then have "unat (tc_count c) - unat (resume_received (f_state f')) < fuel"
      using Suc.prems(2) received_le_count [OF a(2)] by (simp add: word_less_nat_alt)
    then show ?thesis using Suc.IH [OF a(2)] a(1) by simp
  qed
qed simp

end
