(* ===== verification/Upload.thy ===== *)
theory Upload
  imports Slice_Exchange Client
begin

text \<open>
  Uploads (\<open>run_upload\<close> of \<open>src/src/client.rs\<close>): the source is hashed, offered, and the chunks
  the receiver still wants are sent one acknowledged query each. The network is a state that every
  query transforms, so that a server of this development can stand behind it; the bao tree and
  postcard are those of the server's environment.
\<close>

section \<open>What an upload works with\<close>

text \<open>
  A source is read twice: once to hash it and once for the slices, the \<open>k\<close>-th of which finds the
  content \<open>us_read k\<close>. A file named by its path has no fingerprint check.
\<close>

record upload_src =
  us_is_path :: bool
  us_hash :: "io_error + bytes"
  us_reopen :: "io_error option"
  us_read :: "nat \<Rightarrow> bytes"
  us_fp_then :: "source_fingerprint option"
  us_fp_now :: "source_fingerprint option"

text \<open>A query of an upload: its key, its payload and the attached token.\<close>

type_synonym 'n push_net = "'n \<Rightarrow> string \<Rightarrow> bytes \<Rightarrow> bytes option \<Rightarrow> query_outcome \<times> 'n"

record upload_env =
  ue_lib :: server_env
  ue_dec_ranges :: "bytes \<Rightarrow> range list res"
  ue_dec_u32 :: "bytes \<Rightarrow> u32 res"
  ue_cancelled :: "u32 \<Rightarrow> bool"

section \<open>The offer\<close>

text \<open>Hash the source and build the manifest, as the server does when it registers a blob.\<close>

definition upload_manifest ::
  "upload_env \<Rightarrow> blob_spec \<Rightarrow> upload_src \<Rightarrow> (outboard \<times> transfer_chunks \<times> manifest) res" where
  "upload_manifest U spec src =
     (case us_hash src of
        Inl e \<Rightarrow> Inl (Io e)
      | Inr content \<Rightarrow>
          (case se_compute_outboard (ue_lib U) content of
             Inl e \<Rightarrow> Inl (Io e)
           | Inr ob \<Rightarrow>
               (let tot = of_nat (length content) in
                and_then (transfer_chunks_new (bs_chunk_size spec) tot) (\<lambda>chunks.
                and_then (blob_id_new (bs_id spec)) (\<lambda>i.
                  let m = \<lparr>m_version = WIRE_VERSION, m_id = i, m_filename = bs_filename spec, m_total_len = tot,
                           m_chunk_size = bs_chunk_size spec, m_root = se_root (ue_lib U) ob,
                           m_created_ms = bs_created_ms spec, m_ext = ext_new\<rparr>
                  in and_then (manifest_validate m U64_MAX) (\<lambda>_. Inr (ob, chunks, m)))))))"

text \<open>The first acceptance among the replies; a refusal by one responder does not end the search.\<close>

fun offer_replies :: "upload_env \<Rightarrow> recv list \<Rightarrow> range list res" where
  "offer_replies U (Recv (Inr sm) t # rs) =
     (if sm_encoding sm \<noteq> ENC_PUSH then offer_replies U rs
      else case ue_dec_ranges U (sm_payload sm) of
             Inr ranges \<Rightarrow> Inr ranges
           | Inl _ \<Rightarrow> offer_replies U rs)"
| "offer_replies U (Recv (Inl _) t # rs) = offer_replies U rs"
| "offer_replies U _ = Inl PushDenied"

text \<open>The offer reply is checked before any arithmetic: sorted, disjoint, non-empty, in bounds.\<close>

fun check_wanted :: "u32 \<Rightarrow> u32 \<Rightarrow> range list \<Rightarrow> unit res" where
  "check_wanted n_chunks prev_end [] = Inr ()"
| "check_wanted n_chunks prev_end ((a, b) # rs) =
     (if a < prev_end \<or> a \<ge> b \<or> b > n_chunks then Inl MalformedMessage else check_wanted n_chunks b rs)"

definition wanted_total :: "range list \<Rightarrow> u32" where
  "wanted_total rs = sum_list (map (\<lambda>(a, b). b - a) rs)"

section \<open>The slices\<close>

datatype ack = Acked | AckCancelled | NotAcked bool

text \<open>Waiting for the acknowledgement of one slice; \<open>NotAcked True\<close> when somebody refused.\<close>

fun ack_replies :: "upload_env \<Rightarrow> bool \<Rightarrow> recv list \<Rightarrow> ack" where
  "ack_replies U refused [] = NotAcked refused"
| "ack_replies U refused (RecvCancelled # rs) = AckCancelled"
| "ack_replies U refused (Recv (Inl _) t # rs) = ack_replies U True rs"
| "ack_replies U refused (Recv (Inr sm) t # rs) =
     (if sm_encoding sm \<noteq> ENC_PUSH then ack_replies U refused rs
      else case ue_dec_u32 U (sm_payload sm) of
             Inr _ \<Rightarrow> Acked
           | Inl _ \<Rightarrow> ack_replies U True rs)"

record 'n upload =
  up_net :: 'n
  up_sent :: u32
  up_bytes :: u64
  up_reads :: nat
  up_progress :: "progress list"

definition up_emit :: "progress \<Rightarrow> 'n upload \<Rightarrow> 'n upload" where
  "up_emit p u = u\<lparr>up_progress := up_progress u @ [p]\<rparr>"

definition upload_cancel :: "u32 \<Rightarrow> 'n upload \<Rightarrow> unit res \<times> 'n upload" where
  "upload_cancel n_chunks u = (Inl (Cancelled (up_sent u) n_chunks), up_emit (CancelledAt (up_sent u) n_chunks) u)"

text \<open>One slice: encode it, send it, wait for its acknowledgement.\<close>

definition upload_slice ::
  "upload_env \<Rightarrow> 'n push_net \<Rightarrow> query_prefix \<Rightarrow> bytes option \<Rightarrow> upload_src \<Rightarrow> outboard \<Rightarrow> transfer_chunks \<Rightarrow> manifest \<Rightarrow> u32
   \<Rightarrow> 'n upload \<Rightarrow> unit res \<times> 'n upload" where
  "upload_slice U ask prefix token src ob chunks m index u =
     (let count = tc_count chunks; L = ue_lib U in
      if ue_cancelled U (up_sent u) then upload_cancel count u
      else case se_encode_slice L ob (us_read src (up_reads u)) (chunk_range (se_bao L) (byte_range chunks index)) of
        Inl e \<Rightarrow> (Inl (Io e), u)
      | Inr body \<Rightarrow>
          (case ask (up_net u) (push_slice_key prefix (m_id m) index) body token of
             (QueryFailed, n) \<Rightarrow> (Inl Zenoh, u\<lparr>up_net := n\<rparr>)
           | (Replies rs, n) \<Rightarrow>
               (let u1 = u\<lparr>up_net := n, up_reads := Suc (up_reads u)\<rparr> in
                case ack_replies U False rs of
                  AckCancelled \<Rightarrow> upload_cancel count u1
                | NotAcked True \<Rightarrow> (Inl PushDenied, u1)
                | NotAcked False \<Rightarrow> (Inl (Incomplete (up_sent u1) count), u1)
                | Acked \<Rightarrow>
                    (let sent = up_sent u1 + 1; b = up_bytes u1 + ucast (len_of chunks index) in
                     (Inr (), up_emit (ChunkDone index sent count b) (u1\<lparr>up_sent := sent, up_bytes := b\<rparr>))))))"

fun upload_slices ::
  "upload_env \<Rightarrow> 'n push_net \<Rightarrow> query_prefix \<Rightarrow> bytes option \<Rightarrow> upload_src \<Rightarrow> outboard \<Rightarrow> transfer_chunks \<Rightarrow> manifest \<Rightarrow> u32 list
   \<Rightarrow> 'n upload \<Rightarrow> unit res \<times> 'n upload" where
  "upload_slices U ask prefix token src ob chunks m [] u = (Inr (), u)"
| "upload_slices U ask prefix token src ob chunks m (i # is) u =
     then_io (upload_slice U ask prefix token src ob chunks m i u)
       (\<lambda>_. upload_slices U ask prefix token src ob chunks m is)"

section \<open>The whole upload\<close>

definition upload_finish :: "upload_src \<Rightarrow> manifest \<Rightarrow> 'n upload \<Rightarrow> manifest res \<times> 'n upload" where
  "upload_finish src m u =
     (if us_is_path src then (Inr m, up_emit Completed u)
      else case (us_fp_then src, us_fp_now src) of
             (Some a, Some b) \<Rightarrow> if a \<noteq> b then (Inl Protocol, u) else (Inr m, u)
           | _ \<Rightarrow> (Inr m, u))"

text \<open>From an accepted offer on.\<close>

definition upload_wanted ::
  "upload_env \<Rightarrow> 'n push_net \<Rightarrow> query_prefix \<Rightarrow> bytes option \<Rightarrow> upload_src \<Rightarrow> outboard \<Rightarrow> transfer_chunks \<Rightarrow> manifest
   \<Rightarrow> range list \<Rightarrow> 'n upload \<Rightarrow> manifest res \<times> 'n upload" where
  "upload_wanted U ask prefix token src ob chunks m wanted u =
     (let count = tc_count chunks in
      case check_wanted count 0 wanted of
        Inl e \<Rightarrow> (Inl e, u)
      | Inr _ \<Rightarrow>
          (let to_send = wanted_total wanted;
               u1 = up_emit (if to_send < count then Resumed (count - to_send) count
                             else Started (m_total_len m) count) u;
               u2 = u1\<lparr>up_sent := count - to_send, up_bytes := 0, up_reads := 0\<rparr> in
           case us_reopen src of
             Some e \<Rightarrow> (Inl (Io e), u2)
           | None \<Rightarrow>
               then_io (upload_slices U ask prefix token src ob chunks m (concat (map range_indices wanted)) u2)
                 (\<lambda>_. upload_finish src m)))"

definition run_upload ::
  "upload_env \<Rightarrow> 'n push_net \<Rightarrow> query_prefix \<Rightarrow> blob_spec \<Rightarrow> upload_src \<Rightarrow> bytes option \<Rightarrow> 'n \<Rightarrow> manifest res \<times> 'n upload" where
  "run_upload U ask prefix spec src token n =
     (let u = \<lparr>up_net = n, up_sent = 0, up_bytes = 0, up_reads = 0, up_progress = []\<rparr> in
      if \<not> is_concrete prefix then (Inl Usage, u)
      else case upload_manifest U spec src of
        Inl e \<Rightarrow> (Inl e, u)
      | Inr (ob, chunks, m) \<Rightarrow>
          (case se_enc_manifest (ue_lib U) m of
             Inl e \<Rightarrow> (Inl e, u)
           | Inr payload \<Rightarrow>
               (case ask n (push_offer_key prefix (m_id m)) payload token of
                  (QueryFailed, n1) \<Rightarrow> (Inl Zenoh, u\<lparr>up_net := n1\<rparr>)
                | (Replies rs, n1) \<Rightarrow>
                    (case offer_replies U rs of
                       Inl e \<Rightarrow> (Inl e, u\<lparr>up_net := n1\<rparr>)
                     | Inr wanted \<Rightarrow>
                         upload_wanted U ask prefix token src ob chunks m wanted (u\<lparr>up_net := n1\<rparr>)))))"

end
