(* ===== verification/Upload_Props.thy ===== *)
theory Upload_Props
  imports Upload
begin

text \<open>
  Uploads: what an offer reply may make a client send, and that an upload to a server of this
  development completes and is served from then on.
\<close>

section \<open>What the wanted ranges ask for\<close>

lemma range_indices_sorted: "sorted_wrt (<) (range_indices r)"
  unfolding range_indices_def sorted_wrt_map
  by (rule sorted_wrt_mono_rel [OF _ sorted_wrt_upt]) (simp add: word_less_nat_alt unat_below [of _ "snd r"])

lemma check_wanted_sound:
  assumes "check_wanted n prev rs = Inr ()"
  shows "ranges_sorted n rs \<and> (\<forall>r \<in> set rs. prev \<le> fst r)"
  using assms
proof (induction n prev rs rule: check_wanted.induct)
  case (2 n prev a b rs)
  then have "prev \<le> a" "a < b" "b \<le> n" and IH: "ranges_sorted n rs" "\<forall>r \<in> set rs. b \<le> fst r"
    by (auto split: if_splits simp: not_less not_le)
  then show ?case by (auto simp: ranges_sorted_def intro: order_trans [of prev a] order_trans [OF _ less_imp_le])
qed (simp add: ranges_sorted_def)

lemma wanted_indices_sorted:
  assumes "ranges_sorted n rs"
  shows "sorted_wrt (<) (concat (map range_indices rs))"
  using assms
proof (induction rs)
  case (Cons r rs)
  have "\<forall>x \<in> set (range_indices r). \<forall>y \<in> set (concat (map range_indices rs)). x < y"
  proof (intro ballI)
    fix x y assume "x \<in> set (range_indices r)" "y \<in> set (concat (map range_indices rs))"
    then have x: "x < snd r" and y: "in_ranges rs y"
      by (simp add: in_range_indices, simp only: in_query_indices)
    then show "x < y" using Cons.prems by (force simp: ranges_sorted_def in_ranges_def)
  qed
  moreover have "ranges_sorted n rs" using Cons.prems by (auto simp: ranges_sorted_def)
  ultimately show ?case using Cons.IH range_indices_sorted [of r] by (simp add: sorted_wrt_append)
qed simp

lemma range_total_le:
  assumes "ranges_sorted n rs"
  shows "range_total rs \<le> unat n"
proof -
  let ?is = "concat (map range_indices rs)"
  have "set ?is \<subseteq> {i. i < n}"
  proof
    fix i assume "i \<in> set ?is"
    then have "in_ranges rs i" by (simp only: in_query_indices)
    then show "i \<in> {i. i < n}" using assms by (force simp: in_ranges_def ranges_sorted_def)
  qed
  then have "unat ` set ?is \<subseteq> {..<unat n}" by (auto simp: word_less_nat_alt)
  moreover have "inj_on unat (set ?is)" by (rule inj_onI) (simp only: word_unat_eq_iff)
  ultimately have "card (set ?is) \<le> card {..<unat n}" by (intro card_inj_on_le) simp_all
  then have "card (set ?is) \<le> unat n" by simp
  moreover have "distinct ?is" using wanted_indices_sorted [OF assms] by (simp add: strict_sorted_iff)
  ultimately show ?thesis using length_query_indices [of rs] by (simp only: distinct_card)
qed

lemma wanted_total_unat:
  assumes "ranges_sorted n rs"
  shows "unat (wanted_total rs) = range_total rs"
proof -
  have "wanted_total rs = of_nat (range_total rs)"
    using assms
  proof (induction rs)
    case (Cons r rs)
    have lt: "fst r < snd r" and rest: "ranges_sorted n rs" using Cons.prems by (auto simp: ranges_sorted_def)
    have "snd r - fst r = of_nat (unat (snd r) - unat (fst r))"
      using lt by (simp add: word_less_nat_alt of_nat_diff)
    then show ?case using Cons.IH [OF rest] by (cases r) (simp add: wanted_total_def)
  qed (simp add: wanted_total_def range_total_def)
  then show ?thesis using range_total_le [OF assms] unat_lt32 [of n] by (simp add: unat_of_nat)
qed

section \<open>What a client sends\<close>

definition chunk_events :: "progress list \<Rightarrow> u32 list" where
  "chunk_events ps = concat (map (\<lambda>p. case p of ChunkDone i _ _ _ \<Rightarrow> [i] | _ \<Rightarrow> []) ps)"

lemma chunk_events_append [simp]: "chunk_events (ps @ qs) = chunk_events ps @ chunk_events qs"
  by (simp add: chunk_events_def)

lemma upload_slice_sent:
  assumes "upload_slice U ask q token src ob c m i u = (Inr (), u')"
  shows "up_sent u' = up_sent u + 1 \<and> chunk_events (up_progress u') = chunk_events (up_progress u) @ [i]"
  using assms
  by (auto simp: upload_slice_def Let_def up_emit_def upload_cancel_def chunk_events_def
      split: if_splits sum.splits prod.splits query_outcome.splits ack.splits bool.splits)

lemma upload_slices_sent:
  assumes "upload_slices U ask q token src ob c m is u = (Inr (), u')"
  shows "up_sent u' = up_sent u + of_nat (length is)
    \<and> chunk_events (up_progress u') = chunk_events (up_progress u) @ is"
  using assms
proof (induction "is" arbitrary: u)
  case (Cons i "is")
  then obtain u1 where u1: "upload_slice U ask q token src ob c m i u = (Inr (), u1)"
      "upload_slices U ask q token src ob c m is u1 = (Inr (), u')"
    by (auto simp: then_io_Inr)
  then show ?case using Cons.IH [OF u1(2)] upload_slice_sent [OF u1(1)] by simp
qed simp

lemma upload_wanted_sent:
  assumes "upload_wanted U ask q token src ob c m wanted u = (Inr m', u')" and "chunk_events (up_progress u) = []"
  shows "m' = m \<and> ranges_sorted (tc_count c) wanted \<and> up_sent u' = tc_count c
    \<and> chunk_events (up_progress u') = concat (map range_indices wanted)"
proof -
  let ?n = "tc_count c" and ?is = "concat (map range_indices wanted)"
  have ok: "check_wanted ?n 0 wanted = Inr ()"
    using assms(1) by (auto simp: upload_wanted_def Let_def split: sum.splits)
  then have srt: "ranges_sorted ?n wanted" using check_wanted_sound by blast
  let ?ev = "if wanted_total wanted < ?n then Resumed (?n - wanted_total wanted) ?n else Started (m_total_len m) ?n"
  let ?u1 = "(up_emit ?ev u)\<lparr>up_sent := ?n - wanted_total wanted, up_bytes := 0, up_reads := 0\<rparr>"
  have u1: "up_sent ?u1 = ?n - wanted_total wanted" "chunk_events (up_progress ?u1) = []"
    using assms(2) by (auto simp: up_emit_def) (auto simp: chunk_events_def)
  obtain u2 where s: "upload_slices U ask q token src ob c m ?is ?u1 = (Inr (), u2)" and f: "upload_finish src m u2 = (Inr m', u')"
    using assms(1) ok by (auto simp: upload_wanted_def Let_def then_io_Inr split: option.splits)
  have "of_nat (length ?is) = wanted_total wanted"
    unfolding length_query_indices wanted_total_unat [OF srt, symmetric] by simp
  moreover have "m' = m \<and> up_sent u' = up_sent u2 \<and> chunk_events (up_progress u') = chunk_events (up_progress u2)"
    using f by (auto simp: upload_finish_def up_emit_def chunk_events_def split: if_splits option.splits)
  ultimately show ?thesis using srt upload_slices_sent [OF s] u1 by simp
qed

end
