(* ===== verification/Push_Exchange.thy ===== *)
theory Push_Exchange
  imports Upload_Props
begin

text \<open>
  An upload against the blob server: the offer and the slices are handled by \<open>serve_one\<close>, each
  slice puts its chunk into the spool, and the last one registers the blob.
\<close>

section \<open>The server as the network\<close>

definition push_query :: "string \<Rightarrow> bytes \<Rightarrow> bytes option \<Rightarrow> blob_query" where
  "push_query key payload token =
     \<lparr>tq_key = key, tq_payload = Some payload, tq_accepts_any = False, tq_open = 1,
      bq_params = [], bq_attachment = token\<rparr>"

definition server_ask :: "server_env \<Rightarrow> server_config \<Rightarrow> blob_server push_net" where
  "server_ask E cfg v key payload token =
     (case serve_one E cfg (push_query key payload token) v of
        ((_, out), v') \<Rightarrow> (Replies (map (\<lambda>r. Recv r 0) out), v'))"

section \<open>Keys of a push\<close>

lemma sorted_le_last:
  assumes "sorted xs" and "x \<in> set xs"
  shows "x \<le> last xs"
proof -
  have "xs = butlast xs @ [last xs]" using assms(2) by (cases xs) auto
  then show ?thesis using assms by (metis sorted_append in_set_conv_decomp Un_iff empty_iff empty_set list.set_intros(1) order_refl set_ConsD set_append)
qed

text \<open>When the rest has no more of the pattern's last letter, its last occurrence is the one before it.\<close>

lemma rsplit_str_last:
  assumes "pat \<noteq> []" and "last pat \<notin> set b"
  shows "rsplit_str pat (a @ pat @ b) = Some (a, b)"
proof -
  let ?s = "a @ pat @ b"
  let ?ks = "filter (\<lambda>k. take (length pat) (drop k ?s) = pat) [0..<Suc (length ?s)]"
  have hit: "length a \<in> set ?ks" by simp
  have le: "k \<le> length a" if "k \<in> set ?ks" for k
  proof (rule ccontr)
    assume gt: "\<not> k \<le> length a"
    let ?n = "length pat"
    have n: "0 < ?n" using assms(1) by simp
    have eq: "take ?n (drop k ?s) = pat" using that by (simp only: set_filter mem_Collect_eq)
    then have "length (take ?n (drop k ?s)) = ?n" by (simp only:)
    then have len: "k + ?n \<le> length ?s" using n unfolding length_take length_drop by linarith
    have "take ?n (drop k ?s) ! (?n - 1) = last pat" unfolding eq using assms(1) by (simp add: last_conv_nth)
    then have "?s ! (k + (?n - 1)) = last pat" using len n by (simp del: drop_append take_append)
    moreover have "?s ! (k + (?n - 1)) = b ! (k - length a - 1)"
    proof -
      have i: "\<not> k + (?n - 1) < length (a @ pat)" "k + (?n - 1) - length (a @ pat) = k - length a - 1"
        unfolding length_append using gt n by linarith+
      have "?s ! (k + (?n - 1)) = ((a @ pat) @ b) ! (k + (?n - 1))" by simp
      also have "\<dots> = b ! (k - length a - 1)" unfolding nth_append [of "a @ pat" b] if_not_P [OF i(1)] i(2) ..
      finally show ?thesis .
    qed
    moreover have "k - length a - 1 < length b" using len gt by simp
    ultimately show False using assms(2) by (metis nth_mem)
  qed
  have ne: "?ks \<noteq> []" using hit by (metis list.distinct(1) list.set_cases)
  have "sorted ?ks" by (rule sorted_wrt_filter) (simp only: sorted_upt)
  then have "length a \<le> last ?ks" by (rule sorted_le_last [OF _ hit])
  moreover have "last ?ks \<le> length a" by (rule le [OF last_in_set [OF ne]])
  ultimately have last: "last ?ks = length a" by (rule antisym [rotated])
  have "rsplit_str pat ?s = Some (take (last ?ks) ?s, drop (last ?ks + length pat) ?s)"
    unfolding rsplit_str_def Let_def if_not_P [OF ne] ..
  then show ?thesis unfolding last by simp
qed

lemma push_slice_index_key:
  "push_slice_index (push_slice_key q bid i) bid = Some i"
proof -
  have "CHR ''/'' \<notin> set (u32_to_string i)" by (rule u32_to_string_no) simp
  with rsplit_str_last [of "''/push/slice/''" "u32_to_string i" "q @ ''/'' @ bid"]
  have "rsplit_str ''/push/slice/'' (push_slice_key q bid i) = Some (q @ ''/'' @ bid, u32_to_string i)"
    by (simp add: push_slice_key_def)
  moreover have "ends_with bid (q @ ''/'' @ bid)" unfolding ends_with_iff by (intro exI [of _ "q @ ''/''"]) simp
  ultimately show ?thesis by (simp add: push_slice_index_def)
qed

lemma serve_offer:
  assumes "reaches q (sv_prefix cfg)" and "id_is_valid bid"
  shows "serve_one E cfg (push_query (push_offer_key q bid) payload token) v
    = handle_push_offer E cfg (push_query (push_offer_key q bid) payload token) bid v"
proof -
  have "parse_id (sv_prefix cfg) (push_offer_key q bid) = Some bid"
    using parse_id_key [OF assms, of "''push/offer''"] by (simp add: push_offer_key_def)
  moreover have "ends_with ''/push/offer'' (push_offer_key q bid)"
    unfolding ends_with_iff push_offer_key_def by (intro exI [of _ "q @ ''/'' @ bid"]) simp
  ultimately show ?thesis by (simp add: serve_one_def push_query_def)
qed

lemma serve_slice:
  assumes "reaches q (sv_prefix cfg)" and "id_is_valid bid"
  shows "serve_one E cfg (push_query (push_slice_key q bid i) payload token) v
    = handle_push_slice E cfg (push_query (push_slice_key q bid i) payload token) bid i v"
proof -
  have "parse_id (sv_prefix cfg) (push_slice_key q bid i) = Some bid"
    using parse_id_key [OF assms, of "''push/slice/'' @ u32_to_string i"] by (simp add: push_slice_key_def)
  moreover have "\<not> ends_with ''/push/offer'' (push_slice_key q bid i)"
  proof
    assume "ends_with ''/push/offer'' (push_slice_key q bid i)"
    then obtain x where x: "push_slice_key q bid i = x @ ''/push/offer''" unfolding ends_with_iff by blast
    have "CHR ''r'' \<notin> set (u32_to_string i)" "u32_to_string i \<noteq> []" 
      by (rule u32_to_string_no, simp, simp add: u32_to_string_def)
    moreover have "last (push_slice_key q bid i) = last (u32_to_string i)"
      using \<open>u32_to_string i \<noteq> []\<close> by (simp add: push_slice_key_def)
    moreover have "last (push_slice_key q bid i) = CHR ''r''" unfolding x by simp
    ultimately show False by (metis last_in_set)
  qed
  ultimately show ?thesis by (simp add: serve_one_def push_query_def push_slice_index_key)
qed

section \<open>The spool\<close>

text \<open>A push in progress: its entry has the manifest's geometry and every set bit has its bytes in the spool file.\<close>

definition spooled :: "push_config \<Rightarrow> manifest \<Rightarrow> transfer_chunks \<Rightarrow> bytes \<Rightarrow> resume_state \<Rightarrow> blob_server \<Rightarrow> bool" where
  "spooled push m c content s v \<longleftrightarrow> bs_registry v (m_id m) = None \<and> resume_for s m c
     \<and> (\<exists>e. map_of (bs_pushes v) (m_id m) = Some e \<and> pe_manifest e = m \<and> pe_chunks e = c \<and> pe_state e = s)
     \<and> (\<exists>b t. bs_files v (push_part_path push (m_id m)) = Some (b, t) \<and> length b = unat (tc_total_len c)
          \<and> backed c content s b)"

text \<open>The blob of the push as the server serves it afterwards.\<close>

definition pushed :: "server_env \<Rightarrow> manifest \<Rightarrow> transfer_chunks \<Rightarrow> bytes \<Rightarrow> blob_server \<Rightarrow> bool" where
  "pushed E m c content v \<longleftrightarrow> (\<exists>r. bs_registry v (m_id m) = Some r \<and> rb_manifest r = m \<and> rb_chunks r = c
     \<and> source_open (bs_files v) (rb_source r) = Inr content \<and> unchanged r (bs_files v)
     \<and> se_compute_outboard E content = Inr (rb_outboard r))"

text \<open>A receiver that takes this push: enabled, allowed, in working order, with the crates doing what they document.\<close>

definition receives ::
  "server_env \<Rightarrow> server_config \<Rightarrow> push_config \<Rightarrow> manifest \<Rightarrow> transfer_chunks \<Rightarrow> bytes option \<Rightarrow> bytes \<Rightarrow> bool" where
  "receives E cfg push m c token content \<longleftrightarrow> sv_push cfg = Some push \<and> se_policy E m token
     \<and> is_ok (manifest_validate m (pu_max_blob_size push)) \<and> manifest_chunks m = Inr c
     \<and> (\<forall>x. se_fault E x = None) \<and> (\<forall>s. resume_for s m c \<longrightarrow> is_ok (se_enc_state E s))
     \<and> (\<exists>ob. se_compute_outboard E content = Inr ob \<and> se_root E ob = m_root m)
     \<and> of_nat (length content) = m_total_len m \<and> (m_total_len m = 0 \<longrightarrow> content = [])
     \<and> bao_pins (se_bao E) (m_root m) content \<and> bao_serves E"

lemma receives_pinned:
  assumes "receives E cfg push m c token content"
  obtains CE where "ce_bao CE = se_bao E" "pinned CE m c content"
proof
  let ?CE = "(undefined :: client_env)\<lparr>ce_bao := se_bao E, ce_enc := \<lambda>_. Inl Zenoh\<rparr>"
  show "ce_bao ?CE = se_bao E" by simp
  show "pinned ?CE m c content" using assms by (simp add: pinned_def codec_ok_def receives_def)
qed

lemma finalize_pushed:
  assumes r: "receives E cfg push m c token content" and sp: "spooled push m c content s v"
    and full: "resume_is_complete s (tc_count c)"
  shows "\<exists>v'. finalize_push E push (m_id m) v = (Inr (), v') \<and> pushed E m c content v'"
proof -
  obtain e b t where e: "map_of (bs_pushes v) (m_id m) = Some e" "pe_manifest e = m" "pe_chunks e = c"
    and b: "bs_files v (push_part_path push (m_id m)) = Some (b, t)" "length b = unat (tc_total_len c)" "backed c content s b"
    and none: "bs_registry v (m_id m) = None" and rf: "resume_for s m c"
    using sp by (auto simp: spooled_def)
  obtain CE where CE: "pinned CE m c content" by (rule receives_pinned [OF r])
  have "tc_total_len c = m_total_len m" using pinned_wf [OF CE] by blast
  then have bc: "b = content"
    using r by (intro complete_backed [OF CE rf full b(3,2)]) (simp add: receives_def)
  obtain ob where ob: "se_compute_outboard E content = Inr ob" "se_root E ob = m_root m"
    using r by (auto simp: receives_def)
  let ?part = "push_part_path push (m_id m)" and ?blob = "push_blob_path push (m_id m)"
  have ne: "?blob \<noteq> ?part" "?blob \<noteq> sidecar_path ?part" "?part \<noteq> sidecar_path ?part"
    by (simp_all add: push_part_path_def push_blob_path_def sidecar_path_def)
  show ?thesis
    using r e b(1) none ob ne
    by (auto simp: finalize_push_def Let_def bc receives_def pushed_def source_open_def unchanged_def fingerprint_def)
qed

text \<open>Leaves put into the spool file, as the client's partial file takes them.\<close>

lemma put_leaves_effect:
  assumes "leaves_ok content (length f) ls"
  shows "keeps_bytes content f (fold (\<lambda>(off, d). write_at (unat off) d) ls f)
    \<and> (\<forall>leaf \<in> set ls. \<forall>k. covers leaf k \<longrightarrow> holds content (fold (\<lambda>(off, d). write_at (unat off) d) ls f) k)"
  using assms
proof (induction ls arbitrary: f)
  case (Cons l ls)
  obtain off d where l: "l = (off, d)" by (cases l)
  have g: "genuine content off d" "unat off + length d \<le> length f" using Cons.prems by (auto simp: leaves_ok_def l)
  let ?g = "write_at (unat off) d f"
  have k: "keeps_bytes content f ?g" by (rule write_at_keeps [OF g])
  then have "leaves_ok content (length ?g) ls" using Cons.prems by (simp add: leaves_ok_def keeps_bytes_def)
  note IH = Cons.IH [OF this]
  have "holds content (fold (\<lambda>(off, d). write_at (unat off) d) ls ?g) j" if "covers (off, d) j" for j
    using IH holds_write_at_new [OF g(1) that, of f] by (simp add: keeps_bytes_def)
  then show ?case using IH keeps_bytes_trans [OF k] by (auto simp: l)
qed simp

lemma spooled_put:
  assumes r: "receives E cfg push m c token content" and sp: "spooled push m c content s v" and i: "i < tc_count c"
    and dec: "decode_slice (se_bao E) (m_root m) (m_total_len m) (chunk_range (se_bao E) (byte_range c i)) body push_leaf [] = (Inr (), ls)"
  shows "\<exists>v'. slice_write E push (m_id m) ls v = (Inr (), v') \<and> spooled push m c content s v' \<and> bs_pushes v' = bs_pushes v
    \<and> (\<exists>b t. bs_files v' (push_part_path push (m_id m)) = Some (b, t) \<and> chunk_holds c content b i)"
proof -
  obtain CE where CE: "ce_bao CE = se_bao E" "pinned CE m c content" by (rule receives_pinned [OF r])
  obtain b t where b: "bs_files v (push_part_path push (m_id m)) = Some (b, t)" "length b = unat (tc_total_len c)" "backed c content s b"
    using sp by (auto simp: spooled_def)
  let ?b = "fold (\<lambda>(off, d). write_at (unat off) d) ls b"
  have "leaves_ok content (length b) ls" using decoded_leaves_ok [OF CE(2)] dec b(2) CE(1) by simp
  note eff = put_leaves_effect [OF this]
  have ch: "chunk_holds c content ?b i" using decoded_chunk_holds [OF CE(2) i] dec CE(1) eff by simp
  have keep: "length ?b = unat (tc_total_len c)" "backed c content s ?b"
    using eff b(2) backed_keeps [OF _ b(3)] by (auto simp: keeps_bytes_def)
  show ?thesis
    using r sp b(1) ch keep by (auto simp: slice_write_def Let_def receives_def spooled_def)
qed

text \<open>The state of a push moves with its entry.\<close>

lemma spooled_entry:
  assumes "spooled push m c content s v" and "bs_files v (push_part_path push (m_id m)) = Some (b, t)"
    and "backed c content s' b" and "resume_for s' m c"
    and "map_of (bs_pushes v) (m_id m) = Some e" and "pe_manifest e' = m" "pe_chunks e' = c" "pe_state e' = s'"
  shows "spooled push m c content s' (v\<lparr>bs_pushes := AList.update (m_id m) e' (bs_pushes v)\<rparr>)"
  using assms by (auto simp: spooled_def update_conv')

lemma save_push_state_spooled:
  assumes "receives E cfg push m c token content" and "spooled push m c content s v"
  shows "\<exists>v'. save_push_state E (push_part_path push (m_id m)) s v = (Inr (), v') \<and> spooled push m c content s v'"
proof -
  have "is_ok (se_enc_state E s)" using assms by (auto simp: receives_def spooled_def)
  then obtain b where "se_enc_state E s = Inr b" by (auto simp: is_ok_iff)
  moreover have "push_part_path push (m_id m) \<noteq> sidecar_path (push_part_path push (m_id m))" by (simp add: sidecar_path_def)
  ultimately show ?thesis
    using assms by (auto simp: save_push_state_def sidecar_payload_def receives_def spooled_def)
qed

section \<open>One slice\<close>

definition acked :: "upload_env \<Rightarrow> server_env \<Rightarrow> bool" where
  "acked U E \<longleftrightarrow> (\<forall>n. \<exists>b. se_enc_u32 E n = Inr b \<and> ue_dec_u32 U b = Inr n)
     \<and> (\<forall>rs. \<exists>b. se_enc_ranges E rs = Inr b \<and> ue_dec_ranges U b = Inr rs)"

text \<open>An acknowledgement of a push, as the only reply.\<close>

definition ack_reply :: "bytes \<Rightarrow> outcome \<Rightarrow> bool" where
  "ack_reply payload out \<longleftrightarrow> (\<exists>key. out = (Inr (), [Inr \<lparr>sm_encoding = ENC_PUSH, sm_key = key, sm_payload = payload\<rparr>]))"

lemma push_ack_reply: "ack_reply payload (push_ack (push_query key body token) payload)"
  by (simp add: push_ack_def send_def push_query_def ack_reply_def)

lemma slice_mark_pushed:
  assumes r: "receives E cfg push m c token content" and a: "acked U E" and sp: "spooled push m c content s v"
    and part: "bs_files v (push_part_path push (m_id m)) = Some (b, t)" "chunk_holds c content b i"
  shows "\<exists>n payload v' out. slice_mark E push (push_query key body token) (m_id m) i (tc_count c) v = (out, v')
    \<and> ack_reply payload out \<and> ue_dec_u32 U payload = Inr n
    \<and> (if resume_is_complete (snd (resume_mark s i)) (tc_count c) then pushed E m c content v'
       else spooled push m c content (snd (resume_mark s i)) v')"
proof -
  let ?q = "push_query key body token"
  obtain newly st where mark: "resume_mark s i = (newly, st)" by (meson surj_pair)
  obtain e where e: "map_of (bs_pushes v) (m_id m) = Some e" "pe_manifest e = m" "pe_chunks e = c" "pe_state e = s"
    and rf: "resume_for s m c" using sp by (auto simp: spooled_def)
  have st: "st = snd (resume_mark s i)" "resume_for st m c" using mark resume_for_mark [of s i m c] rf by simp_all
  have bk: "backed c content st b" unfolding st(1)
    using sp part by (intro backed_mark [OF rf]) (auto simp: spooled_def)
  define dirty where "dirty = (if newly then pe_dirty_marks e + 1 else pe_dirty_marks e)"
  define remaining where "remaining = tc_count c - resume_received st"
  define save where "save = (remaining = 0 \<or> dirty \<ge> 16)"
  define v1 where "v1 = v\<lparr>bs_pushes := AList.update (m_id m)
      (e\<lparr>pe_state := st, pe_dirty_marks := (if save then 0 else dirty)\<rparr>) (bs_pushes v)\<rparr>"
  have sp1: "spooled push m c content st v1"
    unfolding v1_def using e by (intro spooled_entry [OF sp part(1) bk st(2) e(1)]) simp_all
  obtain v2 where v2: "(if save then save_push_state E (push_part_path push (m_id m)) st v1 else (Inr (), v1)) = (Inr (), v2)"
      and sp2: "spooled push m c content st v2"
    using save_push_state_spooled [OF r sp1] sp1 by (cases save) auto
  have run: "slice_mark E push ?q (m_id m) i (tc_count c) v
      = ack_and_finalize E push ?q (m_id m) (se_enc_u32 E remaining) (remaining = 0) v2"
    unfolding slice_mark_def e(1) option.case e(4) mark prod.case Let_def dirty_def [symmetric]
      remaining_def [symmetric] save_def [symmetric] v1_def [symmetric] v2 sum.case ..
  obtain payload where pl: "se_enc_u32 E remaining = Inr payload" "ue_dec_u32 U payload = Inr remaining"
    using a by (auto simp: acked_def)
  have "resume_received st \<le> tc_count c" using received_le_count [OF st(2)] by (simp add: word_le_nat_alt)
  then have zero: "remaining = 0 \<longleftrightarrow> resume_is_complete st (tc_count c)"
    by (auto simp: remaining_def resume_is_complete_def)
  show ?thesis
  proof (cases "remaining = 0")
    case True
    then obtain v' where "finalize_push E push (m_id m) v2 = (Inr (), v')" "pushed E m c content v'"
      using finalize_pushed [OF r sp2] zero by blast
    then show ?thesis
      using run pl True zero push_ack_reply [of payload key body token]
      by (auto simp: ack_and_finalize_def st(1) [symmetric])
  next
    case False
    then show ?thesis
      using run pl sp2 zero push_ack_reply [of payload key body token]
      by (auto simp: ack_and_finalize_def st(1) [symmetric])
  qed
qed

lemma slice_pushed:
  assumes r: "receives E cfg push m c token content" and a: "acked U E" and sp: "spooled push m c content s v"
    and i: "i < tc_count c" "\<not> resume_is_set s i"
    and body: "se_compute_outboard E content = Inr ob" "se_encode_slice E ob content (chunk_range (se_bao E) (byte_range c i)) = Inr body"
  shows "\<exists>n payload v' out. handle_push_slice E cfg (push_query key body token) (m_id m) i v = (out, v')
    \<and> ack_reply payload out \<and> ue_dec_u32 U payload = Inr n
    \<and> (if resume_is_complete (snd (resume_mark s i)) (tc_count c) then pushed E m c content v'
       else spooled push m c content (snd (resume_mark s i)) v')"
proof -
  let ?q = "push_query key body token"
  obtain e b t where e: "map_of (bs_pushes v) (m_id m) = Some e" "pe_manifest e = m" "pe_chunks e = c" "pe_state e = s"
    and b: "bs_files v (push_part_path push (m_id m)) = Some (b, t)" "backed c content s b" and rf: "resume_for s m c"
    using sp by (auto simp: spooled_def)
  let ?v1 = "v\<lparr>bs_pushes := AList.update (m_id m) (e\<lparr>pe_last_activity := bs_now v\<rparr>) (bs_pushes v)\<rparr>"
  have sp1: "spooled push m c content s ?v1" using e by (intro spooled_entry [OF sp b rf e(1)]) simp_all
  have "se_root E ob = m_root m" "of_nat (length content) = m_total_len m" "bao_serves E"
    using r body(1) by (auto simp: receives_def)
  then have "\<forall>x \<in> set (DecodeResponseIter (se_bao E) (m_root m) (m_total_len m) (chunk_range (se_bao E) (byte_range c i)) body). is_ok x"
    using body unfolding bao_serves_def by (metis sum.inject(2))
  then obtain ls where dec: "decode_slice (se_bao E) (m_root m) (m_total_len m)
      (chunk_range (se_bao E) (byte_range c i)) body push_leaf [] = (Inr (), ls)"
    by (auto simp: decode_slice_def decode_items_push)
  obtain v2 b2 t2 where v2: "slice_write E push (m_id m) ls ?v1 = (Inr (), v2)" "spooled push m c content s v2"
      "bs_files v2 (push_part_path push (m_id m)) = Some (b2, t2)" "chunk_holds c content b2 i"
    using spooled_put [OF r sp1 i(1) dec] by blast
  obtain n payload v' out where out: "slice_mark E push ?q (m_id m) i (tc_count c) v2 = (out, v')" "ack_reply payload out"
      "ue_dec_u32 U payload = Inr n" "if resume_is_complete (snd (resume_mark s i)) (tc_count c) then pushed E m c content v'
       else spooled push m c content (snd (resume_mark s i)) v'"
    using slice_mark_pushed [OF r a v2(2,3,4), of key body] by blast
  have "\<not> tc_count c \<le> i" using i(1) by (simp add: not_le)
  then have "push_slice_inner E cfg ?q (m_id m) i v = (out, v')"
    using r e i(2) dec v2(1) out(1)
    by (simp add: push_slice_inner_def slice_snapshot_def push_query_def receives_def)
  then have "handle_push_slice E cfg ?q (m_id m) i v = (out, v')"
    using out(2) by (auto simp: handle_push_slice_def with_error_reply_def ack_reply_def)
  with out show ?thesis by blast
qed

section \<open>The whole upload\<close>

text \<open>The upload's view of one slice: it is acknowledged, whatever the state of the push.\<close>

lemma upload_slice_pushed:
  assumes r: "receives E cfg push m c token content" and a: "acked U E" "ue_lib U = E" "\<forall>n. \<not> ue_cancelled U n"
    and key: "reaches q (sv_prefix cfg)" "id_is_valid (m_id m)"
    and src: "\<forall>k. us_read src k = content" "se_compute_outboard E content = Inr ob"
    and sp: "spooled push m c content s (up_net u)" and i: "i < tc_count c" "\<not> resume_is_set s i"
  shows "\<exists>u'. upload_slice U (server_ask E cfg) q token src ob c m i u = (Inr (), u')
    \<and> (if resume_is_complete (snd (resume_mark s i)) (tc_count c) then pushed E m c content (up_net u')
       else spooled push m c content (snd (resume_mark s i)) (up_net u'))"
proof -
  obtain body where body: "se_encode_slice E ob content (chunk_range (se_bao E) (byte_range c i)) = Inr body"
    using r src(2) unfolding receives_def bao_serves_def by blast
  let ?key = "push_slice_key q (m_id m) i"
  obtain n payload v' out where out: "handle_push_slice E cfg (push_query ?key body token) (m_id m) i (up_net u) = (out, v')"
      "ack_reply payload out" "ue_dec_u32 U payload = Inr n"
      "if resume_is_complete (snd (resume_mark s i)) (tc_count c) then pushed E m c content v'
       else spooled push m c content (snd (resume_mark s i)) v'"
    using slice_pushed [OF r a(1) sp i src(2) body] by blast
  obtain key where "out = (Inr (), [Inr \<lparr>sm_encoding = ENC_PUSH, sm_key = key, sm_payload = payload\<rparr>])"
    using out(2) by (auto simp: ack_reply_def)
  then have "server_ask E cfg (up_net u) ?key body token
      = (Replies [Recv (Inr \<lparr>sm_encoding = ENC_PUSH, sm_key = key, sm_payload = payload\<rparr>) 0], v')"
    using out(1) serve_slice [OF assms(5,6), of E i body token "up_net u"] by (simp add: server_ask_def)
  then show ?thesis
    using a(2,3) src(1) body out(3,4) by (simp add: upload_slice_def Let_def up_emit_def)
qed

text \<open>The slices still wanted are the unset chunks, so the last one completes the push.\<close>

lemma upload_slices_pushed:
  assumes r: "receives E cfg push m c token content" and a: "acked U E" "ue_lib U = E" "\<forall>n. \<not> ue_cancelled U n"
    and key: "reaches q (sv_prefix cfg)" "id_is_valid (m_id m)"
    and src: "\<forall>k. us_read src k = content" "se_compute_outboard E content = Inr ob"
    and "spooled push m c content s (up_net u)" and "is \<noteq> []" "distinct is" "\<forall>i. i \<in> set is \<longleftrightarrow> i < tc_count c \<and> \<not> resume_is_set s i"
  shows "\<exists>u'. upload_slices U (server_ask E cfg) q token src ob c m is u = (Inr (), u') \<and> pushed E m c content (up_net u')"
  using assms(9-)
proof (induction "is" arbitrary: s u)
  case (Cons i "is")
  have i: "i < tc_count c" "\<not> resume_is_set s i" using Cons.prems(4) by auto
  obtain u1 where u1: "upload_slice U (server_ask E cfg) q token src ob c m i u = (Inr (), u1)"
      "if resume_is_complete (snd (resume_mark s i)) (tc_count c) then pushed E m c content (up_net u1)
       else spooled push m c content (snd (resume_mark s i)) (up_net u1)"
    using upload_slice_pushed [OF r a key src Cons.prems(1) i] by blast
  let ?s = "snd (resume_mark s i)"
  have rf: "resume_for s m c" using Cons.prems(1) by (simp add: spooled_def)
  have set: "resume_is_set ?s k \<longleftrightarrow> k = i \<or> resume_is_set s k" for k
    using resume.mark_is_set [OF resume_for_sized [OF rf], of i k] i(1) resume_for_count [OF rf] resume_for_room [OF rf] by auto
  have left: "\<forall>k. k \<in> set is \<longleftrightarrow> k < tc_count c \<and> \<not> resume_is_set ?s k"
    using Cons.prems(3,4) set by auto
  have full: "resume_is_complete ?s (tc_count c) \<longleftrightarrow> is = []"
    using resume_complete_iff [of ?s m c] rf left by (cases "is") auto
  show ?case
  proof (cases "is")
    case Nil
    then show ?thesis using u1 full by simp
  next
    case (Cons j js)
    then have "spooled push m c content ?s (up_net u1)" using u1(2) full by simp
    from Cons.IH [OF this] Cons Cons.prems(3) left u1(1) show ?thesis by simp
  qed
qed simp

lemma offer_spools:
  assumes r: "receives E cfg push m c token content" and a: "acked U E"
    and enc: "se_dec_manifest E payload = Inr m"
    and v: "bs_registry v (m_id m) = None" "bs_pushes v = []" "1 \<le> pu_max_concurrent push" "spool_probe E push m c v = None"
  shows "\<exists>ack v' out. handle_push_offer E cfg (push_query key payload token) (m_id m) v = (out, v')
    \<and> ack_reply ack out \<and> ue_dec_ranges U ack = Inr (missing_ranges (resume_fresh m (tc_count c)) (tc_count c))
    \<and> (if tc_count c = 0 then pushed E m c content v' else spooled push m c content (resume_fresh m (tc_count c)) v')"
proof -
  let ?q = "push_query key payload token" and ?s = "resume_fresh m (tc_count c)"
  let ?part = "push_part_path push (m_id m)"
  have mc: "manifest_chunks m = Inr c" and tot: "tc_total_len c = m_total_len m"
    using r by (auto simp: receives_def manifest_chunks_Inr)
  have rf: "resume_for ?s m c" by (rule resume_for_fresh [OF mc])
  have clean: "evict_idle push v = v" "idle_pushes push v = []" using v(2) by (simp_all add: evict_idle_def idle_pushes_def)
  have checks: "offer_checks E cfg ?q (m_id m) = Inr (push, m, c)"
    using r enc by (simp add: offer_checks_def push_query_def receives_def)
  have fast: "offer_fast_path E push ?q m c v = (Inr (), v)"
    using v by (simp add: offer_fast_path_def clean cleanup_spool_def Let_def)
  let ?v2 = "v\<lparr>bs_files := (bs_files v)(?part \<mapsto> (set_len (unat (m_total_len m)) [], bs_now v))\<rparr>"
  obtain b where b: "se_enc_state E ?s = Inr b" using r rf by (auto simp: receives_def is_ok_iff)
  let ?v3 = "?v2\<lparr>bs_files := (bs_files ?v2)(sidecar_path ?part \<mapsto> (RESUME_MAGIC @ b, bs_now v))\<rparr>"
  have create: "spool_create E push m c v = (Inr ?s, ?v3)"
    using r b by (simp add: spool_create_def save_push_state_def sidecar_payload_def receives_def Let_def)
  let ?e = "\<lparr>pe_manifest = m, pe_chunks = c, pe_state = ?s, pe_last_activity = bs_now v, pe_dirty_marks = 0\<rparr>"
  let ?v4 = "?v3\<lparr>bs_pushes := AList.update (m_id m) ?e (bs_pushes ?v3)\<rparr>"
  have sp: "spooled push m c content ?s ?v4"
    using v rf tot by (auto simp: spooled_def fresh_backed sidecar_path_def)
  let ?wanted = "missing_ranges ?s (tc_count c)"
  obtain ack where ack: "se_enc_ranges E ?wanted = Inr ack" "ue_dec_ranges U ack = Inr ?wanted"
    using a by (auto simp: acked_def)
  have inner: "push_offer_inner E cfg ?q (m_id m) v
      = ack_and_finalize E push ?q (m_id m) (se_enc_ranges E ?wanted) (?wanted = []) ?v4"
    using r v create by (simp add: push_offer_inner_def checks fast offer_insert_def Let_def receives_def)
  have empty: "?wanted = [] \<longleftrightarrow> tc_count c = 0"
    using missing_ranges_empty [of ?s "tc_count c"] by (auto simp: resume_fresh_unset) (metis word_gt_0)
  have full: "resume_is_complete ?s (tc_count c)" if "tc_count c = 0"
    using resume_complete_iff [OF rf] that by simp
  obtain out v' where out: "push_offer_inner E cfg ?q (m_id m) v = (out, v')" "ack_reply ack out"
      "if tc_count c = 0 then pushed E m c content v' else spooled push m c content ?s v'"
  proof (cases "tc_count c = 0")
    case True
    then obtain w where "finalize_push E push (m_id m) ?v4 = (Inr (), w)" "pushed E m c content w"
      using finalize_pushed [OF r sp full] by blast
    then show ?thesis
      using that [of "push_ack ?q ack" w] inner ack(1) True empty push_ack_reply by (simp add: ack_and_finalize_def)
  next
    case False
    then show ?thesis
      using that [of "push_ack ?q ack" ?v4] inner ack(1) empty sp push_ack_reply by (simp add: ack_and_finalize_def)
  qed
  have "handle_push_offer E cfg ?q (m_id m) v = (out, v')"
    using out(1,2) by (auto simp: handle_push_offer_def with_error_reply_def ack_reply_def)
  with out ack(2) show ?thesis by blast
qed

lemma upload_manifest_Inr:
  assumes "upload_manifest U spec src = Inr (ob, c, m)"
  shows "\<exists>content. us_hash src = Inr content \<and> se_compute_outboard (ue_lib U) content = Inr ob
    \<and> m_root m = se_root (ue_lib U) ob \<and> m_total_len m = of_nat (length content) \<and> manifest_chunks m = Inr c \<and> id_is_valid (m_id m)"
  using assms
  by (auto simp: upload_manifest_def Let_def and_then_Inr manifest_chunks_def blob_id_new_Inr split: sum.splits)

lemma check_wanted_sorted:
  assumes "ranges_sorted n rs" and "\<forall>r \<in> set rs. prev \<le> fst r"
  shows "check_wanted n prev rs = Inr ()"
  using assms
proof (induction rs arbitrary: prev)
  case (Cons r rs)
  then show ?case by (cases r) (auto simp: ranges_sorted_def not_less not_le)
qed simp

lemma server_ask_acked:
  assumes "serve_one E cfg (push_query key payload token) v = (out, v')" and "ack_reply ack out"
  shows "\<exists>k. server_ask E cfg v key payload token
    = (Replies [Recv (Inr \<lparr>sm_encoding = ENC_PUSH, sm_key = k, sm_payload = ack\<rparr>) 0], v')"
  using assms by (auto simp: server_ask_def ack_reply_def)

lemma honest_upload:
  assumes r: "receives E cfg push m c token content" and a: "acked U E" "ue_lib U = E" "\<forall>n. \<not> ue_cancelled U n"
    and key: "reaches q (sv_prefix cfg)" "is_concrete q"
    and src: "upload_manifest U spec src = Inr (ob, c, m)" "us_hash src = Inr content" "\<forall>k. us_read src k = content"
      "us_reopen src = None" "us_fp_now src = us_fp_then src"
    and enc: "se_enc_manifest E m = Inr payload" "se_dec_manifest E payload = Inr m"
    and v: "bs_registry v (m_id m) = None" "bs_pushes v = []" "1 \<le> pu_max_concurrent push" "spool_probe E push m c v = None"
  shows "\<exists>u. run_upload U (server_ask E cfg) q spec src token v = (Inr m, u) \<and> pushed E m c content (up_net u)"
proof -
  have m: "se_compute_outboard E content = Inr ob" "id_is_valid (m_id m)"
    using upload_manifest_Inr [OF src(1)] src(2) a(2) by auto
  let ?s = "resume_fresh m (tc_count c)" and ?key = "push_offer_key q (m_id m)"
  let ?w = "missing_ranges ?s (tc_count c)" and ?is = "concat (map range_indices (missing_ranges (resume_fresh m (tc_count c)) (tc_count c)))"
  obtain ack v1 out where offer: "handle_push_offer E cfg (push_query ?key payload token) (m_id m) v = (out, v1)" "ack_reply ack out"
      "ue_dec_ranges U ack = Inr ?w"
    and v1: "if tc_count c = 0 then pushed E m c content v1 else spooled push m c content ?s v1"
    using offer_spools [OF r a(1) enc(2) v, of ?key] by blast
  obtain k where asked: "server_ask E cfg v ?key payload token
      = (Replies [Recv (Inr \<lparr>sm_encoding = ENC_PUSH, sm_key = k, sm_payload = ack\<rparr>) 0], v1)"
    using server_ask_acked [OF _ offer(2)] serve_offer [OF key(1) m(2), of E payload token v] offer(1) by metis
  have srt: "ranges_sorted (tc_count c) ?w" using missing_ranges_spec(1) [of "tc_count c" ?s] by (simp add: ranges_coalesced_def)
  have mem: "i \<in> set ?is \<longleftrightarrow> i < tc_count c \<and> \<not> resume_is_set ?s i" for i
    unfolding in_query_indices by (rule missing_ranges_spec(2))
  have dist: "distinct ?is" using wanted_indices_sorted [OF srt] by (simp add: strict_sorted_iff)
  have slices: "\<exists>u'. upload_slices U (server_ask E cfg) q token src ob c m ?is u = (Inr (), u') \<and> pushed E m c content (up_net u')"
    if "up_net u = v1" for u
  proof (cases "tc_count c = 0")
    case True
    then have "?is = []" using mem by (metis list.set_cases neq_Nil_conv list.set_intros(1) word_not_simps(1))
    then show ?thesis using v1 True that by (simp del: concat_eq_Nil_conv)
  next
    case False
    then have "0 < tc_count c" by (simp add: word_gt_0)
    then have "0 \<in> set ?is" unfolding mem using resume_fresh_unset by blast
    then have ne: "?is \<noteq> []" by (metis empty_iff empty_set)
    have sp: "spooled push m c content ?s (up_net u)" using v1 False that by simp
    show ?thesis by (rule upload_slices_pushed [OF r a key(1) m(2) src(3) m(1) sp ne dist]) (intro allI, rule mem)
  qed
  have fin: "\<exists>u'. upload_finish src m u = (Inr m, u') \<and> up_net u' = up_net u" for u :: "blob_server upload"
    using src(5) by (auto simp: upload_finish_def up_emit_def split: option.splits)
  define u1 where "u1 = (up_emit (if wanted_total ?w < tc_count c then Resumed (tc_count c - wanted_total ?w) (tc_count c)
       else Started (m_total_len m) (tc_count c))
     \<lparr>up_net = v1, up_sent = 0, up_bytes = 0, up_reads = 0, up_progress = []\<rparr>)
     \<lparr>up_sent := tc_count c - wanted_total ?w, up_bytes := 0, up_reads := 0\<rparr>"
  have "up_net u1 = v1" by (simp add: u1_def up_emit_def)
  then obtain u2 where u2: "upload_slices U (server_ask E cfg) q token src ob c m ?is u1 = (Inr (), u2)" "pushed E m c content (up_net u2)"
    using slices by blast
  obtain u3 where u3: "upload_finish src m u2 = (Inr m, u3)" "up_net u3 = up_net u2" using fin by blast
  have "check_wanted (tc_count c) 0 ?w = Inr ()" using check_wanted_sorted [OF srt] by simp
  then have "upload_wanted U (server_ask E cfg) q token src ob c m ?w
      \<lparr>up_net = v1, up_sent = 0, up_bytes = 0, up_reads = 0, up_progress = []\<rparr> = (Inr m, u3)"
    using src(4) u2(1) u3(1) unfolding upload_wanted_def Let_def u1_def by simp
  then have "run_upload U (server_ask E cfg) q spec src token v = (Inr m, u3)"
    using src(1) a(2) enc(1) asked offer(3) key(2) by (simp add: run_upload_def)
  then show ?thesis using u2(2) u3(2) by auto
qed

end
