(* ===== verification/Store_Client.thy ===== *)
theory Store_Client
  imports Tree_Serving
begin

text \<open>
  The store client (\<open>src/src/store_client.rs\<close>): fetching one chunk, batched rounds, and the
  probe. The network is the parameter \<open>sn_get\<close>: the outcome of the \<open>n\<close>-th query, given its key
  and payload.
\<close>

record store_net =
  sn_crates :: crates
  sn_postcard :: postcard
  sn_valid_ke :: "string \<Rightarrow> bool"
  sn_get :: "nat \<Rightarrow> string \<Rightarrow> bytes option \<Rightarrow> unit + reply list"

record store_client =
  sc_prefix :: query_prefix
  sc_max_chunk_bytes :: nat

section \<open>One chunk\<close>

definition max_frame :: "u32 option \<Rightarrow> nat \<Rightarrow> nat" where
  "max_frame want_len max_bytes = (case want_len of None \<Rightarrow> max_bytes | Some n \<Rightarrow> unat n) + 1 + 4"

fun chunk_replies ::
  "crates \<Rightarrow> hash \<Rightarrow> u32 option \<Rightarrow> nat \<Rightarrow> u32 \<Rightarrow> reply list \<Rightarrow> (bytes \<times> u32) res" where
  "chunk_replies C h want_len max_bytes rejected [] = Inl NotFound"
| "chunk_replies C h want_len max_bytes rejected (Inl _ # rs) =
     chunk_replies C h want_len max_bytes rejected rs"
| "chunk_replies C h want_len max_bytes rejected (Inr s # rs) =
     (if sm_encoding s \<noteq> ENC_CHUNK then chunk_replies C h want_len max_bytes rejected rs
      else if length (sm_payload s) > max_frame want_len max_bytes
      then chunk_replies C h want_len max_bytes (rejected + 1) rs
      else case unpack C (sm_payload s) of
             Inl _ \<Rightarrow> chunk_replies C h want_len max_bytes (rejected + 1) rs
           | Inr b \<Rightarrow>
               if (case want_len of Some n \<Rightarrow> of_nat (length b) \<noteq> n | None \<Rightarrow> False) \<or> cr_blake3 C b \<noteq> h
               then chunk_replies C h want_len max_bytes (rejected + 1) rs
               else Inr (b, rejected))"

definition fetch_one_chunk ::
  "store_net \<Rightarrow> nat \<Rightarrow> string \<Rightarrow> hash \<Rightarrow> u32 option \<Rightarrow> nat \<Rightarrow> (bytes \<times> u32) res" where
  "fetch_one_chunk N n key h want_len max_bytes =
     (case sn_get N n key None of
        Inl _ \<Rightarrow> Inl Zenoh
      | Inr rs \<Rightarrow> chunk_replies (sn_crates N) h want_len max_bytes 0 rs)"

definition fetch_chunk :: "store_net \<Rightarrow> nat \<Rightarrow> store_client \<Rightarrow> hash \<Rightarrow> bytes res" where
  "fetch_chunk N n c h =
     and_then (fetch_one_chunk N n (store_key (sc_prefix c) Blake3 h) h None (sc_max_chunk_bytes c))
       (\<lambda>(b, _). Inr b)"

definition fetch_chunk_sized :: "store_net \<Rightarrow> nat \<Rightarrow> store_client \<Rightarrow> hash \<Rightarrow> u32 \<Rightarrow> bytes res" where
  "fetch_chunk_sized N n c h len =
     and_then (fetch_one_chunk N n (store_key (sc_prefix c) Blake3 h) h (Some len) (sc_max_chunk_bytes c))
       (\<lambda>(b, _). Inr b)"

definition max_chunk_bytes :: "nat \<Rightarrow> store_client \<Rightarrow> store_client" where
  "max_chunk_bytes n c = c\<lparr>sc_max_chunk_bytes := min n MAX_UNPACKED\<rparr>"

section \<open>Batched rounds\<close>

definition expected_lens :: "chunk_ref list \<Rightarrow> hash \<rightharpoonup> u32" where
  "expected_lens wanted = fold (\<lambda>c m. m(cr_hash c \<mapsto> cr_len c)) wanted Map.empty"

definition batch_query ::
  "store_net \<Rightarrow> nat \<Rightarrow> string \<Rightarrow> chunk_ref list \<Rightarrow> (reply list \<times> (hash \<rightharpoonup> u32)) res" where
  "batch_query N n prefix wanted =
     and_then (pc_want (sn_postcard N) (want_list_new (map cr_hash wanted))) (\<lambda>payload.
       case sn_get N n (store_batch_key prefix Blake3) (Some payload) of
         Inl _ \<Rightarrow> Inl Zenoh
       | Inr rs \<Rightarrow> Inr (rs, expected_lens wanted))"

definition accept_batch_reply ::
  "crates \<Rightarrow> string \<Rightarrow> sample \<Rightarrow> (hash \<rightharpoonup> u32) \<Rightarrow> (hash \<times> bytes) option" where
  "accept_batch_reply C prefix s asked =
     (if sm_encoding s \<noteq> ENC_CHUNK then None
      else case parse_tier2_tail prefix (sm_key s) of
             Some (Two algo hex) \<Rightarrow>
               if algo \<noteq> ''blake3'' then None
               else (case hash_from_str hex of
                       Inl _ \<Rightarrow> None
                     | Inr h \<Rightarrow>
                         (case asked h of
                            None \<Rightarrow> None
                          | Some len \<Rightarrow>
                              if length (sm_payload s) > unat len + 1 + 4 then None
                              else (case unpack C (sm_payload s) of
                                      Inl _ \<Rightarrow> None
                                    | Inr b \<Rightarrow>
                                        if of_nat (length b) \<noteq> len \<or> cr_blake3 C b \<noteq> h then None
                                        else Some (h, b))))
           | _ \<Rightarrow> None)"

text \<open>What a reply of a round is worth, error replies included.\<close>

definition accept_reply :: "crates \<Rightarrow> string \<Rightarrow> (hash \<rightharpoonup> u32) \<Rightarrow> reply \<Rightarrow> (hash \<times> bytes) option" where
  "accept_reply C prefix asked r =
     (case r of Inl _ \<Rightarrow> None | Inr s \<Rightarrow> accept_batch_reply C prefix s asked)"

fun drain_round ::
  "crates \<Rightarrow> string \<Rightarrow> (hash \<rightharpoonup> u32) \<Rightarrow> hash list \<Rightarrow> (hash \<times> bytes) list \<Rightarrow> reply list \<Rightarrow> (hash \<times> bytes) list" where
  "drain_round C prefix asked seen out [] = out"
| "drain_round C prefix asked seen out (r # rs) =
     (case accept_reply C prefix asked r of
        Some (h, b) \<Rightarrow>
          if h \<in> set seen then drain_round C prefix asked seen out rs
          else drain_round C prefix asked (h # seen) (out @ [(h, b)]) rs
      | None \<Rightarrow> drain_round C prefix asked seen out rs)"

fun fetch_groups ::
  "store_net \<Rightarrow> nat \<Rightarrow> string \<Rightarrow> (hash \<times> bytes) list \<Rightarrow> chunk_ref list list \<Rightarrow> (hash \<times> bytes) list res" where
  "fetch_groups N n prefix out [] = Inr out"
| "fetch_groups N n prefix out (g # gs) =
     and_then (batch_query N n prefix g) (\<lambda>(rs, asked).
       fetch_groups N (Suc n) prefix (drain_round (sn_crates N) prefix asked [] out rs) gs)"

definition fetch_many :: "store_net \<Rightarrow> nat \<Rightarrow> store_client \<Rightarrow> chunk_ref list \<Rightarrow> (hash \<times> bytes) list res" where
  "fetch_many N n c wanted = fetch_groups N n (sc_prefix c) [] (pieces_of MAX_WANT_LIST wanted)"

section \<open>The probe\<close>

fun probe_replies ::
  "postcard \<Rightarrow> nat \<Rightarrow> (string \<times> have_bits) list \<Rightarrow> reply list \<Rightarrow> (string \<times> have_bits) list" where
  "probe_replies P n out [] = out"
| "probe_replies P n out (r # rs) =
     (case r of
        Inl _ \<Rightarrow> probe_replies P n out rs
      | Inr s \<Rightarrow>
          if sm_encoding s \<noteq> ENC_HAVEBITS then probe_replies P n out rs
          else (case pc_get_bits P (sm_payload s) of
                  Inl _ \<Rightarrow> probe_replies P n out rs
                | Inr bits \<Rightarrow>
                    if \<not> is_ok (have_bits_validate bits n) then probe_replies P n out rs
                    else probe_replies P n (out @ [(sm_key s, bits)]) rs))"

definition probe_chunks ::
  "store_net \<Rightarrow> nat \<Rightarrow> string \<Rightarrow> hash list \<Rightarrow> (string \<times> have_bits) list res" where
  "probe_chunks N n prefix hs =
     (if hs = [] then Inr []
      else and_then (pc_want (sn_postcard N) (want_list_new hs)) (\<lambda>payload.
             case sn_get N n (store_have_key prefix Blake3) (Some payload) of
               Inl _ \<Rightarrow> Inl Zenoh
             | Inr rs \<Rightarrow> Inr (probe_replies (sn_postcard N) (length hs) [] rs)))"

record chunk_probe =
  cp_origin :: query_prefix
  cp_held :: "hash list"

text \<open>The reply key without \<open>/<algo>/have\<close>, as a prefix.\<close>

definition probe_origin :: "(string \<Rightarrow> bool) \<Rightarrow> string \<Rightarrow> query_prefix option" where
  "probe_origin valid_ke key =
     Option.bind (strip_suffix STORE_HAVE key) (\<lambda>k.
     Option.bind (strip_suffix ''/'' k) (\<lambda>k.
     Option.bind (strip_suffix ''blake3'' k) (\<lambda>k.
     Option.bind (strip_suffix ''/'' k) (\<lambda>k.
       case query_prefix_new valid_ke k of Inr p \<Rightarrow> Some p | Inl _ \<Rightarrow> None))))"

definition held_of :: "hash list \<Rightarrow> have_bits \<Rightarrow> hash list" where
  "held_of grp bits = map snd (filter (\<lambda>(i, _). have_bits_is_set bits (of_nat i)) (enumerate 0 grp))"

fun add_probe :: "query_prefix \<Rightarrow> hash list \<Rightarrow> chunk_probe list \<Rightarrow> chunk_probe list" where
  "add_probe origin held [] = [\<lparr>cp_origin = origin, cp_held = held\<rparr>]"
| "add_probe origin held (p # ps) =
     (if cp_origin p = origin then p\<lparr>cp_held := cp_held p @ held\<rparr> # ps else p # add_probe origin held ps)"

definition note_probe ::
  "(string \<Rightarrow> bool) \<Rightarrow> hash list \<Rightarrow> string \<times> have_bits \<Rightarrow> chunk_probe list \<Rightarrow> chunk_probe list" where
  "note_probe valid_ke grp kb out =
     (case probe_origin valid_ke (fst kb) of
        None \<Rightarrow> out | Some origin \<Rightarrow> add_probe origin (held_of grp (snd kb)) out)"

fun probe_groups ::
  "store_net \<Rightarrow> nat \<Rightarrow> string \<Rightarrow> chunk_probe list \<Rightarrow> hash list list \<Rightarrow> chunk_probe list res" where
  "probe_groups N n prefix out [] = Inr out"
| "probe_groups N n prefix out (g # gs) =
     and_then (probe_chunks N n prefix g) (\<lambda>answers.
       probe_groups N (Suc n) prefix (fold (note_probe (sn_valid_ke N) g) answers out) gs)"

definition probe :: "store_net \<Rightarrow> nat \<Rightarrow> store_client \<Rightarrow> hash list \<Rightarrow> chunk_probe list res" where
  "probe N n c hs = probe_groups N n (sc_prefix c) [] (pieces_of MAX_WANT_LIST hs)"

section \<open>Nothing unverified is returned\<close>

lemma unpack_Inr: "unpack C p = Inr b \<longleftrightarrow> try_unpack C p = Inr b"
  by (auto simp: unpack_def split: sum.splits)

lemma chunk_replies_verified:
  "chunk_replies C h want_len max_bytes rejected rs = Inr (b, n) \<Longrightarrow>
   cr_blake3 C b = h \<and> length b \<le> MAX_UNPACKED \<and> (\<forall>len. want_len = Some len \<longrightarrow> of_nat (length b) = len)"
proof (induction C h want_len max_bytes rejected rs rule: chunk_replies.induct)
  case (3 C h want_len max_bytes rejected s rs)
  then show ?case
    by (auto simp: unpack_Inr dest: try_unpack_bound split: if_splits sum.splits option.splits)
qed simp_all

text \<open>A good answer among the replies is found, whatever comes before it.\<close>

definition good_reply :: "crates \<Rightarrow> hash \<Rightarrow> u32 option \<Rightarrow> nat \<Rightarrow> reply \<Rightarrow> bool" where
  "good_reply C h want_len max_bytes r \<longleftrightarrow>
     (case r of
        Inl _ \<Rightarrow> False
      | Inr s \<Rightarrow> sm_encoding s = ENC_CHUNK \<and> length (sm_payload s) \<le> max_frame want_len max_bytes
          \<and> (\<exists>b. try_unpack C (sm_payload s) = Inr b \<and> cr_blake3 C b = h
                \<and> (\<forall>len. want_len = Some len \<longrightarrow> of_nat (length b) = len)))"

lemma chunk_replies_found:
  "(\<exists>b n. chunk_replies C h want_len max_bytes rejected rs = Inr (b, n))
     \<longleftrightarrow> (\<exists>r \<in> set rs. good_reply C h want_len max_bytes r)"
proof (induction C h want_len max_bytes rejected rs rule: chunk_replies.induct)
  case (3 C h want_len max_bytes rejected s rs)
  show ?case
  proof (cases "good_reply C h want_len max_bytes (Inr s)")
    case True
    then show ?thesis by (auto simp: good_reply_def unpack_def split: option.splits)
  next
    case False
    then have "(\<exists>b n. chunk_replies C h want_len max_bytes rejected (Inr s # rs) = Inr (b, n))
      \<longleftrightarrow> (\<exists>r \<in> set rs. good_reply C h want_len max_bytes r)"
      using 3 by (auto simp: good_reply_def unpack_Inr split: sum.splits option.splits)
    then show ?thesis using False by simp
  qed
qed (simp_all add: good_reply_def)

lemma accept_batch_reply_Some:
  "accept_batch_reply C prefix s asked = Some (h, b) \<Longrightarrow>
   cr_blake3 C b = h \<and> length b \<le> MAX_UNPACKED \<and> asked h = Some (of_nat (length b)) \<and> hash_wf h"
  by (auto simp: accept_batch_reply_def unpack_Inr dest: try_unpack_bound hash_from_str_wf
      split: if_splits option.splits tier2_tail.splits sum.splits)

lemma accept_reply_Some:
  "accept_reply C prefix asked r = Some (h, b) \<Longrightarrow>
   cr_blake3 C b = h \<and> length b \<le> MAX_UNPACKED \<and> asked h = Some (of_nat (length b)) \<and> hash_wf h"
  by (auto simp: accept_reply_def dest: accept_batch_reply_Some split: sum.splits)

end
