(* ===== verification/Store_Exchange.thy ===== *)
theory Store_Exchange
  imports Store_Client
begin

text \<open>
  The store client against the tree server: what a holder has comes back from a batched round
  and from a probe, and what the client's filter does with a wildcard prefix.
\<close>

section \<open>Honest frames are accepted\<close>

lemma pack_length: "pack C b level = Inr framed \<Longrightarrow> length framed \<le> length b + 1"
  by (auto simp: pack_def pack_raw_def and_then_Inr split: chunk_compression.splits option.splits if_splits)

lemma store_key_tail:
  assumes "\<not> has_wildcard p"
  shows "parse_tier2_tail p (store_key p Blake3 h) = Some (Two ''blake3'' (hash_display h))"
proof -
  have "CHR ''/'' \<notin> set ''blake3''" by simp
  from parse_tier2_tail_two [OF reaches_refl [OF assms] this hash_display_no_slash]
  show ?thesis by (simp add: store_key_def)
qed

definition chunk_sample :: "serve_prefix \<Rightarrow> hash \<Rightarrow> bytes \<Rightarrow> sample" where
  "chunk_sample p h framed = \<lparr>sm_encoding = ENC_CHUNK, sm_key = store_key p Blake3 h, sm_payload = framed\<rparr>"

lemma accept_honest:
  assumes "zstd_ok C" "\<not> has_wildcard p" "hash_wf h" "cr_blake3 C b = h" "length b \<le> MAX_UNPACKED"
    and "asked h = Some (of_nat (length b))" "pack C b level = Inr framed"
  shows "accept_batch_reply C p (chunk_sample p h framed) asked = Some (h, b)"
proof -
  have "unat (of_nat (length b) :: u32) = length b"
    using assms(5) by (simp add: unat_of_nat MAX_UNPACKED_def)
  moreover have "unpack C framed = Inr b"
    using pack_unpack [OF assms(1) assms(5) assms(7)] by (simp add: unpack_Inr)
  ultimately show ?thesis
    using pack_length [OF assms(7)] assms hash_from_str_display
    by (simp add: accept_batch_reply_def chunk_sample_def store_key_tail)
qed

text \<open>A query prefix with a wildcard origin matches no concrete reply key: its batches stay empty.\<close>

lemma segments_concrete:
  "prefix_segments_match p k \<Longrightarrow> \<forall>w \<in> set k. CHR ''*'' \<notin> set w \<Longrightarrow> length p \<le> length k \<Longrightarrow> take (length p) k = p"
proof (induction p k rule: prefix_segments_match.induct)
  case (1 want p got k)
  then show ?case by auto
qed auto

lemma wildcard_tail:
  assumes "has_wildcard q" "CHR ''*'' \<notin> set key"
  shows "parse_tier2_tail q key = None"
proof (rule ccontr)
  let ?p = "split_on (CHR ''/'') q" and ?k = "split_on (CHR ''/'') key"
  assume "parse_tier2_tail q key \<noteq> None"
  then have m: "length ?p \<le> length ?k" "prefix_segments_match ?p ?k"
    by (auto simp: parse_tier2_tail_def Let_def split: if_splits)
  have k: "\<forall>w \<in> set ?k. CHR ''*'' \<notin> set w"
    using assms(2) in_split_on_iff[of "CHR ''*''" "CHR ''/''" key] by simp
  from segments_concrete [OF m(2) k m(1)] have "set ?p \<subseteq> set ?k" by (metis set_take_subset)
  with k assms(1) show False by (auto simp: has_wildcard_def)
qed

lemma store_key_no_star: "\<not> has_wildcard p \<Longrightarrow> CHR ''*'' \<notin> set (store_key p Blake3 h)"
  using hash_display_chars[of h] by (auto simp: store_key_def has_wildcard_iff)

lemma wildcard_drops:
  assumes "has_wildcard q" "\<not> has_wildcard p"
  shows "accept_batch_reply C q (chunk_sample p h framed) asked = None"
  using wildcard_tail [OF assms(1) store_key_no_star [OF assms(2)]]
  by (simp add: accept_batch_reply_def chunk_sample_def)

section \<open>A batched round\<close>

definition frame_of :: "crates \<Rightarrow> tree_config \<Rightarrow> bytes \<Rightarrow> bytes" where
  "frame_of C cfg b = (case pack C b (tv_compression cfg) of Inr f \<Rightarrow> f | Inl _ \<Rightarrow> [])"

definition held_chunks :: "(hash \<Rightarrow> bytes option) \<Rightarrow> hash list \<Rightarrow> (hash \<times> bytes) list" where
  "held_chunks m hs = List.map_filter (\<lambda>h. map_option (Pair h) (m h)) hs"

lemma held_chunks_simps [simp]:
  "held_chunks m [] = []"
  "held_chunks m (h # hs) = (case m h of Some b \<Rightarrow> (h, b) # held_chunks m hs | None \<Rightarrow> held_chunks m hs)"
  by (simp_all add: held_chunks_def split: option.splits)

lemma held_chunks_set: "(h, b) \<in> set (held_chunks m hs) \<longleftrightarrow> h \<in> set hs \<and> m h = Some b"
  by (induction hs) (auto split: option.splits)

lemma stream_replies_open:
  "length out + length held \<le> tq_open q \<Longrightarrow>
   stream_replies q held out
     = out @ map (\<lambda>(k, b). Inr \<lparr>sm_encoding = ENC_CHUNK, sm_key = k, sm_payload = b\<rparr>) held"
  by (induction held arbitrary: out) (auto simp: send_def)

lemma drain_round_honest:
  assumes "\<forall>(h, b) \<in> set hbs. accept_reply C p asked (f h b) = Some (h, b)"
    and "distinct (map fst hbs)" "set seen \<inter> fst ` set hbs = {}"
  shows "drain_round C p asked seen out (map (\<lambda>(h, b). f h b) hbs) = out @ hbs"
  using assms
proof (induction hbs arbitrary: seen out)
  case (Cons x hbs)
  obtain h b where "x = (h, b)" by (cases x)
  with Cons.prems Cons.IH [of "h # seen" "out @ [(h, b)]"] show ?case by auto
qed simp

text \<open>Whatever is in a round, only verified chunks that were asked for come out, each once.\<close>

lemma drain_round_verified:
  assumes "\<forall>x \<in> set out. Q x" "\<And>h b. asked h = Some (of_nat (length b)) \<Longrightarrow> cr_blake3 C b = h \<Longrightarrow> Q (h, b)"
  shows "\<forall>x \<in> set (drain_round C p asked seen out rs). Q x"
  using assms(1)
proof (induction rs arbitrary: seen out)
  case (Cons r rs)
  show ?case
  proof (cases "accept_reply C p asked r")
    case None
    then show ?thesis using Cons by simp
  next
    case (Some hb)
    obtain h b where hb: "hb = (h, b)" by (cases hb)
    then have "Q (h, b)" using assms(2) accept_reply_Some[of C p asked r h b] Some by blast
    then have "\<forall>x \<in> set (out @ [(h, b)]). Q x" using Cons.prems by simp
    note both = Cons.IH [OF Cons.prems, of seen] Cons.IH [OF this, of "h # seen"]
    then show ?thesis
      by (simp only: drain_round.simps Some hb option.case prod.case split: if_split) blast
  qed
qed simp

lemma expected_lens_fold:
  "fold (\<lambda>c m. m(cr_hash c \<mapsto> cr_len c)) cs m h = Some n \<Longrightarrow>
   (\<exists>c \<in> set cs. cr_hash c = h \<and> cr_len c = n) \<or> m h = Some n"
proof (induction cs arbitrary: m)
  case (Cons c cs)
  from Cons.IH [of "m(cr_hash c \<mapsto> cr_len c)"] Cons.prems show ?case by (auto split: if_splits)
qed simp

lemma expected_lens_Some: "expected_lens cs h = Some n \<Longrightarrow> \<exists>c \<in> set cs. cr_hash c = h \<and> cr_len c = n"
  using expected_lens_fold[of cs Map.empty h n] by (simp add: expected_lens_def)

lemma expected_lens_dom: "cr_hash ` set cs \<subseteq> dom (expected_lens cs)"
proof -
  have "dom (fold (\<lambda>c m. m(cr_hash c \<mapsto> cr_len c)) cs m) = dom m \<union> cr_hash ` set cs" for m :: "hash \<rightharpoonup> u32"
    by (induction cs arbitrary: m) auto
  then show ?thesis by (simp add: expected_lens_def)
qed

lemma map_filter_snd_enumerate: "map snd (filter (f \<circ> snd) (enumerate n hs)) = filter f hs"
  by (induction hs arbitrary: n) auto

lemma held_of_presence:
  assumes "length hs < 2 ^ 32"
  shows "held_of hs (have_bits_from_presence (map f hs)) = filter f hs"
proof -
  have "have_bits_is_set (have_bits_from_presence (map f hs)) (of_nat i) = f h" if "(i, h) \<in> set (enumerate 0 hs)" for i h
    using that have_bits_roundtrip(2)[of "map f hs" i] assms by (auto simp: in_set_enumerate_eq)
  then have "filter (\<lambda>(i, _). have_bits_is_set (have_bits_from_presence (map f hs)) (of_nat i)) (enumerate 0 hs)
      = filter (f \<circ> snd) (enumerate 0 hs)"
    by (intro filter_cong) auto
  then show ?thesis by (simp add: held_of_def map_filter_snd_enumerate)
qed

context content_store
begin

lemma pack_held_spec:
  assumes "inv s" "\<forall>h \<in> set hs. hash_wf h" "so_get S = get" "pack_held S C cfg hs s = (Inr held, s')"
  shows "s' = s \<and> held = map (\<lambda>(h, b). (store_key (tv_store_prefix cfg) Blake3 h, frame_of C cfg b)) (held_chunks (contents s) hs)
     \<and> (\<forall>(h, b) \<in> set (held_chunks (contents s) hs). pack C b (tv_compression cfg) = Inr (frame_of C cfg b))"
  using assms(2,4)
proof (induction hs arbitrary: held)
  case (Cons h hs)
  obtain x s1 where g: "get s h = (Inr x, s1)"
    using Cons.prems(2) assms(3) by (auto split: prod.splits sum.splits)
  with get_Inr [OF assms(1), of h x s1] Cons.prems(1) have x: "x = contents s h" "s1 = s" by auto
  show ?case
  proof (cases x)
    case None
    then show ?thesis using Cons g x assms(3) by auto
  next
    case (Some b)
    then obtain framed rest where p: "pack C b (tv_compression cfg) = Inr framed"
      "pack_held S C cfg hs s = (Inr rest, s')" "held = (store_key (tv_store_prefix cfg) Blake3 h, framed) # rest"
      using Cons.prems(2) g x assms(3) by (auto simp: then_io_Inr split: sum.splits)
    then have "framed = frame_of C cfg b" by (simp add: frame_of_def)
    with Cons.IH [OF _ p(2)] Cons.prems(1) p Some x show ?thesis by auto
  qed
qed simp

text \<open>
  A batch query against a holder returns exactly what the holder has of the chunks asked for, in
  the order they were asked.
\<close>

lemma batch_exchange:
  assumes "inv s" "so_get S = get" "zstd_ok C" "postcard_ok P"
    and p: "\<not> has_wildcard (tv_store_prefix cfg)"
    and wanted: "wanted \<noteq> []" "distinct (map cr_hash wanted)" "length wanted \<le> tv_max_want_list cfg"
      "\<forall>c \<in> set wanted. hash_wf (cr_hash c)"
    and held: "\<forall>c \<in> set wanted. \<forall>b. contents s (cr_hash c) = Some b \<longrightarrow>
      cr_blake3 C b = cr_hash c \<and> length b \<le> MAX_UNPACKED \<and> cr_len c = of_nat (length b)"
    and q: "pc_want P (want_list_new (map cr_hash wanted)) = Inr payload"
      "q = \<lparr>tq_key = store_batch_key (tv_store_prefix cfg) Blake3, tq_payload = Some payload,
           tq_accepts_any = True, tq_open = k\<rparr>" "length wanted \<le> k"
    and served: "serve_chunk_query S C P cfg q s = ((Inr (), replies), s')"
  shows "drain_round C (tv_store_prefix cfg) (expected_lens wanted) [] [] replies
     = held_chunks (contents s) (map cr_hash wanted)"
proof -
  let ?p = "tv_store_prefix cfg" and ?hs = "map cr_hash wanted"
  let ?held = "held_chunks (contents s) ?hs"
  have tail: "parse_tier2_tail ?p (tq_key q) = Some (Two ''blake3'' STORE_BATCH)"
    using parse_tier2_tail_two [OF reaches_refl [OF p], of "''blake3''" STORE_BATCH]
    by (simp add: q(2) store_batch_key_def STORE_BATCH_def)
  have "pc_get_want P payload = Inr (want_list_new ?hs)" using assms(4) q(1) by (simp add: postcard_ok_def)
  moreover have "want_list_validate (want_list_new ?hs) (tv_max_want_list cfg) = Inr ()"
    using wanted by (simp add: want_list_validate_Inr want_list_new_def)
  ultimately have wl: "want_list_of P cfg q = (Some (want_list_new ?hs), [])" by (simp add: want_list_of_def q(2))
  obtain framed where pk: "pack_held S C cfg ?hs s = (Inr framed, s')" and out: "replies = stream_replies q framed []"
    using served tail wl
    by (auto simp: serve_chunk_query_def serve_chunk_batch_def q(2) want_list_new_def
        split: prod.splits sum.splits)
  have wf: "\<forall>h \<in> set ?hs. hash_wf h" using wanted(4) by simp
  note ph = pack_held_spec [OF assms(1) wf assms(2) pk]
  have "length ?held \<le> length ?hs" by (induction wanted) (auto split: option.splits)
  then have "replies = map (\<lambda>(h, b). Inr (chunk_sample ?p h (frame_of C cfg b))) ?held"
    using ph q(2,3) by (simp add: out stream_replies_open chunk_sample_def case_prod_beta o_def)
  moreover have "accept_reply C ?p (expected_lens wanted) (Inr (chunk_sample ?p h (frame_of C cfg b))) = Some (h, b)"
    if "(h, b) \<in> set ?held" for h b
  proof -
    have h: "h \<in> set ?hs" "contents s h = Some b" using that by (simp_all add: held_chunks_set)
    then have "h \<in> dom (expected_lens wanted)" using expected_lens_dom[of wanted] by auto
    then obtain c where "c \<in> set wanted" "cr_hash c = h" "expected_lens wanted h = Some (cr_len c)"
      by (auto dest: expected_lens_Some)
    then have "cr_blake3 C b = h" "length b \<le> MAX_UNPACKED" "expected_lens wanted h = Some (of_nat (length b))"
      using held h(2) by auto
    moreover have "pack C b (tv_compression cfg) = Inr (frame_of C cfg b)" using ph that by auto
    ultimately show ?thesis
      using accept_honest [OF assms(3) p, of h b "expected_lens wanted"] wf h(1) by (auto simp: accept_reply_def)
  qed
  moreover have "distinct (map fst ?held)"
    using wanted(2) by (induction wanted) (auto simp: held_chunks_set image_iff split: option.splits)
  ultimately show ?thesis
    using drain_round_honest [of ?held C ?p "expected_lens wanted"
        "\<lambda>h b. Inr (chunk_sample ?p h (frame_of C cfg b))" "[]" "[]"] by auto
qed

text \<open>A probe tells for each hash of the question whether the holder has it.\<close>

lemma probe_exchange:
  assumes "inv s" "so_has S = has" "postcard_ok P"
    and p: "\<not> has_wildcard (tv_store_prefix cfg)"
    and hs: "length hs < 2 ^ 32" "\<forall>h \<in> set hs. hash_wf h" "want_list_validate (want_list_new hs) (tv_max_want_list cfg) = Inr ()"
    and q: "pc_want P (want_list_new hs) = Inr payload" "tq_key q = store_have_key (tv_store_prefix cfg) Blake3"
      "tq_payload q = Some payload"
    and served: "serve_chunk_query S C P cfg q s = ((Inr (), replies), s')"
  shows "\<exists>bits. probe_replies P (length hs) [] replies = [(store_have_key (tv_store_prefix cfg) Blake3, bits)]
     \<and> held_of hs bits = filter (\<lambda>h. contents s h \<noteq> None) hs"
proof -
  let ?p = "tv_store_prefix cfg" and ?ps = "map (\<lambda>h. contents s h \<noteq> None) hs"
  have tail: "parse_tier2_tail ?p (tq_key q) = Some (Two ''blake3'' STORE_HAVE)"
    using parse_tier2_tail_two [OF reaches_refl [OF p], of "''blake3''" STORE_HAVE]
    by (simp add: q(2) store_have_key_def STORE_HAVE_def)
  have "pc_get_want P payload = Inr (want_list_new hs)" using assms(3) q(1) by (simp add: postcard_ok_def)
  then have wl: "want_list_of P cfg q = (Some (want_list_new hs), [])" using hs(3) q(3) by (simp add: want_list_of_def)
  have "STORE_HAVE \<noteq> STORE_BATCH" by (simp add: STORE_HAVE_def STORE_BATCH_def)
  then obtain ps bp where ps: "store_has_many has s hs = Inr ps" and bp: "pc_bits P (have_bits_from_presence ps) = Inr bp"
    and sent: "send q \<lparr>sm_encoding = ENC_HAVEBITS, sm_key = store_have_key ?p Blake3, sm_payload = bp\<rparr> [] = (Inr (), replies)"
    using served tail wl
    by (auto simp: serve_chunk_query_def serve_chunk_probe_def want_list_new_def assms(2) split: sum.splits)
  have ps': "ps = ?ps" by (rule has_many_Inr [OF assms(1) hs(2) ps])
  have bits: "pc_get_bits P bp = Inr (have_bits_from_presence ?ps)"
    using assms(3) bp by (simp add: postcard_ok_def ps')
  have valid: "have_bits_validate (have_bits_from_presence ?ps) (length hs) = Inr ()"
    using have_bits_roundtrip(1)[of ?ps] hs(1) by simp
  have "probe_replies P (length hs) [] replies = [(store_have_key ?p Blake3, have_bits_from_presence ?ps)]"
    using sent bits valid by (auto simp: send_def split: if_splits)
  moreover have "held_of hs (have_bits_from_presence ?ps) = filter (\<lambda>h. contents s h \<noteq> None) hs"
    using hs(1) by (simp add: held_of_presence)
  ultimately show ?thesis by blast
qed

end

end
