(* ===== verification/Gc.thy ===== *)
theory Gc
  imports Trees_Props Manifests
begin

text \<open>
  Garbage collection (\<open>src/src/gc.rs\<close>): persistent tags as files of a directory, the registry of
  temp tags with its weak pointers, and the mark-and-sweep over any content store. The postcard
  encoding of a tag record is a parameter.
\<close>

section \<open>Persistent tags\<close>

record tag_record =
  tr_version :: u16
  tr_root :: hash
  tr_chunks :: "hash list"

record tag_codec =
  tg_enc :: "tag_record \<Rightarrow> bytes res"
  tg_dec :: "bytes \<Rightarrow> tag_record res"

text \<open>
  The tag directory: file names and contents, in the order the directory lists them. A fault
  stops the writing of the temporary file, the rename, the sync after it, a removal or a listing.
\<close>

datatype tag_op = WriteTag string | SyncTags | UnlinkTag string | ListTags

record snapshot_tags =
  st_files :: "(string \<times> (io_error + bytes)) list"
  st_fault :: "tag_op \<Rightarrow> io_error option"

definition tag_path :: "string \<Rightarrow> string res" where
  "tag_path name =
     (case validate_id name of Inl _ \<Rightarrow> Inl Usage | Inr _ \<Rightarrow> Inr (name @ ''.tag''))"

definition tag_set :: "tag_codec \<Rightarrow> string \<Rightarrow> tree_index \<Rightarrow> snapshot_tags \<Rightarrow> unit res \<times> snapshot_tags" where
  "tag_set K name index d =
     (case tag_path name of
        Inl e \<Rightarrow> (Inl e, d)
      | Inr path \<Rightarrow>
          (case tg_enc K \<lparr>tr_version = WIRE_VERSION, tr_root = ti_root_hash index,
                          tr_chunks = needed_chunks index\<rparr> of
             Inl e \<Rightarrow> (Inl e, d)
           | Inr payload \<Rightarrow>
               (case st_fault d (WriteTag path) of
                  Some e \<Rightarrow> (Inl (Io e), d)
                | None \<Rightarrow>
                    (let d' = d\<lparr>st_files := AList.update path (Inr payload) (st_files d)\<rparr> in
                     case st_fault d SyncTags of
                       Some e \<Rightarrow> (Inl (Io e), d')
                     | None \<Rightarrow> (Inr (), d')))))"

definition tag_get :: "tag_codec \<Rightarrow> string \<Rightarrow> snapshot_tags \<Rightarrow> tag_record option res" where
  "tag_get K name d =
     and_then (tag_path name) (\<lambda>path.
       case map_of (st_files d) path of
         None \<Rightarrow> Inr None
       | Some (Inr bs) \<Rightarrow> and_then (tg_dec K bs) (\<lambda>r. Inr (Some r))
       | Some (Inl e) \<Rightarrow> if e = IoNotFound then Inr None else Inl (Io e))"

definition tag_remove :: "string \<Rightarrow> snapshot_tags \<Rightarrow> bool res \<times> snapshot_tags" where
  "tag_remove name d =
     (case tag_path name of
        Inl e \<Rightarrow> (Inl e, d)
      | Inr path \<Rightarrow>
          (case st_fault d (UnlinkTag path) of
             Some e \<Rightarrow> if e = IoNotFound then (Inr False, d) else (Inl (Io e), d)
           | None \<Rightarrow>
               if map_of (st_files d) path = None then (Inr False, d)
               else (Inr True, d\<lparr>st_files := AList.delete path (st_files d)\<rparr>)))"

definition tag_list :: "snapshot_tags \<Rightarrow> io_error + string list" where
  "tag_list d =
     (case st_fault d ListTags of
        Some e \<Rightarrow> Inl e
      | None \<Rightarrow> Inr (sort (List.map_filter (strip_suffix ''.tag'') (map fst (st_files d)))))"

fun tags_live :: "tag_codec \<Rightarrow> snapshot_tags \<Rightarrow> hash set \<Rightarrow> string list \<Rightarrow> hash set res" where
  "tags_live K d live [] = Inr live"
| "tags_live K d live (name # names) =
     and_then (tag_get K name d) (\<lambda>r.
       tags_live K d (case r of Some rec \<Rightarrow> live \<union> set (tr_chunks rec) | None \<Rightarrow> live) names)"

definition tags_live_set :: "tag_codec \<Rightarrow> snapshot_tags \<Rightarrow> hash set res" where
  "tags_live_set K d = and_then (from_io (tag_list d)) (tags_live K d {})"

section \<open>Temp tags\<close>

text \<open>
  A \<open>TempTag\<close> owns its set, the registry holds weak pointers. A guard is a number; \<open>tt_alive\<close>
  maps the guards that still exist to their sets, so a weak pointer upgrades iff its guard is
  there.
\<close>

record temp_tags =
  tt_sets :: "nat list"
  tt_alive :: "nat \<rightharpoonup> hash list"
  tt_next :: nat

definition temp_new :: temp_tags where
  "temp_new = \<lparr>tt_sets = [], tt_alive = Map.empty, tt_next = 0\<rparr>"

definition temp_retain :: "temp_tags \<Rightarrow> temp_tags" where
  "temp_retain t = t\<lparr>tt_sets := filter (\<lambda>g. tt_alive t g \<noteq> None) (tt_sets t)\<rparr>"

definition temp_protect :: "hash list \<Rightarrow> temp_tags \<Rightarrow> nat \<times> temp_tags" where
  "temp_protect hs t =
     (let g = tt_next t; t' = temp_retain t in
      (g, t'\<lparr>tt_sets := tt_sets t' @ [g], tt_alive := (tt_alive t')(g \<mapsto> hs), tt_next := g + 1\<rparr>))"

definition temp_drop :: "nat \<Rightarrow> temp_tags \<Rightarrow> temp_tags" where
  "temp_drop g t = t\<lparr>tt_alive := (tt_alive t)(g := None)\<rparr>"

definition temp_live_set :: "temp_tags \<Rightarrow> hash set \<times> temp_tags" where
  "temp_live_set t =
     (let t' = temp_retain t in
      (fold (\<lambda>g live. case tt_alive t' g of Some hs \<Rightarrow> live \<union> set hs | None \<Rightarrow> live) (tt_sets t') {}, t'))"

section \<open>The sweep\<close>

record gc_stats =
  gs_kept :: u64
  gs_removed :: u64

fun sweep_loop ::
  "('s \<Rightarrow> hash \<Rightarrow> (io_error + bool) \<times> 's) \<Rightarrow> hash set \<Rightarrow> hash list \<Rightarrow> gc_stats \<Rightarrow> 's \<Rightarrow> gc_stats res \<times> 's" where
  "sweep_loop remove live [] stats s = (Inr stats, s)"
| "sweep_loop remove live (h # hs) stats s =
     (if h \<in> live then sweep_loop remove live hs (stats\<lparr>gs_kept := gs_kept stats + 1\<rparr>) s
      else case remove s h of
             (Inl e, s1) \<Rightarrow> (Inl (Io e), s1)
           | (Inr True, s1) \<Rightarrow> sweep_loop remove live hs (stats\<lparr>gs_removed := gs_removed stats + 1\<rparr>) s1
           | (Inr False, s1) \<Rightarrow> sweep_loop remove live hs stats s1)"

definition gc_live :: "tag_codec \<Rightarrow> snapshot_tags \<Rightarrow> temp_tags \<Rightarrow> tree_index list \<Rightarrow> hash set res" where
  "gc_live K d temps extra_roots =
     and_then (tags_live_set K d) (\<lambda>live.
       Inr (live \<union> fst (temp_live_set temps) \<union> (\<Union>t \<in> set extra_roots. set (needed_chunks t))))"

definition sweep ::
  "('s \<Rightarrow> hash \<Rightarrow> (io_error + bool) \<times> 's) \<Rightarrow> ('s \<Rightarrow> io_error + hash list) \<Rightarrow> tag_codec
   \<Rightarrow> snapshot_tags \<Rightarrow> temp_tags \<Rightarrow> tree_index list \<Rightarrow> 's \<Rightarrow> gc_stats res \<times> 's" where
  "sweep remove hashes K d temps extra_roots s =
     (case gc_live K d temps extra_roots of
        Inl e \<Rightarrow> (Inl e, s)
      | Inr live \<Rightarrow>
          (case hashes s of
             Inl e \<Rightarrow> (Inl (Io e), s)
           | Inr hs \<Rightarrow> sweep_loop remove live hs \<lparr>gs_kept = 0, gs_removed = 0\<rparr> s))"

section \<open>What tags keep\<close>

definition tag_codec_ok :: "tag_codec \<Rightarrow> bool" where
  "tag_codec_ok K \<longleftrightarrow> (\<forall>r bs. tg_enc K r = Inr bs \<longrightarrow> tg_dec K bs = Inr r)"

lemma tag_path_Inr: "tag_path name = Inr p \<longleftrightarrow> id_is_valid name \<and> p = name @ ''.tag''"
  by (auto simp: tag_path_def validate_id_def blob_id_new_def and_then_def)

text \<open>Reading back what was set, also when only the final directory sync failed; other tags stay.\<close>

lemma tag_set_get:
  assumes "tag_codec_ok K" "tag_set K name index d = (r, d')"
  shows "(if d' = d then True
          else tag_get K name d' = Inr (Some \<lparr>tr_version = WIRE_VERSION, tr_root = ti_root_hash index,
                                             tr_chunks = needed_chunks index\<rparr>))
     \<and> (is_ok r \<longrightarrow> tag_get K name d' = Inr (Some \<lparr>tr_version = WIRE_VERSION, tr_root = ti_root_hash index,
                                             tr_chunks = needed_chunks index\<rparr>))
     \<and> (other \<noteq> name \<longrightarrow> tag_get K other d' = tag_get K other d)"
proof (cases "tag_path name")
  case (Inr p)
  then have p: "id_is_valid name" "p = name @ ''.tag''" by (simp_all add: tag_path_Inr)
  have other: "tag_path other \<noteq> Inr p" if "other \<noteq> name" using that p by (auto simp: tag_path_Inr)
  show ?thesis
  proof (cases "tg_enc K \<lparr>tr_version = WIRE_VERSION, tr_root = ti_root_hash index,
                          tr_chunks = needed_chunks index\<rparr>")
    case (Inr payload)
    then have dec: "tg_dec K payload = Inr \<lparr>tr_version = WIRE_VERSION, tr_root = ti_root_hash index,
                          tr_chunks = needed_chunks index\<rparr>"
      using assms(1) by (simp add: tag_codec_ok_def)
    have read: "tag_get K name (d\<lparr>st_files := AList.update p (Inr payload) (st_files d)\<rparr>)
        = Inr (Some \<lparr>tr_version = WIRE_VERSION, tr_root = ti_root_hash index, tr_chunks = needed_chunks index\<rparr>)"
      using \<open>tag_path name = Inr p\<close> dec by (simp add: tag_get_def update_conv')
    have keep: "tag_get K other (d\<lparr>st_files := AList.update p (Inr payload) (st_files d)\<rparr>) = tag_get K other d"
      if "other \<noteq> name"
      using other [OF that] by (cases "tag_path other") (auto simp: tag_get_def update_conv')
    show ?thesis
      using assms(2) Inr \<open>tag_path name = Inr p\<close> read keep
      by (auto simp: tag_set_def Let_def split: option.splits)
  qed (use assms(2) \<open>tag_path name = Inr p\<close> in \<open>auto simp: tag_set_def\<close>)
qed (use assms(2) in \<open>auto simp: tag_set_def\<close>)

lemma tags_live_Inr:
  "tags_live K d live names = Inr out \<Longrightarrow>
   out = live \<union> (\<Union>n \<in> set names. case tag_get K n d of Inr (Some r) \<Rightarrow> set (tr_chunks r) | _ \<Rightarrow> {})
   \<and> (\<forall>n \<in> set names. is_ok (tag_get K n d))"
  by (induction names arbitrary: live) (fastforce simp: and_then_Inr split: option.splits)+

text \<open>Every tag that can be read is in the live set.\<close>

lemma tags_live_set_covers:
  assumes "tags_live_set K d = Inr live" "tag_get K name d = Inr (Some r)"
  shows "set (tr_chunks r) \<subseteq> live"
proof -
  obtain names where names: "tag_list d = Inr names" "tags_live K d {} names = Inr live"
    using assms(1) by (auto simp: tags_live_set_def and_then_Inr from_io_Inr)
  obtain p where p: "tag_path name = Inr p" "map_of (st_files d) p \<noteq> None"
    using assms(2) by (auto simp: tag_get_def and_then_Inr split: option.splits)
  then have "p = name @ ''.tag''" "p \<in> fst ` set (st_files d)"
    by (auto simp: tag_path_Inr map_of_eq_None_iff)
  then have "name \<in> set names"
    using names(1) strip_suffix_append[of "''.tag''" name]
    by (force simp: tag_list_def List.map_filter_def image_iff split: option.splits)
  then show ?thesis using tags_live_Inr [OF names(2)] assms(2) by fastforce
qed

section \<open>What temp tags keep\<close>

text \<open>Every guard that exists has its weak pointer in the registry.\<close>

definition temp_inv :: "temp_tags \<Rightarrow> bool" where
  "temp_inv t \<longleftrightarrow> dom (tt_alive t) \<subseteq> set (tt_sets t) \<and> (\<forall>g \<in> set (tt_sets t). g < tt_next t)"

inductive temp_reachable :: "temp_tags \<Rightarrow> bool" where
  temp_start: "temp_reachable temp_new"
| temp_protects: "temp_reachable t \<Longrightarrow> temp_reachable (snd (temp_protect hs t))"
| temp_drops: "temp_reachable t \<Longrightarrow> temp_reachable (temp_drop g t)"
| temp_lists: "temp_reachable t \<Longrightarrow> temp_reachable (snd (temp_live_set t))"

lemma temp_retain_inv: "temp_inv t \<Longrightarrow> temp_inv (temp_retain t)"
  by (auto simp: temp_inv_def temp_retain_def)

lemma temp_reachable_inv: "temp_reachable t \<Longrightarrow> temp_inv t"
proof (induction rule: temp_reachable.induct)
  case (temp_protects t hs)
  then show ?case using temp_retain_inv [OF temp_protects.IH]
    by (fastforce simp: temp_inv_def temp_protect_def temp_retain_def Let_def split: if_splits)
next
  case (temp_lists t)
  then show ?case by (simp add: temp_live_set_def Let_def temp_retain_inv)
qed (auto simp: temp_inv_def temp_new_def temp_drop_def split: if_splits)

lemma fold_union_guards:
  "fold (\<lambda>g live. case m g of Some hs \<Rightarrow> live \<union> set hs | None \<Rightarrow> live) gs acc
     = acc \<union> (\<Union>g \<in> set gs. case m g of Some hs \<Rightarrow> set hs | None \<Rightarrow> {})"
  by (induction gs arbitrary: acc) (auto split: option.splits)

lemma temp_live_set_covers:
  assumes "temp_inv t" "tt_alive t g = Some hs"
  shows "set hs \<subseteq> fst (temp_live_set t)"
proof -
  have "g \<in> set (tt_sets (temp_retain t))" "tt_alive (temp_retain t) g = Some hs"
    using assms by (auto simp: temp_inv_def temp_retain_def)
  then show ?thesis by (force simp: temp_live_set_def Let_def fold_union_guards)
qed

lemma temp_live_set_only:
  "h \<in> fst (temp_live_set t) \<Longrightarrow> \<exists>g hs. tt_alive t g = Some hs \<and> h \<in> set hs"
  by (auto simp: temp_live_set_def Let_def fold_union_guards temp_retain_def split: option.splits)

section \<open>The sweep against the contract of a store\<close>

context content_store
begin

lemma sweep_loop_contents:
  assumes "inv s" "\<forall>h \<in> set hs. hash_wf h" "sweep_loop remove live hs stats s = (r, s')"
  shows "inv s' \<and> (\<forall>h. h \<in> live \<or> h \<notin> set hs \<longrightarrow> contents s' h = contents s h)
     \<and> (\<forall>h. contents s' h = contents s h \<or> contents s' h = None)
     \<and> (is_ok r \<longrightarrow> (\<forall>h \<in> set hs - live. contents s' h = None))"
  using assms
proof (induction hs arbitrary: stats s)
  case (Cons h hs)
  show ?case
  proof (cases "h \<in> live")
    case True
    with Cons.prems Cons.IH [of s "stats\<lparr>gs_kept := gs_kept stats + 1\<rparr>"] show ?thesis by auto
  next
    case False
    obtain x s1 where rm: "remove s h = (x, s1)" by (meson surj_pair)
    show ?thesis
    proof (cases x)
      case (Inl e)
      then show ?thesis using Cons.prems False rm remove_Inl [of s h e s1] by auto
    next
      case (Inr b)
      with Cons.prems rm have s1: "inv s1" "contents s1 = (contents s)(h := None)"
        using remove_Inr [of s h b s1] by auto
      obtain stats' where "sweep_loop remove live hs stats' s1 = (r, s')"
        using Cons.prems(3) False rm Inr by (cases b) auto
      from Cons.IH [OF s1(1) _ this] Cons.prems(2)
      have "inv s'" "\<forall>g. g \<in> live \<or> g \<notin> set hs \<longrightarrow> contents s' g = contents s1 g"
        "\<forall>g. contents s' g = contents s1 g \<or> contents s' g = None"
        "is_ok r \<longrightarrow> (\<forall>g \<in> set hs - live. contents s' g = None)" by auto
      then show ?thesis using s1(2) False by (auto split: if_splits) (metis option.distinct(1))+
    qed
  qed
qed auto

text \<open>After a sweep exactly the live chunks are left; a sweep that stops half-way loses no live one.\<close>

lemma sweep_contents:
  assumes "inv s" "gc_live K d temps roots = Inr live"
    and "sweep remove hashes K d temps roots s = (r, s')"
  shows "inv s' \<and> (\<forall>h \<in> live. contents s' h = contents s h) \<and> (is_ok r \<longrightarrow> contents s' = contents s |` live)"
proof (cases "hashes s")
  case (Inl e)
  then show ?thesis using assms by (auto simp: sweep_def)
next
  case (Inr hs)
  then have hs: "dom (contents s) \<subseteq> set hs" "\<forall>h \<in> set hs. hash_wf h" using hashes_Inr [OF assms(1)] by auto
  have loop: "sweep_loop remove live hs \<lparr>gs_kept = 0, gs_removed = 0\<rparr> s = (r, s')"
    using assms(2,3) Inr by (simp add: sweep_def)
  note c = sweep_loop_contents [OF assms(1) hs(2) loop]
  have "contents s' h = (contents s |` live) h" if "is_ok r" for h
    using c that hs(1) by (cases "h \<in> set hs") (auto simp: restrict_map_def)
  then show ?thesis using c by auto
qed

end

lemma sweep_loop_kept:
  "sweep_loop remove live hs stats s = (Inr stats', s') \<Longrightarrow>
   gs_kept stats' = gs_kept stats + of_nat (length (filter (\<lambda>h. h \<in> live) hs))"
  by (induction remove live hs stats s rule: sweep_loop.induct)
     (auto split: sum.splits prod.splits bool.splits if_splits)

lemma gc_live_covers:
  assumes "gc_live K d temps roots = Inr live" "temp_inv temps"
  shows "tag_get K name d = Inr (Some rec) \<Longrightarrow> set (tr_chunks rec) \<subseteq> live"
    and "tt_alive temps g = Some hs \<Longrightarrow> set hs \<subseteq> live"
    and "t \<in> set roots \<Longrightarrow> set (needed_chunks t) \<subseteq> live"
  using assms tags_live_set_covers[of K d _ name rec] temp_live_set_covers[of temps g hs]
  by (auto simp: gc_live_def and_then_Inr)

end
