(* ===== verification/Tree_Client.thy ===== *)
theory Tree_Client
  imports Store_Exchange Gc
begin

text \<open>
  The tree client (\<open>src/src/tree.rs\<close>, \<open>TreeClient\<close>): fetching and assembling an index, probing a
  snapshot, and \<open>fetch_missing\<close> with its batched rounds and its pool of single fetches. Queries
  are numbered; \<open>polls\<close> gives what each look at the cancellation token sees.
\<close>

record tree_client =
  yc_store_prefix :: query_prefix
  yc_tree_prefix :: query_prefix
  yc_fetch_concurrency :: nat
  yc_max_index_bytes :: nat
  yc_max_tree_bytes :: u64
  yc_max_tree_chunks :: u32
  yc_batch_size :: nat

definition yc_set_batch_size :: "nat \<Rightarrow> tree_client \<Rightarrow> tree_client" where
  "yc_set_batch_size n c = c\<lparr>yc_batch_size := min n MAX_WANT_LIST\<rparr>"

definition yc_set_fetch_concurrency :: "nat \<Rightarrow> tree_client \<Rightarrow> tree_client" where
  "yc_set_fetch_concurrency n c = c\<lparr>yc_fetch_concurrency := max n 1\<rparr>"

section \<open>Indices\<close>

text \<open>\<open>got.entry(h).or_insert(bytes)\<close> over the accepted replies of a round.\<close>

definition keep_first :: "(hash \<times> bytes) option \<Rightarrow> (hash \<rightharpoonup> bytes) \<Rightarrow> hash \<rightharpoonup> bytes" where
  "keep_first x got = (case x of None \<Rightarrow> got | Some (h, b) \<Rightarrow> if got h = None then got(h \<mapsto> b) else got)"

fun gather_pieces ::
  "store_net \<Rightarrow> nat \<Rightarrow> tree_client \<Rightarrow> (hash \<rightharpoonup> bytes) \<Rightarrow> chunk_ref list list \<Rightarrow> (hash \<rightharpoonup> bytes) res \<times> nat" where
  "gather_pieces N n c got [] = (Inr got, n)"
| "gather_pieces N n c got (g # gs) =
     (case batch_query N n (yc_store_prefix c) g of
        Inl e \<Rightarrow> (Inl e, Suc n)
      | Inr (rs, asked) \<Rightarrow>
          gather_pieces N (Suc n) c
            (fold (\<lambda>r. keep_first (accept_reply (sn_crates N) (yc_store_prefix c) asked r)) rs got) gs)"

fun join_pieces ::
  "store_net \<Rightarrow> nat \<Rightarrow> tree_client \<Rightarrow> (hash \<rightharpoonup> bytes) \<Rightarrow> bytes \<Rightarrow> chunk_ref list \<Rightarrow> bytes res \<times> nat" where
  "join_pieces N n c got out [] = (Inr out, n)"
| "join_pieces N n c got out (r # rs) =
     (case got (cr_hash r) of
        Some b \<Rightarrow> join_pieces N n c (got(cr_hash r := None)) (out @ b) rs
      | None \<Rightarrow>
          (case fetch_one_chunk N n (store_key (yc_store_prefix c) Blake3 (cr_hash r)) (cr_hash r)
                  (Some (cr_len r)) MAX_UNPACKED of
             Inl e \<Rightarrow> (Inl e, Suc n)
           | Inr (b, _) \<Rightarrow> join_pieces N (Suc n) c got (out @ b) rs))"

definition assemble_sharded_index :: "store_net \<Rightarrow> nat \<Rightarrow> tree_client \<Rightarrow> sample \<Rightarrow> bytes res \<times> nat" where
  "assemble_sharded_index N n c s =
     (case and_then (pc_get_desc (sn_postcard N) (sm_payload s)) (\<lambda>desc.
             and_then (index_descriptor_validate desc (yc_max_index_bytes c)) (\<lambda>_. Inr desc)) of
        Inl e \<Rightarrow> (Inl e, n)
      | Inr desc \<Rightarrow>
          (case gather_pieces N n c Map.empty (pieces_of (max (yc_batch_size c) 1) (id_index_chunks desc)) of
             (Inl e, m) \<Rightarrow> (Inl e, m)
           | (Inr got, m) \<Rightarrow> join_pieces N m c got [] (id_index_chunks desc)))"

definition index_verdict :: "store_net \<Rightarrow> tree_client \<Rightarrow> string \<Rightarrow> hash option \<Rightarrow> bytes \<Rightarrow> tree_index res" where
  "index_verdict N c bid expected_root payload =
     (if length payload > yc_max_index_bytes c then Inl InvalidManifest
      else and_then (pc_get_index (sn_postcard N) payload) (\<lambda>index.
           and_then (tree_validate (pc_identity (sn_postcard N)) (cr_blake3 (sn_crates N)) index) (\<lambda>_.
             if ti_id index \<noteq> bid then Inl MalformedMessage
             else case expected_root of
                    Some root \<Rightarrow> if ti_root_hash index \<noteq> root then Inl (RootMismatch root (ti_root_hash index))
                                 else Inr index
                  | None \<Rightarrow> Inr index)))"

text \<open>The payload a reply stands for; \<open>None\<close> for a reply that is neither kind of index.\<close>

definition index_payload :: "store_net \<Rightarrow> nat \<Rightarrow> tree_client \<Rightarrow> sample \<Rightarrow> bytes res option \<times> nat" where
  "index_payload N n c s =
     (if sm_encoding s = ENC_INDEX_DESC
      then (case assemble_sharded_index N n c s of (r, m) \<Rightarrow> (Some r, m))
      else if sm_encoding s = ENC_INDEX then (Some (Inr (sm_payload s)), n)
      else (None, n))"

definition or_first :: "blob_error option \<Rightarrow> blob_error \<Rightarrow> blob_error option" where
  "or_first rejected e = (case rejected of Some x \<Rightarrow> Some x | None \<Rightarrow> Some e)"

fun index_replies ::
  "store_net \<Rightarrow> nat \<Rightarrow> tree_client \<Rightarrow> string \<Rightarrow> hash option \<Rightarrow> blob_error option \<Rightarrow> reply list \<Rightarrow> tree_index res \<times> nat" where
  "index_replies N n c bid root rejected [] =
     (Inl (case rejected of Some e \<Rightarrow> e | None \<Rightarrow> NotFound), n)"
| "index_replies N n c bid root rejected (Inl _ # rs) = index_replies N n c bid root rejected rs"
| "index_replies N n c bid root rejected (Inr s # rs) =
     (case index_payload N n c s of
        (None, m) \<Rightarrow> index_replies N m c bid root rejected rs
      | (Some (Inl e), m) \<Rightarrow> index_replies N m c bid root (or_first rejected e) rs
      | (Some (Inr payload), m) \<Rightarrow>
          (case index_verdict N c bid root payload of
             Inr index \<Rightarrow> (Inr index, m)
           | Inl e \<Rightarrow> index_replies N m c bid root (or_first rejected e) rs))"

definition fetch_index_matching ::
  "store_net \<Rightarrow> nat \<Rightarrow> tree_client \<Rightarrow> string \<Rightarrow> hash option \<Rightarrow> tree_index res \<times> nat" where
  "fetch_index_matching N n c bid root =
     (case blob_id_new bid of
        Inl e \<Rightarrow> (Inl e, n)
      | Inr i \<Rightarrow>
          (case sn_get N n (tree_key (yc_tree_prefix c) i) None of
             Inl _ \<Rightarrow> (Inl Zenoh, Suc n)
           | Inr rs \<Rightarrow> index_replies N (Suc n) c i root None rs))"

definition fetch_index :: "store_net \<Rightarrow> nat \<Rightarrow> tree_client \<Rightarrow> string \<Rightarrow> tree_index res \<times> nat" where
  "fetch_index N n c bid = fetch_index_matching N n c bid None"

definition fetch_index_by_root :: "store_net \<Rightarrow> nat \<Rightarrow> tree_client \<Rightarrow> hash \<Rightarrow> tree_index res \<times> nat" where
  "fetch_index_by_root N n c root = fetch_index_matching N n c (hash_display root) (Some root)"

section \<open>Probing a snapshot\<close>

definition snapshot_origin :: "(string \<Rightarrow> bool) \<Rightarrow> string \<Rightarrow> string \<Rightarrow> query_prefix option" where
  "snapshot_origin valid_ke bid key =
     Option.bind (strip_suffix STORE_HAVE key) (\<lambda>k.
     Option.bind (strip_suffix ''/'' k) (\<lambda>k.
     Option.bind (strip_suffix bid k) (\<lambda>k.
     Option.bind (strip_suffix ''/'' k) (\<lambda>k.
       case query_prefix_new valid_ke k of Inr p \<Rightarrow> Some p | Inl _ \<Rightarrow> None))))"

definition snapshot_answer :: "store_net \<Rightarrow> string \<Rightarrow> reply \<Rightarrow> (query_prefix \<times> tree_probe) option" where
  "snapshot_answer N bid r =
     (case r of
        Inl _ \<Rightarrow> None
      | Inr s \<Rightarrow>
          if sm_encoding s \<noteq> ENC_TREEPROBE then None
          else (case pc_get_probe (sn_postcard N) (sm_payload s) of
                  Inl _ \<Rightarrow> None
                | Inr p \<Rightarrow>
                    if \<not> is_ok (tree_probe_validate p) then None
                    else map_option (\<lambda>o'. (o', p)) (snapshot_origin (sn_valid_ke N) bid (sm_key s))))"

definition note_origin ::
  "(query_prefix \<times> tree_probe) option \<Rightarrow> (query_prefix \<times> tree_probe) list \<Rightarrow> (query_prefix \<times> tree_probe) list" where
  "note_origin x out =
     (case x of None \<Rightarrow> out | Some (o', p) \<Rightarrow> if o' \<in> fst ` set out then out else out @ [(o', p)])"

definition probe_snapshot ::
  "store_net \<Rightarrow> nat \<Rightarrow> tree_client \<Rightarrow> string \<Rightarrow> (query_prefix \<times> tree_probe) list res" where
  "probe_snapshot N n c bid =
     and_then (blob_id_new bid) (\<lambda>i.
       case sn_get N n (tree_have_key (yc_tree_prefix c) i) None of
         Inl _ \<Rightarrow> Inl Zenoh
       | Inr rs \<Rightarrow> Inr (fold (\<lambda>r. note_origin (snapshot_answer N i r)) rs []))"

section \<open>Fetching what is missing\<close>

text \<open>The state of one \<open>fetch_missing\<close>: its counters, the store, and how far it got with the inputs.\<close>

record 's fetch_state =
  fm_store :: 's
  fm_received :: u32
  fm_bytes :: u64
  fm_stats :: transfer_stats
  fm_progress :: "progress list"
  fm_query :: nat
  fm_poll :: nat

definition fm_start :: "nat \<Rightarrow> 's \<Rightarrow> 's fetch_state" where
  "fm_start n s = \<lparr>fm_store = s, fm_received = 0, fm_bytes = 0, fm_stats = stats_default, fm_progress = [],
     fm_query = n, fm_poll = 0\<rparr>"

definition count_resumed :: "u32 \<Rightarrow> nat \<Rightarrow> 's fetch_state \<Rightarrow> 's fetch_state" where
  "count_resumed tot i f =
     (let r = fm_received f + 1 in
      f\<lparr>fm_received := r, fm_stats := (fm_stats f)\<lparr>ts_chunks_resumed := ts_chunks_resumed (fm_stats f) + 1\<rparr>,
        fm_progress := fm_progress f @ [ChunkDone (of_nat i) r tot (fm_bytes f)]\<rparr>)"

definition count_fetched :: "u32 \<Rightarrow> u32 \<Rightarrow> u64 \<Rightarrow> u32 \<Rightarrow> 's fetch_state \<Rightarrow> 's fetch_state" where
  "count_fetched tot i len rejected f =
     (let r = fm_received f + 1; b = fm_bytes f + len; st = fm_stats f in
      f\<lparr>fm_received := r, fm_bytes := b,
        fm_stats := st\<lparr>ts_chunks_fetched := ts_chunks_fetched st + 1, ts_bytes_fetched := ts_bytes_fetched st + len,
                       ts_rejected := ts_rejected st + rejected\<rparr>,
        fm_progress := fm_progress f @ [ChunkDone i r tot b]\<rparr>)"

definition count_query :: "'s fetch_state \<Rightarrow> 's fetch_state" where
  "count_query f = f\<lparr>fm_query := Suc (fm_query f),
     fm_stats := (fm_stats f)\<lparr>ts_queries := ts_queries (fm_stats f) + 1\<rparr>\<rparr>"

definition poll_cancel :: "(nat \<Rightarrow> bool) \<Rightarrow> 's fetch_state \<Rightarrow> bool \<times> 's fetch_state" where
  "poll_cancel polls f = (polls (fm_poll f), f\<lparr>fm_poll := Suc (fm_poll f)\<rparr>)"

definition cancel_with :: "u32 \<Rightarrow> 's fetch_state \<Rightarrow> 'a res \<times> 's fetch_state" where
  "cancel_with tot f =
     (Inl (Cancelled (fm_received f) tot),
      f\<lparr>fm_progress := fm_progress f @ [CancelledAt (fm_received f) tot]\<rparr>)"

fun split_missing ::
  "u32 \<Rightarrow> (nat \<times> chunk_ref \<times> bool) list \<Rightarrow> 's fetch_state \<Rightarrow> (nat \<times> chunk_ref) list \<times> 's fetch_state" where
  "split_missing tot [] f = ([], f)"
| "split_missing tot ((i, c, present) # xs) f =
     (if present then split_missing tot xs (count_resumed tot i f)
      else (case split_missing tot xs f of (missing, f') \<Rightarrow> ((i, c) # missing, f')))"

definition FLUSH :: nat where "FLUSH = 32"

definition group_index :: "(nat \<times> chunk_ref) list \<Rightarrow> hash \<Rightarrow> u32" where
  "group_index grp h =
     (case find (\<lambda>(_, c). cr_hash c = h) grp of Some (i, _) \<Rightarrow> of_nat i | None \<Rightarrow> 0)"

definition flush_pending ::
  "'s store_ops \<Rightarrow> u32 \<Rightarrow> (nat \<times> chunk_ref) list \<Rightarrow> (hash \<times> bytes) list \<Rightarrow> 's fetch_state \<Rightarrow> unit res \<times> 's fetch_state" where
  "flush_pending S tot grp pending f =
     (case store_put_many (so_put S) (fm_store f) pending of
        (Inl e, s) \<Rightarrow> (Inl (Io e), f\<lparr>fm_store := s\<rparr>)
      | (Inr _, s) \<Rightarrow>
          (Inr (), fold (\<lambda>(h, b). count_fetched tot (group_index grp h) (of_nat (length b)) 0) pending
                     (f\<lparr>fm_store := s\<rparr>)))"

text \<open>
  Draining one round: a poll before every reply; the pending chunks go to the store when there
  are \<open>FLUSH\<close> of them and at the end. Returns the hashes that arrived and whether it was cancelled.
\<close>

fun drain_stream ::
  "'s store_ops \<Rightarrow> crates \<Rightarrow> string \<Rightarrow> (nat \<Rightarrow> bool) \<Rightarrow> u32 \<Rightarrow> (nat \<times> chunk_ref) list \<Rightarrow> (hash \<rightharpoonup> u32)
   \<Rightarrow> (hash \<times> bytes) list \<Rightarrow> hash list \<Rightarrow> reply list \<Rightarrow> 's fetch_state \<Rightarrow> (hash list \<times> bool) res \<times> 's fetch_state" where
  "drain_stream S C prefix polls tot grp asked pending arrived [] f =
     (case poll_cancel polls f of (cancelled, f1) \<Rightarrow>
        if pending = [] then (Inr (arrived, cancelled), f1)
        else then_io (flush_pending S tot grp pending f1) (\<lambda>_ f2. (Inr (arrived, cancelled), f2)))"
| "drain_stream S C prefix polls tot grp asked pending arrived (r # rs) f =
     (case poll_cancel polls f of (cancelled, f1) \<Rightarrow>
        if cancelled
        then (if pending = [] then (Inr (arrived, True), f1)
              else then_io (flush_pending S tot grp pending f1) (\<lambda>_ f2. (Inr (arrived, True), f2)))
        else (let (pending', arrived') =
                (case accept_reply C prefix asked r of
                   Some (h, b) \<Rightarrow> if h \<in> set arrived then (pending, arrived) else (pending @ [(h, b)], h # arrived)
                 | None \<Rightarrow> (pending, arrived))
              in if length pending' \<ge> FLUSH
                 then then_io (flush_pending S tot grp pending' f1) (\<lambda>_ f2.
                        drain_stream S C prefix polls tot grp asked [] arrived' rs f2)
                 else drain_stream S C prefix polls tot grp asked pending' arrived' rs f1))"

fun batch_rounds ::
  "'s store_ops \<Rightarrow> store_net \<Rightarrow> tree_client \<Rightarrow> (nat \<Rightarrow> bool) \<Rightarrow> u32 \<Rightarrow> (nat \<times> chunk_ref) list list
   \<Rightarrow> (nat \<times> chunk_ref) list \<Rightarrow> 's fetch_state \<Rightarrow> (nat \<times> chunk_ref) list res \<times> 's fetch_state" where
  "batch_rounds S N c polls tot [] unanswered f = (Inr unanswered, f)"
| "batch_rounds S N c polls tot (g # gs) unanswered f =
     (case poll_cancel polls f of (cancelled, f1) \<Rightarrow>
        if cancelled then cancel_with tot f1
        else (let f2 = count_query f1 in
          case batch_query N (fm_query f1) (yc_store_prefix c) (map snd g) of
            Inl e \<Rightarrow> (Inl e, f2)
          | Inr (rs, asked) \<Rightarrow>
              then_io (drain_stream S (sn_crates N) (yc_store_prefix c) polls tot g asked [] [] rs f2)
                (\<lambda>(arrived, stopped) f3.
                   if stopped then cancel_with tot f3
                   else batch_rounds S N c polls tot gs
                          (unanswered @ filter (\<lambda>(_, r). cr_hash r \<notin> set arrived) g) f3)))"

text \<open>
  The pool of single fetches. A task of the pool runs to its end at an event \<open>Run k\<close>, the loop
  takes a finished one at \<open>Join k\<close>, and \<open>Tick\<close> is the 200 ms timeout; an event that names no task
  does nothing but let the time pass. Aborting the pool drops the tasks that have not run.
\<close>

datatype pool_event = Run nat | Join nat | Tick

record 's pool =
  pl_todo :: "(nat \<times> chunk_ref) list"
  pl_running :: "(nat \<times> chunk_ref \<times> nat) list"
  pl_ready :: "(nat \<times> u64 \<times> u32) res list"
  pl_fetch :: "'s fetch_state"

definition fill_pool :: "nat \<Rightarrow> 's pool \<Rightarrow> 's pool" where
  "fill_pool conc p =
     (let free = conc - (length (pl_running p) + length (pl_ready p));
          started = take free (pl_todo p);
          q = fm_query (pl_fetch p)
      in \<lparr>pl_todo = drop free (pl_todo p),
          pl_running = pl_running p @ map (\<lambda>(k, i, r). (i, r, q + k)) (enumerate 0 started),
          pl_ready = pl_ready p,
          pl_fetch = (count_query ^^ length started) (pl_fetch p)\<rparr>)"

definition run_task ::
  "'s store_ops \<Rightarrow> store_net \<Rightarrow> tree_client \<Rightarrow> nat \<times> chunk_ref \<times> nat \<Rightarrow> 's \<Rightarrow> (nat \<times> u64 \<times> u32) res \<times> 's" where
  "run_task S N c task s =
     (case task of (i, r, q) \<Rightarrow>
        case fetch_one_chunk N q (store_key (yc_store_prefix c) Blake3 (cr_hash r)) (cr_hash r)
               (Some (cr_len r)) MAX_UNPACKED of
          Inl e \<Rightarrow> (Inl e, s)
        | Inr (b, rejected) \<Rightarrow>
            (case so_put S s (cr_hash r) b of
               (Inl e, s') \<Rightarrow> (Inl (Io e), s')
             | (Inr _, s') \<Rightarrow> (Inr (i, of_nat (length b), rejected), s')))"

definition pool_run :: "'s store_ops \<Rightarrow> store_net \<Rightarrow> tree_client \<Rightarrow> nat \<Rightarrow> 's pool \<Rightarrow> 's pool" where
  "pool_run S N c k p =
     (if k < length (pl_running p)
      then (case run_task S N c (pl_running p ! k) (fm_store (pl_fetch p)) of
              (r, s) \<Rightarrow> p\<lparr>pl_running := take k (pl_running p) @ drop (Suc k) (pl_running p),
                           pl_ready := pl_ready p @ [r], pl_fetch := (pl_fetch p)\<lparr>fm_store := s\<rparr>\<rparr>)
      else p)"

text \<open>
  One wait of the loop consumes events up to a \<open>Join\<close> or a \<open>Tick\<close>; between waits the loop fills
  the pool, ends when it is empty, and polls. \<open>None\<close>: the events ran out before the loop ended.
\<close>

function pool_loop ::
  "'s store_ops \<Rightarrow> store_net \<Rightarrow> tree_client \<Rightarrow> (nat \<Rightarrow> bool) \<Rightarrow> u32 \<Rightarrow> bool \<Rightarrow> pool_event list \<Rightarrow> 's pool
   \<Rightarrow> (unit res \<times> 's fetch_state) option" where
  "pool_loop S N c polls tot False events p =
     (let p1 = fill_pool (yc_fetch_concurrency c) p in
      if pl_running p1 = [] \<and> pl_ready p1 = [] then Some (Inr (), pl_fetch p1)
      else case poll_cancel polls (pl_fetch p1) of (cancelled, f) \<Rightarrow>
        if cancelled then Some (cancel_with tot f)
        else pool_loop S N c polls tot True events (p1\<lparr>pl_fetch := f\<rparr>))"
| "pool_loop S N c polls tot True [] p = None"
| "pool_loop S N c polls tot True (Tick # es) p = pool_loop S N c polls tot False es p"
| "pool_loop S N c polls tot True (Run k # es) p = pool_loop S N c polls tot True es (pool_run S N c k p)"
| "pool_loop S N c polls tot True (Join k # es) p =
     (if k < length (pl_ready p)
      then (case pl_ready p ! k of
              Inl e \<Rightarrow> Some (Inl e, pl_fetch p)
            | Inr (i, len, rejected) \<Rightarrow>
                pool_loop S N c polls tot False es
                  (p\<lparr>pl_ready := take k (pl_ready p) @ drop (Suc k) (pl_ready p),
                     pl_fetch := count_fetched tot (of_nat i) len rejected (pl_fetch p)\<rparr>))
      else pool_loop S N c polls tot True es p)"
  by pat_completeness auto

termination pool_loop
  by (relation "measures [\<lambda>(S, N, c, polls, tot, w, events, p). length events,
                          \<lambda>(S, N, c, polls, tot, w, events, p). if w then 0 else 1]") auto

definition fetch_missing ::
  "'s store_ops \<Rightarrow> store_net \<Rightarrow> tree_client \<Rightarrow> (nat \<Rightarrow> bool) \<Rightarrow> pool_event list \<Rightarrow> nat \<Rightarrow> chunk_ref list \<Rightarrow> u32 \<Rightarrow> 's
   \<Rightarrow> (unit res \<times> 's fetch_state) option" where
  "fetch_missing S N c polls events n needed tot s =
     (case store_has_many (so_has S) s (map cr_hash needed) of
        Inl e \<Rightarrow> Some (Inl (Io e), fm_start n s)
      | Inr presence \<Rightarrow>
          (case split_missing tot (zip [0..<length needed] (zip needed presence)) (fm_start n s) of
             (missing, f) \<Rightarrow>
               (let rounds =
                  (if yc_batch_size c > 0 \<and> missing \<noteq> []
                   then then_io (batch_rounds S N c polls tot (pieces_of (yc_batch_size c) missing) [] f)
                          (\<lambda>rest f1. case poll_cancel polls f1 of (cancelled, f2) \<Rightarrow>
                             if cancelled then cancel_with tot f2 else (Inr rest, f2))
                   else (Inr missing, f))
                in case rounds of
                     (Inl e, f') \<Rightarrow> Some (Inl e, f')
                   | (Inr rest, f') \<Rightarrow>
                       pool_loop S N c polls tot False events
                         \<lparr>pl_todo = rest, pl_running = [], pl_ready = [], pl_fetch = f'\<rparr>)))"

section \<open>One file\<close>

fun assemble_file ::
  "'s store_ops \<Rightarrow> bytes \<Rightarrow> chunk_ref list \<Rightarrow> 's \<Rightarrow> bytes res \<times> 's" where
  "assemble_file S out [] s = (Inr out, s)"
| "assemble_file S out (r # rs) s =
     (case so_get S s (cr_hash r) of
        (Inl e, s1) \<Rightarrow> (Inl (Io e), s1)
      | (Inr None, s1) \<Rightarrow> (Inl (CorruptStore (cr_hash r)), s1)
      | (Inr (Some b), s1) \<Rightarrow>
          if of_nat (length b) \<noteq> cr_len r then (Inl (ChunkLengthMismatch (cr_len r) (of_nat (length b))), s1)
          else assemble_file S (out @ b) rs s1)"

definition fetch_file ::
  "'s store_ops \<Rightarrow> store_net \<Rightarrow> tree_client \<Rightarrow> pool_event list \<Rightarrow> nat \<Rightarrow> string \<Rightarrow> hash option \<Rightarrow> string \<Rightarrow> 's
   \<Rightarrow> (bytes res \<times> 's) option" where
  "fetch_file S N c events n bid root path s =
     (case fetch_index_matching N n c bid root of
        (Inl e, _) \<Rightarrow> Some (Inl e, s)
      | (Inr index, m) \<Rightarrow>
          (case file_chunks index path of
             None \<Rightarrow> Some (Inl NotFound, s)
           | Some chunks \<Rightarrow>
               if sum_lens chunks > yc_max_tree_bytes c then Some (Inl InvalidManifest, s)
               else (case fetch_missing S N c (\<lambda>_. False) events m chunks (of_nat (length chunks)) s of
                       None \<Rightarrow> None
                     | Some (Inl e, f) \<Rightarrow> Some (Inl e, fm_store f)
                     | Some (Inr _, f) \<Rightarrow> Some (assemble_file S [] chunks (fm_store f)))))"

end
