(* ===== verification/Materialize.thy ===== *)
theory Materialize
  imports Tree_Client "HOL-Library.Sublist"
begin

text \<open>
  Materializing a snapshot (\<open>src/src/tree.rs\<close>, \<open>reconstruct_tree\<close> and its helpers, and the
  confined file operations of \<open>src/src/paths.rs\<close>), over a model of the whole file system:
  directories, symlinks and hard links by absolute path, file contents by inode. Path resolution
  follows symlinks as the kernel does, with its limit of 40 links. The destination root is the
  canonical path of an existing directory, what \<open>create_dir_all\<close> and \<open>canonicalize\<close> give.
\<close>

section \<open>The file system\<close>

type_synonym abs_path = "string list"

datatype fnode = FDir u32 int | FFile nat | FLink string

record inode =
  in_data :: bytes
  in_mode :: u32
  in_mtime :: int

datatype fs_op = OpMkdir abs_path | OpUnlink abs_path | OpRmTree abs_path | OpOpen abs_path | OpWrite abs_path
  | OpLink abs_path

record fsys =
  fs_nodes :: "abs_path \<rightharpoonup> fnode"
  fs_inodes :: "nat \<Rightarrow> inode"
  fs_next :: nat
  fs_fault :: "fs_op \<Rightarrow> io_error option"
  fs_umask :: u32
  fs_now :: int

fun is_dir_node :: "fnode option \<Rightarrow> bool" where
  "is_dir_node (Some (FDir _ _)) = True"
| "is_dir_node _ = False"

definition MAX_LINKS :: nat where "MAX_LINKS = 40"

text \<open>Resolution from a directory; when creating, the last name need not exist.\<close>

function resolve ::
  "(abs_path \<rightharpoonup> fnode) \<Rightarrow> bool \<Rightarrow> nat \<Rightarrow> abs_path \<Rightarrow> component list \<Rightarrow> io_error + abs_path" where
  "resolve nd creating hops cur [] = Inr cur"
| "resolve nd creating hops cur (CurDir # cs) = resolve nd creating hops cur cs"
| "resolve nd creating hops cur (ParentDir # cs) = resolve nd creating hops (butlast cur) cs"
| "resolve nd creating hops cur (RootDir # cs) = resolve nd creating hops [] cs"
| "resolve nd creating hops cur (Normal c # cs) =
     (case nd (cur @ [c]) of
        None \<Rightarrow> if creating \<and> cs = [] then Inr (cur @ [c]) else Inl IoNotFound
      | Some (FDir _ _) \<Rightarrow> resolve nd creating hops (cur @ [c]) cs
      | Some (FFile _) \<Rightarrow> if cs = [] then Inr (cur @ [c]) else Inl IoOther
      | Some (FLink t) \<Rightarrow>
          if hops = 0 then Inl IoOther else resolve nd creating (hops - 1) cur (components t @ cs))"
  by pat_completeness auto

termination resolve
  by (relation "measures [\<lambda>(nd, cr, hops, cur, cs). hops, \<lambda>(nd, cr, hops, cur, cs). length cs]") auto

definition canonicalize :: "fsys \<Rightarrow> abs_path \<Rightarrow> io_error + abs_path" where
  "canonicalize fs p = resolve (fs_nodes fs) False MAX_LINKS [] (map Normal p)"

definition set_node :: "abs_path \<Rightarrow> fnode option \<Rightarrow> fsys \<Rightarrow> fsys" where
  "set_node p x fs = fs\<lparr>fs_nodes := (fs_nodes fs)(p := x)\<rparr>"

definition mkdir :: "fsys \<Rightarrow> abs_path \<Rightarrow> (io_error + unit) \<times> fsys" where
  "mkdir fs p =
     (case fs_fault fs (OpMkdir p) of
        Some e \<Rightarrow> (Inl e, fs)
      | None \<Rightarrow> (Inr (), set_node p (Some (FDir (0x1FF AND NOT (fs_umask fs)) (fs_now fs))) fs))"

text \<open>\<open>File::create\<close>: a new file, or an existing one emptied, also through a symlink.\<close>

definition open_create :: "fsys \<Rightarrow> abs_path \<Rightarrow> (io_error + nat) \<times> fsys" where
  "open_create fs p =
     (case fs_fault fs (OpOpen p) of
        Some e \<Rightarrow> (Inl e, fs)
      | None \<Rightarrow>
          (case resolve (fs_nodes fs) True MAX_LINKS [] (map Normal p) of
             Inl e \<Rightarrow> (Inl e, fs)
           | Inr q \<Rightarrow>
               (case fs_nodes fs q of
                  None \<Rightarrow>
                    (Inr (fs_next fs),
                     fs\<lparr>fs_nodes := (fs_nodes fs)(q \<mapsto> FFile (fs_next fs)),
                        fs_inodes := (fs_inodes fs)(fs_next fs :=
                          \<lparr>in_data = [], in_mode = 0x1B6 AND NOT (fs_umask fs), in_mtime = fs_now fs\<rparr>),
                        fs_next := Suc (fs_next fs)\<rparr>)
                | Some (FFile i) \<Rightarrow>
                    (Inr i, fs\<lparr>fs_inodes := (fs_inodes fs)(i := (fs_inodes fs i)\<lparr>in_data := []\<rparr>)\<rparr>)
                | Some _ \<Rightarrow> (Inl IoOther, fs))))"

definition append_data :: "fsys \<Rightarrow> abs_path \<Rightarrow> nat \<Rightarrow> bytes \<Rightarrow> (io_error + unit) \<times> fsys" where
  "append_data fs p i b =
     (case fs_fault fs (OpWrite p) of
        Some e \<Rightarrow> (Inl e, fs)
      | None \<Rightarrow> (Inr (), fs\<lparr>fs_inodes := (fs_inodes fs)(i := (fs_inodes fs i)\<lparr>in_data := in_data (fs_inodes fs i) @ b\<rparr>)\<rparr>))"

text \<open>Changing mode or time of what a path resolves to, errors ignored.\<close>

definition chmod :: "fsys \<Rightarrow> abs_path \<Rightarrow> u32 \<Rightarrow> fsys" where
  "chmod fs p mode =
     (case canonicalize fs p of
        Inl _ \<Rightarrow> fs
      | Inr q \<Rightarrow>
          (case fs_nodes fs q of
             Some (FDir _ t) \<Rightarrow> set_node q (Some (FDir mode t)) fs
           | Some (FFile i) \<Rightarrow> fs\<lparr>fs_inodes := (fs_inodes fs)(i := (fs_inodes fs i)\<lparr>in_mode := mode\<rparr>)\<rparr>
           | _ \<Rightarrow> fs))"

definition touch_dir :: "fsys \<Rightarrow> abs_path \<Rightarrow> int \<Rightarrow> fsys" where
  "touch_dir fs p t =
     (case canonicalize fs p of
        Inl _ \<Rightarrow> fs
      | Inr q \<Rightarrow>
          (case fs_nodes fs q of
             Some (FDir m _) \<Rightarrow> set_node q (Some (FDir m t)) fs
           | Some (FFile i) \<Rightarrow> fs\<lparr>fs_inodes := (fs_inodes fs)(i := (fs_inodes fs i)\<lparr>in_mtime := t\<rparr>)\<rparr>
           | _ \<Rightarrow> fs))"

section \<open>Confined operations\<close>

fun create_dir_confined :: "fsys \<Rightarrow> abs_path \<Rightarrow> rel_path \<Rightarrow> abs_path res \<times> fsys" where
  "create_dir_confined fs cur [] = (Inr cur, fs)"
| "create_dir_confined fs cur (c # cs) =
     (case fs_nodes fs (cur @ [c]) of
        Some (FLink _) \<Rightarrow> (Inl UnsafePath, fs)
      | Some (FDir _ _) \<Rightarrow> create_dir_confined fs (cur @ [c]) cs
      | Some (FFile _) \<Rightarrow> (Inl UnsafePath, fs)
      | None \<Rightarrow>
          (case mkdir fs (cur @ [c]) of
             (Inl e, fs') \<Rightarrow> (Inl (Io e), fs')
           | (Inr _, fs') \<Rightarrow> create_dir_confined fs' (cur @ [c]) cs))"

definition assert_parent_within :: "fsys \<Rightarrow> abs_path \<Rightarrow> abs_path \<Rightarrow> unit res" where
  "assert_parent_within fs root p =
     and_then (from_io (canonicalize fs (butlast p))) (\<lambda>canon.
       if \<not> prefix root canon then Inl UnsafePath else Inr ())"

record materialize_policy =
  mp_replace_directories :: bool
  mp_restore_setid :: bool

definition policy_default :: materialize_policy where
  "policy_default = \<lparr>mp_replace_directories = False, mp_restore_setid = False\<rparr>"

definition remove_existing :: "fsys \<Rightarrow> abs_path \<Rightarrow> materialize_policy \<Rightarrow> unit res \<times> fsys" where
  "remove_existing fs p pol =
     (case fs_nodes fs p of
        None \<Rightarrow> (Inr (), fs)
      | Some (FDir _ _) \<Rightarrow>
          if \<not> mp_replace_directories pol then (Inl UnsafePath, fs)
          else (Inr (), if fs_fault fs (OpRmTree p) = None
                        then fs\<lparr>fs_nodes := (\<lambda>q. if prefix p q then None else fs_nodes fs q)\<rparr> else fs)
      | Some _ \<Rightarrow> (Inr (), if fs_fault fs (OpUnlink p) = None then set_node p None fs else fs))"

definition MODE_MASK :: u32 where "MODE_MASK = 0x1FF"

definition set_mode :: "fsys \<Rightarrow> abs_path \<Rightarrow> u32 \<Rightarrow> materialize_policy \<Rightarrow> fsys" where
  "set_mode fs p mode pol =
     (let m = (if mp_restore_setid pol then mode AND 0xFFF else mode AND MODE_MASK) in
      if m \<noteq> 0 then chmod fs p m else fs)"

definition set_mtime :: "fsys \<Rightarrow> nat \<Rightarrow> int \<Rightarrow> fsys" where
  "set_mtime fs i t = (if t > 0 then fs\<lparr>fs_inodes := (fs_inodes fs)(i := (fs_inodes fs i)\<lparr>in_mtime := t\<rparr>)\<rparr> else fs)"

section \<open>The passes\<close>

type_synonym 's mat_state = "fsys \<times> 's"

text \<open>A \<open>for\<close> loop over entries that stops at the first error.\<close>

fun try_each :: "('a \<Rightarrow> 'w \<Rightarrow> unit res \<times> 'w) \<Rightarrow> 'a list \<Rightarrow> 'w \<Rightarrow> unit res \<times> 'w" where
  "try_each f [] w = (Inr (), w)"
| "try_each f (x # xs) w = then_io (f x w) (\<lambda>_ w'. try_each f xs w')"

definition pass_dirs :: "abs_path \<Rightarrow> entry \<Rightarrow> fsys \<Rightarrow> unit res \<times> fsys" where
  "pass_dirs root e fs =
     (case e of
        Dir path _ _ \<Rightarrow>
          (case sanitize_rel_path path of
             Inl x \<Rightarrow> (Inl x, fs)
           | Inr rel \<Rightarrow> then_io (create_dir_confined fs root rel) (\<lambda>_ fs'. (Inr (), fs')))
      | _ \<Rightarrow> (Inr (), fs))"

fun write_chunks ::
  "('s \<Rightarrow> hash \<Rightarrow> (io_error + bytes option) \<times> 's) \<Rightarrow> (bytes \<Rightarrow> hash) \<Rightarrow> abs_path \<Rightarrow> nat \<Rightarrow> u64 \<Rightarrow> chunk_ref list
   \<Rightarrow> 's mat_state \<Rightarrow> u64 res \<times> 's mat_state" where
  "write_chunks get blake3 p i written [] w = (Inr written, w)"
| "write_chunks get blake3 p i written (c # cs) (fs, s) =
     (case get s (cr_hash c) of
        (Inl e, s1) \<Rightarrow> (Inl (Io e), fs, s1)
      | (Inr None, s1) \<Rightarrow> (Inl NotFound, fs, s1)
      | (Inr (Some b), s1) \<Rightarrow>
          if of_nat (length b) \<noteq> cr_len c then (Inl (ChunkLengthMismatch (cr_len c) (of_nat (length b))), fs, s1)
          else if blake3 b \<noteq> cr_hash c then (Inl (CorruptStore (cr_hash c)), fs, s1)
          else (case append_data fs p i b of
                  (Inl e, fs1) \<Rightarrow> (Inl (Io e), fs1, s1)
                | (Inr _, fs1) \<Rightarrow> write_chunks get blake3 p i (written + of_nat (length b)) cs (fs1, s1)))"

text \<open>What comes before each of the three kinds of entry that replace what is at their path.\<close>

definition prepare_path :: "abs_path \<Rightarrow> rel_path \<Rightarrow> fsys \<Rightarrow> unit res \<times> fsys" where
  "prepare_path root rel fs =
     then_io (create_dir_confined fs root (butlast rel)) (\<lambda>_ fs1.
       (assert_parent_within fs1 root (root @ rel), fs1))"

definition put_file ::
  "('s \<Rightarrow> hash \<Rightarrow> (io_error + bytes option) \<times> 's) \<Rightarrow> (bytes \<Rightarrow> hash) \<Rightarrow> materialize_policy \<Rightarrow> abs_path
   \<Rightarrow> u32 \<Rightarrow> int \<Rightarrow> u64 \<Rightarrow> chunk_ref list \<Rightarrow> 's mat_state \<Rightarrow> unit res \<times> 's mat_state" where
  "put_file get blake3 pol p mode mtime sz chunks w =
     (case remove_existing (fst w) p pol of
        (Inl e, fs1) \<Rightarrow> (Inl e, fs1, snd w)
      | (Inr _, fs1) \<Rightarrow>
          (case open_create fs1 p of
             (Inl e, fs2) \<Rightarrow> (Inl (Io e), fs2, snd w)
           | (Inr i, fs2) \<Rightarrow>
               then_io (write_chunks get blake3 p i 0 chunks (fs2, snd w)) (\<lambda>written w3.
                 if written \<noteq> sz then (Inl MalformedMessage, w3)
                 else (Inr (), set_mtime (set_mode (fst w3) p mode pol) i mtime, snd w3))))"

definition put_hardlink :: "materialize_policy \<Rightarrow> abs_path \<Rightarrow> abs_path \<Rightarrow> abs_path \<Rightarrow> fsys \<Rightarrow> unit res \<times> fsys" where
  "put_hardlink pol root p t fs =
     (case canonicalize fs t of
        Inl _ \<Rightarrow> (Inl UnsafePath, fs)
      | Inr canon \<Rightarrow>
          (case fs_nodes fs canon of
             Some (FFile i) \<Rightarrow>
               if \<not> prefix root canon then (Inl UnsafePath, fs)
               else then_io (remove_existing fs p pol) (\<lambda>_ fs1.
                      case fs_fault fs1 (OpLink p) of
                        Some e \<Rightarrow> (Inl (Io e), fs1)
                      | None \<Rightarrow>
                          (case fs_nodes fs1 p of
                             Some _ \<Rightarrow> (Inl (Io IoOther), fs1)
                           | None \<Rightarrow>
                               (case fs_nodes fs1 canon of
                                  Some (FFile j) \<Rightarrow> (Inr (), set_node p (Some (FFile j)) fs1)
                                | _ \<Rightarrow> (Inl (Io IoNotFound), fs1))))
           | _ \<Rightarrow> (Inl UnsafePath, fs)))"

definition on_files :: "(fsys \<Rightarrow> unit res \<times> fsys) \<Rightarrow> 's mat_state \<Rightarrow> unit res \<times> 's mat_state" where
  "on_files f w = (case f (fst w) of (r, fs) \<Rightarrow> (r, fs, snd w))"

definition pass_files ::
  "('s \<Rightarrow> hash \<Rightarrow> (io_error + bytes option) \<times> 's) \<Rightarrow> (bytes \<Rightarrow> hash) \<Rightarrow> materialize_policy \<Rightarrow> abs_path
   \<Rightarrow> entry \<Rightarrow> 's mat_state \<Rightarrow> unit res \<times> 's mat_state" where
  "pass_files get blake3 pol root e w =
     (case e of
        File path mode mtime sz chunks \<Rightarrow>
          (case sanitize_rel_path path of
             Inl x \<Rightarrow> (Inl x, w)
           | Inr rel \<Rightarrow> then_io (on_files (prepare_path root rel) w) (\<lambda>_.
                          put_file get blake3 pol (root @ rel) mode mtime sz chunks))
      | Hardlink path target \<Rightarrow>
          (case sanitize_rel_path path of
             Inl x \<Rightarrow> (Inl x, w)
           | Inr rel \<Rightarrow>
               then_io (on_files (\<lambda>fs. then_io (create_dir_confined fs root (butlast rel)) (\<lambda>_ fs1. (Inr (), fs1))) w) (\<lambda>_ w1.
                 case sanitize_rel_path target of
                   Inl x \<Rightarrow> (Inl x, w1)
                 | Inr trel \<Rightarrow>
                     (case assert_parent_within (fst w1) root (root @ rel) of
                        Inl x \<Rightarrow> (Inl x, w1)
                      | Inr _ \<Rightarrow> on_files (put_hardlink pol root (root @ rel) (root @ trel)) w1)))
      | _ \<Rightarrow> (Inr (), w))"

definition pass_links :: "materialize_policy \<Rightarrow> abs_path \<Rightarrow> entry \<Rightarrow> fsys \<Rightarrow> unit res \<times> fsys" where
  "pass_links pol root e fs =
     (case e of
        Symlink path target \<Rightarrow>
          (case and_then (sanitize_rel_path path) (\<lambda>rel.
                  and_then (sanitize_symlink_target rel target) (\<lambda>_. Inr rel)) of
             Inl x \<Rightarrow> (Inl x, fs)
           | Inr rel \<Rightarrow>
               then_io (prepare_path root rel fs) (\<lambda>_ fs1.
               then_io (remove_existing fs1 (root @ rel) pol) (\<lambda>_ fs2.
                 case fs_fault fs2 (OpLink (root @ rel)) of
                   Some e \<Rightarrow> (Inl (Io e), fs2)
                 | None \<Rightarrow>
                     (case fs_nodes fs2 (root @ rel) of
                        Some _ \<Rightarrow> (Inl (Io IoOther), fs2)
                      | None \<Rightarrow> (Inr (), set_node (root @ rel) (Some (FLink target)) fs2)))))
      | _ \<Rightarrow> (Inr (), fs))"

definition pass_dir_meta :: "materialize_policy \<Rightarrow> abs_path \<Rightarrow> entry \<Rightarrow> fsys \<Rightarrow> fsys" where
  "pass_dir_meta pol root e fs =
     (case e of
        Dir path mode mtime \<Rightarrow>
          (case sanitize_rel_path path of
             Inl _ \<Rightarrow> fs
           | Inr rel \<Rightarrow>
               set_mode (if mtime > 0 then touch_dir fs (root @ rel) mtime else fs) (root @ rel) mode pol)
      | _ \<Rightarrow> fs)"

definition reconstruct_tree ::
  "('s \<Rightarrow> hash \<Rightarrow> (io_error + bytes option) \<times> 's) \<Rightarrow> (bytes \<Rightarrow> hash) \<Rightarrow> materialize_policy \<Rightarrow> abs_path
   \<Rightarrow> entry list \<Rightarrow> 's mat_state \<Rightarrow> unit res \<times> 's mat_state" where
  "reconstruct_tree get blake3 pol root es w =
     then_io (on_files (try_each (pass_dirs root) es) w) (\<lambda>_ w1.
     then_io (try_each (pass_files get blake3 pol root) es w1) (\<lambda>_ w2.
     then_io (on_files (try_each (pass_links pol root) es) w2) (\<lambda>_ w3.
       (Inr (), fold (pass_dir_meta pol root) (rev es) (fst w3), snd w3))))"

section \<open>The download of a snapshot\<close>

text \<open>The temp tag over the needed chunks lives as long as the call: taken, and dropped at its end.\<close>

definition protect_call :: "hash list \<Rightarrow> temp_tags option \<Rightarrow> temp_tags option" where
  "protect_call needed temps = map_option (\<lambda>t. case temp_protect needed t of (g, t') \<Rightarrow> temp_drop g t') temps"

definition run_download_tree ::
  "'s store_ops \<Rightarrow> store_net \<Rightarrow> tree_client \<Rightarrow> materialize_policy \<Rightarrow> (nat \<Rightarrow> bool) \<Rightarrow> pool_event list \<Rightarrow> nat
   \<Rightarrow> string \<Rightarrow> hash option \<Rightarrow> abs_path \<Rightarrow> temp_tags option \<Rightarrow> 's mat_state
   \<Rightarrow> (transfer_stats res \<times> temp_tags option \<times> 's mat_state) option" where
  "run_download_tree S N c pol polls events n bid root dest temps w =
     (case fetch_index_matching N n c bid root of
        (Inl e, _) \<Rightarrow> Some (Inl e, temps, w)
      | (Inr index, m) \<Rightarrow>
          if total_size index > yc_max_tree_bytes c then Some (Inl InvalidManifest, temps, w)
          else let needed = needed_chunks index; temps' = protect_call needed temps in
            if length needed > unat (yc_max_tree_chunks c) then Some (Inl InvalidManifest, temps', w)
            else (case fetch_missing S N c polls events m (needed_chunk_refs index) (of_nat (length needed)) (snd w) of
                    None \<Rightarrow> None
                  | Some (Inl e, f) \<Rightarrow> Some (Inl e, temps', fst w, fm_store f)
                  | Some (Inr _, f) \<Rightarrow>
                      (case reconstruct_tree (so_get S) (cr_blake3 (sn_crates N)) pol dest (ti_entries index)
                              (fst w, fm_store f) of
                         (Inl e, w') \<Rightarrow> Some (Inl e, temps', w')
                       | (Inr _, w') \<Rightarrow> Some (Inr (fm_stats f), temps', w'))))"

end
