(* ===== verification/Tree_Client_Props.thy ===== *)
theory Tree_Client_Props
  imports Tree_Client
begin

text \<open>
  What the tree client guarantees: an accepted index is the pinned one, \<open>fetch_missing\<close> only adds
  verified chunks to the store and, when it returns Ok, every needed chunk is there, whatever the
  network answers and however the pool is scheduled.
\<close>

section \<open>Indices\<close>

lemma index_verdict_Inr:
  "index_verdict N c bid root payload = Inr t \<Longrightarrow>
   pc_get_index (sn_postcard N) payload = Inr t
   \<and> tree_validate (pc_identity (sn_postcard N)) (cr_blake3 (sn_crates N)) t = Inr ()
   \<and> ti_id t = bid \<and> (\<forall>h. root = Some h \<longrightarrow> ti_root_hash t = h)"
  by (auto simp: index_verdict_def and_then_Inr split: if_splits option.splits)

lemma index_replies_Inr:
  "index_replies N n c bid root rejected rs = (Inr t, m) \<Longrightarrow>
   tree_validate (pc_identity (sn_postcard N)) (cr_blake3 (sn_crates N)) t = Inr ()
   \<and> ti_id t = bid \<and> (\<forall>h. root = Some h \<longrightarrow> ti_root_hash t = h)"
  by (induction N n c bid root rejected rs rule: index_replies.induct)
     (auto split: prod.splits option.splits sum.splits dest: index_verdict_Inr)

lemma fetch_index_matching_Inr:
  assumes "fetch_index_matching N n c bid root = (Inr t, m)"
  shows "tree_validate (pc_identity (sn_postcard N)) (cr_blake3 (sn_crates N)) t = Inr ()
   \<and> ti_id t = bid \<and> (\<forall>h. root = Some h \<longrightarrow> ti_root_hash t = h)"
  using assms index_replies_Inr[of N _ c _ root None _ t m]
  by (auto simp: fetch_index_matching_def blob_id_new_Inr split: sum.splits)

text \<open>A bad responder cannot mask a good one: an acceptable whole index among the replies is found.\<close>

lemma index_replies_found:
  assumes "Inr s \<in> set rs" "sm_encoding s = ENC_INDEX" "is_ok (index_verdict N c bid root (sm_payload s))"
  shows "\<exists>t m. index_replies N n c bid root rejected rs = (Inr t, m)"
  using assms(1)
proof (induction rs arbitrary: n rejected)
  case (Cons r rs)
  show ?case
  proof (cases "r = Inr s")
    case True
    then show ?thesis using assms(2,3) by (auto simp: index_payload_def is_ok_iff)
  next
    case False
    then have "Inr s \<in> set rs" using Cons.prems by auto
    note IH = Cons.IH [OF this]
    show ?thesis
    proof (cases r)
      case (Inl u)
      then show ?thesis using IH by simp
    next
      case (Inr x)
      obtain y m where y: "index_payload N n c x = (y, m)" by (meson surj_pair)
      show ?thesis
      proof (cases "y = None \<or> (\<exists>e. y = Some (Inl e))")
        case True
        then show ?thesis using Inr y IH by auto
      next
        case False
        then obtain p where "y = Some (Inr p)" by (metis not_Some_eq sum.exhaust)
        then show ?thesis using Inr y IH by (cases "index_verdict N c bid root p") auto
      qed
    qed
  qed
qed simp

text \<open>The pieces of a sharded index, when it was assembled: each hashes to its address.\<close>

definition pieces_match :: "crates \<Rightarrow> chunk_ref list \<Rightarrow> bytes list \<Rightarrow> bool" where
  "pieces_match C refs ps \<longleftrightarrow> list_all2 (\<lambda>r b. cr_blake3 C b = cr_hash r) refs ps"

lemma keep_first_sound:
  assumes "hash_sound (cr_blake3 C) got"
  shows "hash_sound (cr_blake3 C) (keep_first (accept_reply C prefix asked r) got)"
proof (cases "accept_reply C prefix asked r")
  case (Some hb)
  obtain h b where hb: "hb = (h, b)" by (cases hb)
  then have "cr_blake3 C b = h" using accept_reply_Some [of C prefix asked r h b] Some by simp
  then have "hash_sound (cr_blake3 C) (got(h \<mapsto> b))" using assms by (simp add: hash_sound_def)
  then show ?thesis using assms Some hb by (simp add: keep_first_def)
qed (simp add: keep_first_def assms)

lemma keep_first_fold_sound:
  "hash_sound (cr_blake3 C) got \<Longrightarrow>
   hash_sound (cr_blake3 C) (fold (\<lambda>r. keep_first (accept_reply C prefix asked r)) rs got)"
  by (induction rs arbitrary: got) (simp_all add: keep_first_sound)

lemma gather_pieces_sound:
  assumes "hash_sound (cr_blake3 (sn_crates N)) got" "gather_pieces N n c got gs = (Inr out, m)"
  shows "hash_sound (cr_blake3 (sn_crates N)) out"
  using assms
proof (induction gs arbitrary: got n)
  case (Cons g gs)
  then obtain rs asked where "gather_pieces N (Suc n) c
      (fold (\<lambda>r. keep_first (accept_reply (sn_crates N) (yc_store_prefix c) asked r)) rs got) gs = (Inr out, m)"
    by (auto split: sum.splits)
  then show ?case using Cons.IH keep_first_fold_sound [OF Cons.prems(1)] by blast
qed simp

lemma join_pieces_sound:
  assumes "hash_sound (cr_blake3 (sn_crates N)) got" "join_pieces N n c got out rs = (Inr bs, m)"
  shows "\<exists>ps. pieces_match (sn_crates N) rs ps \<and> bs = out @ concat ps"
  using assms
proof (induction rs arbitrary: got out n)
  case (Cons r rs)
  obtain b got' n' where b: "cr_blake3 (sn_crates N) b = cr_hash r" "hash_sound (cr_blake3 (sn_crates N)) got'"
    "join_pieces N n' c got' (out @ b) rs = (Inr bs, m)"
  proof (cases "got (cr_hash r)")
    case None
    then obtain b k where f: "fetch_one_chunk N n (store_key (yc_store_prefix c) Blake3 (cr_hash r)) (cr_hash r)
          (Some (cr_len r)) MAX_UNPACKED = Inr (b, k)" "join_pieces N (Suc n) c got (out @ b) rs = (Inr bs, m)"
      using Cons.prems(2) by (auto split: sum.splits)
    then have "cr_blake3 (sn_crates N) b = cr_hash r"
      by (auto simp: fetch_one_chunk_def split: sum.splits dest: chunk_replies_verified)
    then show ?thesis using that f(2) Cons.prems(1) by blast
  next
    case (Some b)
    have "join_pieces N n c (got(cr_hash r := None)) (out @ b) rs = (Inr bs, m)" using Cons.prems(2) Some by simp
    moreover have "hash_sound (cr_blake3 (sn_crates N)) (got(cr_hash r := None))"
      using Cons.prems(1) by (simp add: hash_sound_def)
    moreover have "cr_blake3 (sn_crates N) b = cr_hash r" using Cons.prems(1) Some by (simp add: hash_sound_def)
    ultimately show ?thesis using that by blast
  qed
  from Cons.IH [OF b(2,3)] obtain ps where "pieces_match (sn_crates N) rs ps" "bs = (out @ b) @ concat ps" by blast
  then show ?case using b(1) by (intro exI [of _ "b # ps"]) (simp add: pieces_match_def)
qed (simp add: pieces_match_def)

section \<open>What storing verified chunks does to a store\<close>

lemma putm_Cons: "putm ((h, b) # cs) m = putm cs (m(h \<mapsto> b))"
  by (simp add: putm_def)

lemma putm_grows: "\<forall>(h, b) \<in> set cs. blake3 b = h \<Longrightarrow> grows blake3 m (putm cs m)"
proof (induction cs arbitrary: m)
  case (Cons x cs)
  obtain h b where "x = (h, b)" by (cases x)
  with Cons grows_update[of blake3 b h m] show ?case by (auto simp: putm_Cons intro: grows_trans)
qed (simp add: putm_def)

lemma dom_putm: "dom (putm cs m) = dom m \<union> fst ` set cs"
proof (induction cs arbitrary: m)
  case (Cons x cs)
  then show ?case by (cases x) (auto simp: putm_Cons)
qed (simp add: putm_def)

lemma count_fetched_store [simp]: "fm_store (count_fetched tot i len rej f) = fm_store f"
  by (simp add: count_fetched_def Let_def)

lemma count_resumed_store [simp]: "fm_store (count_resumed tot i f) = fm_store f"
  by (simp add: count_resumed_def Let_def)

lemma count_query_store [simp]: "fm_store (count_query f) = fm_store f"
  by (simp add: count_query_def)

lemma count_queries_store [simp]: "fm_store ((count_query ^^ k) f) = fm_store f"
  by (induction k) simp_all

lemma fold_count_fetched_store [simp]:
  "fm_store (fold (\<lambda>(h, b). count_fetched tot (g h) (l b) 0) xs f) = fm_store f"
  by (induction xs arbitrary: f) auto

lemma poll_cancel_store: "poll_cancel polls f = (b, f') \<Longrightarrow> fm_store f' = fm_store f"
  by (auto simp: poll_cancel_def)

lemma cancel_with_store [simp]: "fm_store (snd (cancel_with tot f)) = fm_store f" "fst (cancel_with tot f) \<noteq> Inr x"
  by (simp_all add: cancel_with_def)

lemma split_missing_spec:
  "split_missing tot xs f = (missing, f') \<Longrightarrow>
   fm_store f' = fm_store f \<and> missing = map (\<lambda>(i, c, _). (i, c)) (filter (\<lambda>(_, _, p). \<not> p) xs)"
proof (induction tot xs f arbitrary: missing f' rule: split_missing.induct)
  case (2 tot i c present xs f)
  then show ?case by (auto split: if_splits prod.splits)
qed auto

section \<open>The rounds\<close>

text \<open>A run of \<open>fetch_missing\<close> keeps the store well formed and only adds verified chunks.\<close>

context content_store
begin

definition fetch_inv :: "crates \<Rightarrow> (hash \<Rightarrow> bytes option) \<Rightarrow> 's fetch_state \<Rightarrow> bool" where
  "fetch_inv C m f \<longleftrightarrow> inv (fm_store f) \<and> grows (cr_blake3 C) m (contents (fm_store f))"

definition accepts :: "crates \<Rightarrow> bool" where
  "accepts C \<longleftrightarrow> (\<forall>h b. good_chunk C h b \<longrightarrow> good h b)"

definition held :: "'s fetch_state \<Rightarrow> hash set" where
  "held f = dom (contents (fm_store f))"

lemma held_cong: "fm_store f' = fm_store f \<Longrightarrow> held f' = held f"
  by (simp add: held_def)

lemma fetch_inv_step:
  assumes "fetch_inv C m f" "inv s" "grows (cr_blake3 C) (contents (fm_store f)) (contents s)" "fm_store f' = s"
  shows "fetch_inv C m f' \<and> held f \<subseteq> held f'"
  using assms grows_trans [of "cr_blake3 C" m "contents (fm_store f)" "contents s"]
  by (simp add: fetch_inv_def held_def grows_def)

lemma fetch_inv_same: "fetch_inv C m f \<Longrightarrow> fm_store f' = fm_store f \<Longrightarrow> fetch_inv C m f'"
  by (simp add: fetch_inv_def)

lemma flush_pending_inv:
  assumes "fetch_inv C m f" "accepts C" "\<forall>x \<in> set pending. good_chunk C (fst x) (snd x)" "so_put S = put"
    and "flush_pending S tot grp pending f = (r, f')"
  shows "fetch_inv C m f' \<and> held f \<subseteq> held f' \<and> (is_ok r \<longrightarrow> fst ` set pending \<subseteq> held f')"
proof -
  obtain x s where pm: "store_put_many put (fm_store f) pending = (x, s)" by (meson surj_pair)
  have "inv (fm_store f)" "\<forall>(h, b) \<in> set pending. good h b"
    using assms(1-3) by (auto simp: fetch_inv_def accepts_def)
  from put_many [OF this pm] obtain n where n: "inv s" "contents s = putm (take n pending) (contents (fm_store f))"
    "x = Inr () \<longrightarrow> n = length pending" by blast
  have "\<forall>(h, b) \<in> set (take n pending). cr_blake3 C b = h"
    using assms(3) by (auto simp: good_chunk_def dest!: in_set_takeD)
  then have "grows (cr_blake3 C) (contents (fm_store f)) (contents s)" unfolding n(2) by (rule putm_grows)
  note step = fetch_inv_step [OF assms(1) n(1) this]
  have f': "fm_store f' = s" "is_ok r \<longleftrightarrow> x = Inr ()"
    using assms(4,5) pm by (auto simp: flush_pending_def split: sum.splits)
  have "fst ` set pending \<subseteq> dom (contents s)" if "x = Inr ()"
    using n that by (simp add: dom_putm)
  then show ?thesis using step [OF f'(1)] f' by (simp add: held_def)
qed

lemma good_accepted:
  "accept_reply C prefix asked r = Some (h, b) \<Longrightarrow> good_chunk C h b"
  using accept_reply_Some by (auto simp: good_chunk_def)

lemma drain_stream_inv:
  assumes "fetch_inv C m f" "accepts C" "\<forall>x \<in> set pending. good_chunk C (fst x) (snd x)" "so_put S = put"
    and "set arrived \<subseteq> held f \<union> fst ` set pending"
    and "drain_stream S C prefix polls tot grp asked pending arrived rs f = (r, f')"
  shows "fetch_inv C m f' \<and> held f \<subseteq> held f' \<and> (\<forall>a b. r = Inr (a, b) \<longrightarrow> set a \<subseteq> held f')"
  using assms(1,3,5,6)
proof (induction rs arbitrary: pending arrived f)
  case Nil
  obtain b f1 where p: "poll_cancel polls f = (b, f1)" by (meson surj_pair)
  note f1 = poll_cancel_store [OF p]
  obtain x f2 where fl: "flush_pending S tot grp pending f1 = (x, f2)" by (meson surj_pair)
  note g = flush_pending_inv [OF fetch_inv_same [OF Nil(1) f1] assms(2) Nil(2) assms(4) fl]
  have "is_ok x \<Longrightarrow> set arrived \<subseteq> held f2" using g Nil(3) unfolding held_cong [OF f1] by blast
  then show ?case
    using Nil(1,3,4) p fl g held_cong [OF f1] fetch_inv_same [OF Nil(1) f1] by (cases "pending = []"; cases x) auto
next
  case (Cons rp rs)
  obtain b f1 where p: "poll_cancel polls f = (b, f1)" by (meson surj_pair)
  note f1 = poll_cancel_store [OF p]
  note inv1 = fetch_inv_same [OF Cons.prems(1) f1]
  note h1 = held_cong [OF f1]
  show ?case
  proof (cases b)
    case True
    obtain x f2 where fl: "flush_pending S tot grp pending f1 = (x, f2)" by (meson surj_pair)
    note g = flush_pending_inv [OF inv1 assms(2) Cons.prems(2) assms(4) fl]
    have "is_ok x \<Longrightarrow> set arrived \<subseteq> held f2" using g Cons.prems(3) unfolding h1 by blast
    then show ?thesis
      using Cons.prems(3,4) p True fl g h1 inv1 by (cases "pending = []"; cases x) auto
  next
    case False
    obtain pending' arrived' where pa: "(case accept_reply C prefix asked rp of
         Some (h, b) \<Rightarrow> if h \<in> set arrived then (pending, arrived) else (pending @ [(h, b)], h # arrived)
       | None \<Rightarrow> (pending, arrived)) = (pending', arrived')" by (meson surj_pair)
    then consider "pending' = pending" "arrived' = arrived"
      | h b where "good_chunk C h b" "pending' = pending @ [(h, b)]" "arrived' = h # arrived"
      using good_accepted[of C prefix asked rp] by (auto split: option.splits if_splits)
    then have good: "\<forall>x \<in> set pending'. good_chunk C (fst x) (snd x)" "set arrived' \<subseteq> held f1 \<union> fst ` set pending'"
      using Cons.prems(2,3) h1 by (cases; simp; blast)+
    obtain x f2 where fl: "flush_pending S tot grp pending' f1 = (x, f2)" by (meson surj_pair)
    note g = flush_pending_inv [OF inv1 assms(2) good(1) assms(4) fl]
    show ?thesis
    proof (cases "length pending' \<ge> FLUSH")
      case True
      then have run: "then_io (x, f2) (\<lambda>_ f2. drain_stream S C prefix polls tot grp asked [] arrived' rs f2) = (r, f')"
        using Cons.prems(4) p \<open>\<not> b\<close> pa fl by simp
      show ?thesis
      proof (cases x)
        case (Inl e)
        then show ?thesis using run g h1 by auto
      next
        case (Inr u)
        then have "drain_stream S C prefix polls tot grp asked [] arrived' rs f2 = (r, f')" "set arrived' \<subseteq> held f2"
          using run g good(2) by auto
        then show ?thesis using Cons.IH [of f2 "[]" arrived'] g h1 by auto
      qed
    next
      case False
      then have "drain_stream S C prefix polls tot grp asked pending' arrived' rs f1 = (r, f')"
        using Cons.prems(4) p \<open>\<not> b\<close> pa by simp
      then show ?thesis using Cons.IH [OF inv1 good] h1 by simp
    qed
  qed
qed

lemma then_io_Pair_cases:
  assumes "then_io (x, f) g = (r, f')"
  shows "(\<exists>e. x = Inl e \<and> r = Inl e \<and> f' = f) \<or> (\<exists>y. x = Inr y \<and> g y f = (r, f'))"
  using assms by (cases x) auto

lemma batch_rounds_inv:
  assumes "fetch_inv (sn_crates N) m f" "accepts (sn_crates N)" "so_put S = put"
    and "batch_rounds S N c polls tot gs unanswered f = (r, f')"
  shows "fetch_inv (sn_crates N) m f' \<and> held f \<subseteq> held f' \<and> (\<forall>rest. r = Inr rest \<longrightarrow>
     set unanswered \<subseteq> set rest \<and> set rest \<subseteq> set unanswered \<union> set (concat gs)
     \<and> (\<forall>x \<in> set (concat gs). cr_hash (snd x) \<in> held f' \<or> x \<in> set rest))"
  using assms(1,4)
proof (induction gs arbitrary: unanswered f)
  case (Cons g gs)
  let ?C = "sn_crates N"
  obtain b f1 where p: "poll_cancel polls f = (b, f1)" by (meson surj_pair)
  note f1 = poll_cancel_store [OF p]
  have f2: "fm_store (count_query f1) = fm_store f" by (simp add: f1)
  note inv2 = fetch_inv_same [OF Cons.prems(1) f2]
  show ?case
  proof (cases "b \<or> \<not> is_ok (batch_query N (fm_query f1) (yc_store_prefix c) (map snd g))")
    case True
    then have "fm_store f' = fm_store f" "\<not> is_ok r"
      using Cons.prems(2) p f1 f2 by (auto simp: cancel_with_def Let_def split: sum.splits if_splits)
    then show ?thesis using fetch_inv_same [OF Cons.prems(1)] held_cong[of f' f] by auto
  next
    case False
    then obtain rs asked where q: "batch_query N (fm_query f1) (yc_store_prefix c) (map snd g) = Inr (rs, asked)"
      by (auto simp: is_ok_iff)
    obtain x f3 where d: "drain_stream S ?C (yc_store_prefix c) polls tot g asked [] [] rs (count_query f1) = (x, f3)"
      by (meson surj_pair)
    note dr = drain_stream_inv [OF inv2 assms(2) _ assms(3) _ d, simplified]
    have "then_io (x, f3) (\<lambda>(arrived, stopped) f3. if stopped then cancel_with tot f3
        else batch_rounds S N c polls tot gs (unanswered @ filter (\<lambda>(_, r). cr_hash r \<notin> set arrived) g) f3) = (r, f')"
      using Cons.prems(2) False p q d by (simp add: Let_def)
    then consider e where "x = Inl e" "r = Inl e" "f' = f3"
      | arrived where "x = Inr (arrived, True)" "cancel_with tot f3 = (r, f')"
      | arrived where "x = Inr (arrived, False)"
        "batch_rounds S N c polls tot gs (unanswered @ filter (\<lambda>(_, r). cr_hash r \<notin> set arrived) g) f3 = (r, f')"
      by (auto dest!: then_io_Pair_cases split: if_splits)
    then show ?thesis
    proof cases
      case 1
      then show ?thesis using dr held_cong [OF f2] by auto
    next
      case 2
      then have "fm_store f' = fm_store f3" "\<not> is_ok r" by (auto simp: cancel_with_def)
      then show ?thesis using dr held_cong [OF f2] held_cong[of f' f3] fetch_inv_same[of ?C m f3 f'] by auto
    next
      case 3
      have h3: "set arrived \<subseteq> held f3" "held f \<subseteq> held f3" using dr held_cong [OF f2] 3(1) by auto
      note IH = Cons.IH [OF conjunct1 [OF dr] 3(2)]
      then show ?thesis using h3 by fastforce
    qed
  qed
qed auto

text \<open>The pool: a wanted hash is in the store, waiting, running, or its task has failed.\<close>

definition pool_hashes :: "'s pool \<Rightarrow> hash set" where
  "pool_hashes p = (\<lambda>(i, r). cr_hash r) ` set (pl_todo p) \<union> (\<lambda>(i, r, q). cr_hash r) ` set (pl_running p)"

definition pool_inv :: "crates \<Rightarrow> (hash \<Rightarrow> bytes option) \<Rightarrow> hash set \<Rightarrow> 's pool \<Rightarrow> bool" where
  "pool_inv C m H p \<longleftrightarrow> fetch_inv C m (pl_fetch p) \<and> (\<forall>h \<in> pool_hashes p. hash_wf h)
     \<and> ((\<exists>e. Inl e \<in> set (pl_ready p)) \<or> H \<subseteq> held (pl_fetch p) \<union> pool_hashes p)"

lemma enumerate_hashes:
  "(\<lambda>(i, r, q). cr_hash r) ` set (map (\<lambda>(k, i, r). (i, r, n + k)) (enumerate k0 xs)) = (\<lambda>(i, r). cr_hash r) ` set xs"
  by (induction xs arbitrary: k0) auto

lemma fill_pool_inv:
  assumes "pool_inv C m H p"
  shows "pool_inv C m H (fill_pool conc p)" "pl_ready (fill_pool conc p) = pl_ready p"
    "fm_store (pl_fetch (fill_pool conc p)) = fm_store (pl_fetch p)"
proof -
  let ?k = "conc - (length (pl_running p) + length (pl_ready p))"
  have same: "fm_store (pl_fetch (fill_pool conc p)) = fm_store (pl_fetch p)"
    "pl_ready (fill_pool conc p) = pl_ready p" by (simp_all add: fill_pool_def Let_def)
  have "set (pl_todo p) = set (take ?k (pl_todo p)) \<union> set (drop ?k (pl_todo p))" by (metis append_take_drop_id set_append)
  then have "pool_hashes (fill_pool conc p) = pool_hashes p"
    by (auto simp: pool_hashes_def fill_pool_def Let_def image_Un enumerate_hashes simp del: set_map)
  then show "pool_inv C m H (fill_pool conc p)"
    using assms same held_cong [OF same(1)] fetch_inv_same [OF _ same(1)] by (simp add: pool_inv_def)
qed (simp_all add: fill_pool_def Let_def)

lemma run_task_spec:
  assumes "inv s" "accepts (sn_crates N)" "so_put S = put" "hash_wf (cr_hash ref)"
    and "run_task S N c (i, ref, q) s = (r, s')"
  shows "inv s' \<and> grows (cr_blake3 (sn_crates N)) (contents s) (contents s')
     \<and> (is_ok r \<longrightarrow> cr_hash ref \<in> dom (contents s'))"
proof (cases "fetch_one_chunk N q (store_key (yc_store_prefix c) Blake3 (cr_hash ref)) (cr_hash ref)
               (Some (cr_len ref)) MAX_UNPACKED")
  case (Inl e)
  then show ?thesis using assms by (auto simp: run_task_def)
next
  case (Inr br)
  obtain b rej where br: "br = (b, rej)" by (cases br)
  then have "good_chunk (sn_crates N) (cr_hash ref) b"
    using Inr assms(4)
    by (auto simp: fetch_one_chunk_def good_chunk_def split: sum.splits dest: chunk_replies_verified)
  then have g: "good (cr_hash ref) b" "cr_blake3 (sn_crates N) b = cr_hash ref"
    using assms(2) by (simp_all add: accepts_def) (simp add: good_chunk_def)
  obtain x s1 where p: "put s (cr_hash ref) b = (x, s1)" by (meson surj_pair)
  show ?thesis
  proof (cases x)
    case (Inl e)
    then show ?thesis using assms(1,3,5) Inr br p put_Inl [of s "cr_hash ref" b e s1] \<open>fetch_one_chunk _ _ _ _ _ _ = _\<close>
      by (auto simp: run_task_def)
  next
    case (Inr u)
    then have "inv s1" "contents s1 = (contents s)(cr_hash ref \<mapsto> b)"
      using put_Inr [OF assms(1) g(1), of s1] p by auto
    then show ?thesis
      using assms(3,5) br p Inr \<open>fetch_one_chunk _ _ _ _ _ _ = _\<close> grows_update [of "cr_blake3 (sn_crates N)", OF g(2)]
      by (auto simp: run_task_def)
  qed
qed

lemma pool_run_inv:
  assumes "pool_inv (sn_crates N) m H p" "accepts (sn_crates N)" "so_put S = put"
  shows "pool_inv (sn_crates N) m H (pool_run S N c k p)"
proof (cases "k < length (pl_running p)")
  case True
  let ?C = "sn_crates N"
  obtain i ref q where t: "pl_running p ! k = (i, ref, q)" by (metis prod_cases3)
  obtain r s where rt: "run_task S N c (i, ref, q) (fm_store (pl_fetch p)) = (r, s)" by (meson surj_pair)
  let ?p' = "pool_run S N c k p"
  have split: "set (pl_running p) = insert (i, ref, q) (set (take k (pl_running p) @ drop (Suc k) (pl_running p)))"
    using t True id_take_nth_drop [OF True] by (metis Un_insert_right list.simps(15) set_append)
  have p': "pl_todo ?p' = pl_todo p" "pl_running ?p' = take k (pl_running p) @ drop (Suc k) (pl_running p)"
    "pl_ready ?p' = pl_ready p @ [r]" "fm_store (pl_fetch ?p') = s"
    using True t rt by (simp_all add: pool_run_def)
  have hashes: "pool_hashes p = insert (cr_hash ref) (pool_hashes ?p')"
    by (simp add: pool_hashes_def split p'(1) del: set_append) (simp add: p'(2))
  have "inv (fm_store (pl_fetch p))" "hash_wf (cr_hash ref)" "fetch_inv ?C m (pl_fetch p)"
    using assms(1) hashes by (simp_all add: pool_inv_def fetch_inv_def)
  note spec = run_task_spec [OF this(1) assms(2,3) this(2) rt]
  have st: "fetch_inv ?C m (pl_fetch ?p') \<and> held (pl_fetch p) \<subseteq> held (pl_fetch ?p')"
    using spec \<open>fetch_inv ?C m (pl_fetch p)\<close> p'(4) by (intro fetch_inv_step) auto
  have "is_ok r \<Longrightarrow> cr_hash ref \<in> held (pl_fetch ?p')" using spec p'(4) by (simp add: held_def)
  then show ?thesis
    using assms(1) st hashes p'(3) by (cases r) (auto simp: pool_inv_def)
qed (simp add: pool_run_def assms(1))

lemma pool_loop_inv:
  assumes "pool_inv (sn_crates N) m H p" "accepts (sn_crates N)" "so_put S = put" "0 < yc_fetch_concurrency c"
    and "pool_loop S N c polls tot w events p = Some (r, f)"
  shows "fetch_inv (sn_crates N) m f \<and> (is_ok r \<longrightarrow> H \<subseteq> held f)"
  using assms
proof (induction S N c polls tot w events p rule: pool_loop.induct)
  case (1 S N c polls tot events p)
  let ?p1 = "fill_pool (yc_fetch_concurrency c) p"
  note p1 = fill_pool_inv [OF 1(2), of "yc_fetch_concurrency c"]
  obtain b f1 where pc: "poll_cancel polls (pl_fetch ?p1) = (b, f1)" by (meson surj_pair)
  note f1 = poll_cancel_store [OF pc]
  show ?case
  proof (cases "pl_running ?p1 = [] \<and> pl_ready ?p1 = []")
    case True
    then have "pl_running p = []" "pl_ready p = []" "enumerate 0 (take (yc_fetch_concurrency c) (pl_todo p)) = []"
      by (auto simp: fill_pool_def Let_def)
    then have "pl_todo p = []" using 1(5) length_enumerate by (metis length_0_conv not_less0 take_eq_Nil)
    then have "pl_todo ?p1 = []" by (simp add: fill_pool_def Let_def)
    then have "H \<subseteq> held (pl_fetch ?p1)" using p1(1) True by (auto simp: pool_inv_def pool_hashes_def)
    then show ?thesis using 1(6) True p1(1) by (auto simp: pool_inv_def)
  next
    case False
    show ?thesis
    proof (cases b)
      case True
      then have "cancel_with tot f1 = (r, f)" using 1(6) False pc by (simp add: Let_def)
      then have "fm_store f = fm_store (pl_fetch ?p1)" "\<not> is_ok r" using f1 by (auto simp: cancel_with_def)
      then show ?thesis using p1(1) fetch_inv_same by (auto simp: pool_inv_def)
    next
      case nb: False
      have "pool_inv (sn_crates N) m H (?p1\<lparr>pl_fetch := f1\<rparr>)"
        using p1(1) f1 held_cong [OF f1] fetch_inv_same [OF _ f1] by (simp add: pool_inv_def pool_hashes_def)
      moreover have "pool_loop S N c polls tot True events (?p1\<lparr>pl_fetch := f1\<rparr>) = Some (r, f)"
        using 1(6) False nb pc by (simp add: Let_def)
      ultimately show ?thesis using 1(1) [OF refl False pc [symmetric]] nb 1(3-5) by simp
    qed
  qed
next
  case (4 S N c polls tot k es p)
  then show ?case using pool_run_inv by simp
next
  case (5 S N c polls tot k es p)
  show ?case
  proof (cases "k < length (pl_ready p)")
    case True
    show ?thesis
    proof (cases "pl_ready p ! k")
      case (Inl e)
      then show ?thesis using 5 True by (auto simp: pool_inv_def)
    next
      case (Inr ilr)
      obtain i len rej where ilr: "ilr = (i, len, rej)" by (metis prod_cases3)
      let ?p' = "p\<lparr>pl_ready := take k (pl_ready p) @ drop (Suc k) (pl_ready p),
                   pl_fetch := count_fetched tot (of_nat i) len rej (pl_fetch p)\<rparr>"
      have same: "fm_store (pl_fetch ?p') = fm_store (pl_fetch p)" by simp
      have "set (pl_ready p) = insert (Inr ilr) (set (take k (pl_ready p) @ drop (Suc k) (pl_ready p)))"
        using Inr True id_take_nth_drop [OF True] by (metis Un_insert_right list.simps(15) set_append)
      then have "pool_inv (sn_crates N) m H ?p'"
        using 5(3) held_cong [OF same] fetch_inv_same [OF _ same]
        by (auto simp: pool_inv_def pool_hashes_def)
      then show ?thesis using 5(1) 5(4-) True Inr ilr by simp
    qed
  next
    case False
    then show ?thesis using 5 by simp
  qed
qed auto

lemma missing_covers:
  assumes "split_missing tot (zip [0..<length needed] (zip needed (map P needed))) f = (missing, f')"
  shows "\<forall>r \<in> set needed. P r \<or> (\<exists>i. (i, r) \<in> set missing)" "\<forall>(i, r) \<in> set missing. r \<in> set needed"
proof -
  let ?xs = "zip [0..<length needed] (zip needed (map P needed))"
  have m: "missing = map (\<lambda>(i, c, _). (i, c)) (filter (\<lambda>(_, _, p). \<not> p) ?xs)"
    using split_missing_spec [OF assms] by simp
  have in_xs: "(k, needed ! k, P (needed ! k)) \<in> set ?xs" if "k < length needed" for k
    using that by (auto simp: set_zip intro!: exI [of _ k])
  show "\<forall>r \<in> set needed. P r \<or> (\<exists>i. (i, r) \<in> set missing)"
  proof
    fix r assume "r \<in> set needed"
    then obtain k where "k < length needed" "needed ! k = r" by (auto simp: in_set_conv_nth)
    with in_xs [of k] show "P r \<or> (\<exists>i. (i, r) \<in> set missing)" by (force simp: m)
  qed
  show "\<forall>(i, r) \<in> set missing. r \<in> set needed"
  proof (clarsimp simp: m)
    fix i r p assume "(i, r, p) \<in> set ?xs"
    then show "r \<in> set needed" by (meson set_zip_rightD set_zip_leftD)
  qed
qed

text \<open>
  \<open>fetch_missing\<close>: whatever the outcome, the store is well formed and has only gained verified
  chunks; on Ok it has every chunk that was needed.
\<close>

lemma fetch_missing_inv:
  assumes "inv s" "accepts (sn_crates N)" "so_has S = has" "so_put S = put" "0 < yc_fetch_concurrency c"
    and wf: "\<forall>r \<in> set needed. hash_wf (cr_hash r)"
    and run: "fetch_missing S N c polls events n needed tot s = Some (r, f)"
  shows "fetch_inv (sn_crates N) (contents s) f \<and> (is_ok r \<longrightarrow> cr_hash ` set needed \<subseteq> held f)"
proof (cases "store_has_many has s (map cr_hash needed)")
  case (Inl e)
  then have "fm_store f = s" "\<not> is_ok r" using run assms(3) by (auto simp: fetch_missing_def fm_start_def)
  then show ?thesis using assms(1) by (simp add: fetch_inv_def)
next
  case (Inr presence)
  let ?C = "sn_crates N" and ?m = "contents s" and ?H = "cr_hash ` set needed"
  have pres: "presence = map (\<lambda>r. contents s (cr_hash r) \<noteq> None) needed"
    using has_many_Inr [OF assms(1) _ Inr] wf by simp
  obtain missing f0 where sm: "split_missing tot (zip [0..<length needed] (zip needed presence)) (fm_start n s) = (missing, f0)"
    by (meson surj_pair)
  note cover = missing_covers [OF sm [unfolded pres]]
  have st0: "fm_store f0 = s" using split_missing_spec [OF sm] by (simp add: fm_start_def)
  have inv0: "fetch_inv ?C ?m f0" using assms(1) st0 by (simp add: fetch_inv_def)
  have cov0: "\<forall>h \<in> ?H. h \<in> held f0 \<or> (\<exists>x \<in> set missing. cr_hash (snd x) = h)"
    using cover(1) st0 by (force simp: held_def)
  define rounds where "rounds = (if yc_batch_size c > 0 \<and> missing \<noteq> []
      then then_io (batch_rounds S N c polls tot (pieces_of (yc_batch_size c) missing) [] f0)
             (\<lambda>rest f1. case poll_cancel polls f1 of (cancelled, f2) \<Rightarrow>
                if cancelled then cancel_with tot f2 else (Inr rest, f2))
      else (Inr missing, f0))"
  obtain x f1 where x: "rounds = (x, f1)" by (meson surj_pair)
  have r1: "fetch_inv ?C ?m f1 \<and> held f0 \<subseteq> held f1 \<and> (\<forall>rest. x = Inr rest \<longrightarrow>
      set rest \<subseteq> set missing \<and> (\<forall>y \<in> set missing. cr_hash (snd y) \<in> held f1 \<or> y \<in> set rest))"
  proof (cases "yc_batch_size c > 0 \<and> missing \<noteq> []")
    case True
    obtain y f2 where br: "batch_rounds S N c polls tot (pieces_of (yc_batch_size c) missing) [] f0 = (y, f2)"
      by (meson surj_pair)
    note b = batch_rounds_inv [OF inv0 assms(2,4) br]
    obtain cn f3 where pc: "poll_cancel polls f2 = (cn, f3)" by (meson surj_pair)
    have "fm_store f1 = fm_store f2" "\<forall>rest. x = Inr rest \<longrightarrow> y = Inr rest"
      using x True br pc poll_cancel_store [OF pc]
      by (auto simp: rounds_def cancel_with_def split: if_splits dest!: then_io_Pair_cases)
    moreover have "concat (pieces_of (yc_batch_size c) missing) = missing" using True by (simp add: concat_pieces_of)
    ultimately show ?thesis
      using b fetch_inv_same[of ?C ?m f2 f1] held_cong[of f1 f2] by auto
  next
    case False
    then show ?thesis using x inv0 by (auto simp: rounds_def)
  qed
  show ?thesis
  proof (cases x)
    case (Inl e)
    then have "r = Inl e" "f = f1" using run Inr assms(3) sm x by (auto simp: fetch_missing_def rounds_def Let_def)
    then show ?thesis using r1 by simp
  next
    case (Inr rest)
    let ?p = "\<lparr>pl_todo = rest, pl_running = [], pl_ready = [], pl_fetch = f1\<rparr>"
    have loop: "pool_loop S N c polls tot False events ?p = Some (r, f)"
      using run \<open>store_has_many has s _ = _\<close> assms(3) sm x Inr by (simp add: fetch_missing_def rounds_def Let_def)
    have "?H \<subseteq> held f1 \<union> pool_hashes ?p"
      using cov0 r1 Inr by (force simp: pool_hashes_def case_prod_beta)
    moreover have "\<forall>h \<in> pool_hashes ?p. hash_wf h"
      using r1 Inr cover(2) wf by (auto simp: pool_hashes_def)
    ultimately have "pool_inv ?C ?m ?H ?p" using r1 by (simp add: pool_inv_def)
    from pool_loop_inv [OF this assms(2,4,5) loop] show ?thesis .
  qed
qed

text \<open>The bytes of a file: the chunks its entry names, in order, each checked by hash and length.\<close>

lemma assemble_file_sound:
  assumes "inv s" "so_get S = get" "hash_sound (cr_blake3 C) (contents s)" "\<forall>r \<in> set refs. hash_wf (cr_hash r)"
    and "assemble_file S out refs s = (Inr bs, s')"
  shows "\<exists>ps. pieces_match C refs ps \<and> map (\<lambda>b. of_nat (length b)) ps = map cr_len refs \<and> bs = out @ concat ps"
  using assms(4,5)
proof (induction refs arbitrary: out)
  case (Cons r rs)
  obtain x s1 where g: "get s (cr_hash r) = (x, s1)" by (meson surj_pair)
  then obtain b where b: "x = Inr (Some b)" "of_nat (length b) = cr_len r" "assemble_file S (out @ b) rs s1 = (Inr bs, s')"
    using Cons.prems(2) assms(2) by (auto split: sum.splits option.splits if_splits)
  then have "contents s (cr_hash r) = Some b" "s1 = s"
    using get_Inr [OF assms(1), of "cr_hash r" "Some b" s1] Cons.prems(1) g by auto
  then have "cr_blake3 C b = cr_hash r" using assms(3) by (simp add: hash_sound_def)
  moreover obtain ps where "pieces_match C rs ps" "map (\<lambda>b. of_nat (length b)) ps = map cr_len rs" "bs = (out @ b) @ concat ps"
    using Cons.IH [of "out @ b"] Cons.prems(1) b(3) \<open>s1 = s\<close> by auto
  ultimately show ?case using b(2) by (intro exI [of _ "b # ps"]) (simp add: pieces_match_def)
qed (simp add: pieces_match_def)

lemma file_chunks_refs: "file_chunks t path = Some refs \<Longrightarrow> set refs \<subseteq> set (all_refs (ti_entries t))"
proof -
  assume "file_chunks t path = Some refs"
  then obtain e where e: "tree_entry t path = Some e" "entry_refs e = refs"
  proof -
    obtain e where "tree_entry t path = Some e" "(case e of File _ _ _ _ cs \<Rightarrow> Some cs | _ \<Rightarrow> None) = Some refs"
      using \<open>file_chunks t path = Some refs\<close> by (auto simp: file_chunks_def bind_eq_Some_conv)
    then show ?thesis using that by (cases e) auto
  qed
  then have "e \<in> set (ti_entries t)" by (auto simp: tree_entry_def find_Some_iff)
  then show ?thesis using e(2) by (auto simp: all_refs_def)
qed

lemma fetch_file_sound:
  assumes "inv s" "accepts (sn_crates N)" "so_has S = has" "so_get S = get" "so_put S = put" "0 < yc_fetch_concurrency c"
    and "hash_sound (cr_blake3 (sn_crates N)) (contents s)"
    and wf: "\<And>t m r. fetch_index_matching N n c bid root = (Inr t, m) \<Longrightarrow> r \<in> set (all_refs (ti_entries t)) \<Longrightarrow> hash_wf (cr_hash r)"
    and run: "fetch_file S N c events n bid root path s = Some (Inr bs, s')"
  shows "\<exists>t m refs ps. fetch_index_matching N n c bid root = (Inr t, m) \<and> file_chunks t path = Some refs
     \<and> pieces_match (sn_crates N) refs ps \<and> map (\<lambda>b. of_nat (length b)) ps = map cr_len refs \<and> bs = concat ps"
proof -
  obtain t m where t: "fetch_index_matching N n c bid root = (Inr t, m)"
    using run by (auto simp: fetch_file_def split: prod.splits sum.splits)
  obtain refs where refs: "file_chunks t path = Some refs"
    using run t by (auto simp: fetch_file_def split: option.splits)
  obtain f where f: "fetch_missing S N c (\<lambda>_. False) events m refs (of_nat (length refs)) s = Some (Inr (), f)"
    and a: "assemble_file S [] refs (fm_store f) = (Inr bs, s')"
  proof (cases "fetch_missing S N c (\<lambda>_. False) events m refs (of_nat (length refs)) s")
    case None
    then show ?thesis using run t refs by (simp add: fetch_file_def split: if_splits)
  next
    case (Some rf)
    then show ?thesis
      using run t refs that by (cases rf; cases "fst rf") (simp_all add: fetch_file_def split: if_splits)
  qed
  have "set refs \<subseteq> set (all_refs (ti_entries t))"
    using refs by (rule file_chunks_refs)
  then have rwf: "\<forall>r \<in> set refs. hash_wf (cr_hash r)" using wf [OF t] by blast
  from fetch_missing_inv [OF assms(1-3,5,6) rwf f]
  have "inv (fm_store f)" "hash_sound (cr_blake3 (sn_crates N)) (contents (fm_store f))"
    using assms(7) by (auto simp: fetch_inv_def grows_def)
  from assemble_file_sound [OF this(1) assms(4) this(2) rwf a] t refs show ?thesis by auto
qed

end

section \<open>The pool ends\<close>

text \<open>Running and joining the first task over and over ends the pool, whatever the answers.\<close>

definition pool_size :: "'s pool \<Rightarrow> nat" where
  "pool_size p = length (pl_todo p) + length (pl_running p) + length (pl_ready p)"

lemma fill_pool_size [simp]: "pool_size (fill_pool conc p) = pool_size p"
  by (simp add: pool_size_def fill_pool_def Let_def)

lemma pool_run_ready:
  assumes "pl_running p \<noteq> [] \<or> pl_ready p \<noteq> []"
  shows "pl_ready (pool_run S N c 0 p) \<noteq> []" "pool_size (pool_run S N c 0 p) = pool_size p"
  using assms by (cases "pl_running p"; auto simp: pool_run_def pool_size_def split: prod.splits)+

lemma pool_loop_returns:
  "pool_size p \<le> k \<Longrightarrow> 0 < yc_fetch_concurrency c \<Longrightarrow>
   \<exists>out. pool_loop S N c polls tot False (concat (replicate k [Run 0, Join 0])) p = Some out"
proof (induction k arbitrary: p)
  case 0
  then show ?case by (simp add: pool_size_def fill_pool_def Let_def)
next
  case (Suc k)
  let ?p1 = "fill_pool (yc_fetch_concurrency c) p"
  obtain b f where pc: "poll_cancel polls (pl_fetch ?p1) = (b, f)" by (meson surj_pair)
  show ?case
  proof (cases "(pl_running ?p1 = [] \<and> pl_ready ?p1 = []) \<or> b")
    case True
    then show ?thesis using pc by (auto simp: Let_def)
  next
    case False
    let ?p2 = "pool_run S N c 0 (?p1\<lparr>pl_fetch := f\<rparr>)"
    have busy: "pl_running (?p1\<lparr>pl_fetch := f\<rparr>) \<noteq> [] \<or> pl_ready (?p1\<lparr>pl_fetch := f\<rparr>) \<noteq> []" using False by simp
    have p2: "pl_ready ?p2 \<noteq> []" "pool_size ?p2 = pool_size p"
      using pool_run_ready [OF busy, of S N c] fill_pool_size[of "yc_fetch_concurrency c" p]
      by (simp_all add: pool_size_def)
    show ?thesis
    proof (cases "pl_ready ?p2 ! 0")
      case (Inl e)
      then show ?thesis using False pc p2(1) by (simp add: Let_def)
    next
      case (Inr ilr)
      obtain i len rej where ilr: "ilr = (i, len, rej)" by (metis prod_cases3)
      let ?p3 = "?p2\<lparr>pl_ready := drop (Suc 0) (pl_ready ?p2),
                   pl_fetch := count_fetched tot (of_nat i) len rej (pl_fetch ?p2)\<rparr>"
      have "pool_size ?p3 \<le> k" using p2 Suc.prems(1) by (cases "pl_ready ?p2") (auto simp: pool_size_def)
      from Suc.IH [OF this Suc.prems(2)] show ?thesis using False pc p2(1) Inr ilr by (auto simp: Let_def)
    qed
  qed
qed

end
