(* ===== verification/Materialize_Props.thy ===== *)
theory Materialize_Props
  imports Materialize Tree_Client_Props
begin

text \<open>
  Materialization is confined: below the destination root it adds directories and replaces what
  is at the landing paths, everywhere else nothing changes, and no file that existed before is
  written to. When it succeeds, every file entry is there with the content its chunks name.
\<close>

section \<open>Plain paths\<close>

text \<open>A path all of whose proper prefixes are directories.\<close>

definition plain_parents :: "(abs_path \<rightharpoonup> fnode) \<Rightarrow> abs_path \<Rightarrow> bool" where
  "plain_parents nd p \<longleftrightarrow> (\<forall>k < length p. 0 < k \<longrightarrow> is_dir_node (nd (take k p)))"

lemma is_dir_node_iff: "is_dir_node x \<longleftrightarrow> (\<exists>m t. x = Some (FDir m t))"
  by (cases x rule: is_dir_node.cases) auto

lemma resolve_dirs:
  assumes "\<forall>k \<le> length ps. 0 < k \<longrightarrow> is_dir_node (nd (cur @ take k ps))"
  shows "resolve nd creating hops cur (map Normal ps @ cs) = resolve nd creating hops (cur @ ps) cs"
  using assms
proof (induction ps arbitrary: cur)
  case (Cons c ps)
  have "is_dir_node (nd (cur @ [c]))" using Cons.prems [rule_format, of 1] by simp
  then obtain m t where "nd (cur @ [c]) = Some (FDir m t)" by (auto simp: is_dir_node_iff)
  moreover have "\<forall>k \<le> length ps. 0 < k \<longrightarrow> is_dir_node (nd ((cur @ [c]) @ take k ps))"
  proof (intro allI impI)
    fix k assume "k \<le> length ps" "0 < k"
    then show "is_dir_node (nd ((cur @ [c]) @ take k ps))" using Cons.prems [rule_format, of "Suc k"] by simp
  qed
  ultimately show ?case using Cons.IH [of "cur @ [c]"] by simp
qed simp

lemma resolve_plain:
  assumes "plain_parents nd p" "p \<noteq> []"
  shows "resolve nd creating hops [] (map Normal p) = resolve nd creating hops (butlast p) [Normal (last p)]"
proof -
  have "\<forall>k \<le> length (butlast p). 0 < k \<longrightarrow> is_dir_node (nd ([] @ take k (butlast p)))"
    using assms by (auto simp: plain_parents_def take_butlast)
  from resolve_dirs [OF this, of creating hops "[Normal (last p)]"] show ?thesis
    using assms(2) by (metis append_Nil append_butlast_last_id list.simps(8,9) map_append)
qed

lemma resolve_all_dirs:
  "\<forall>k \<le> length p. 0 < k \<longrightarrow> is_dir_node (nd (take k p)) \<Longrightarrow> resolve nd creating hops [] (map Normal p) = Inr p"
  using resolve_dirs[of p nd "[]" creating hops "[]"] by simp

section \<open>Confined change\<close>

text \<open>
  \<open>extends root P fs fs'\<close>: outside the root nothing changed; directories are still directories;
  what was at a path outside \<open>P\<close> is still there; inodes that existed are untouched.
\<close>

definition extends :: "abs_path \<Rightarrow> abs_path set \<Rightarrow> fsys \<Rightarrow> fsys \<Rightarrow> bool" where
  "extends root P fs fs' \<longleftrightarrow>
     (\<forall>q. \<not> prefix root q \<longrightarrow> fs_nodes fs' q = fs_nodes fs q)
     \<and> (\<forall>q. is_dir_node (fs_nodes fs q) \<longrightarrow> is_dir_node (fs_nodes fs' q))
     \<and> (\<forall>q. q \<notin> P \<and> fs_nodes fs q \<noteq> None \<and> \<not> is_dir_node (fs_nodes fs q) \<longrightarrow> fs_nodes fs' q = fs_nodes fs q)
     \<and> (\<forall>i < fs_next fs. fs_inodes fs' i = fs_inodes fs i)
     \<and> fs_next fs \<le> fs_next fs' \<and> fs_fault fs' = fs_fault fs"

lemma extends_refl [simp]: "extends root P fs fs"
  by (simp add: extends_def)

lemma extends_trans:
  assumes "extends root P fs fs'" "extends root Q fs' fs''"
  shows "extends root (P \<union> Q) fs fs''"
proof -
  have "fs_nodes fs'' q = fs_nodes fs q"
    if "q \<notin> P \<union> Q" "fs_nodes fs q \<noteq> None" "\<not> is_dir_node (fs_nodes fs q)" for q
  proof -
    have "fs_nodes fs' q = fs_nodes fs q" using assms(1) that by (simp add: extends_def)
    then show ?thesis using assms(2) that by (simp add: extends_def)
  qed
  then show ?thesis using assms by (simp add: extends_def)
qed

lemma extends_mono: "extends root P fs fs' \<Longrightarrow> P \<subseteq> Q \<Longrightarrow> extends root Q fs fs'"
  by (auto simp: extends_def)

lemma extends_dirs: "extends root P fs fs' \<Longrightarrow> is_dir_node (fs_nodes fs q) \<Longrightarrow> is_dir_node (fs_nodes fs' q)"
  by (simp add: extends_def)

lemma extends_plain: "extends root P fs fs' \<Longrightarrow> plain_parents (fs_nodes fs) p \<Longrightarrow> plain_parents (fs_nodes fs') p"
  by (auto simp: plain_parents_def extends_dirs)

definition root_ok :: "abs_path \<Rightarrow> fsys \<Rightarrow> bool" where
  "root_ok root fs \<longleftrightarrow> (\<forall>k \<le> length root. is_dir_node (fs_nodes fs (take k root)))"

lemma extends_root: "extends root P fs fs' \<Longrightarrow> root_ok root fs \<Longrightarrow> root_ok root fs'"
  by (simp add: root_ok_def extends_dirs)

lemma extends_set_node:
  assumes "prefix root p" "p \<in> P" "\<not> is_dir_node (fs_nodes fs p)"
  shows "extends root P fs (set_node p x fs)"
  using assms by (auto simp: extends_def set_node_def)

lemma extends_new_dir:
  assumes "prefix root p" "fs_nodes fs p = None \<or> is_dir_node (fs_nodes fs p)"
  shows "extends root P fs (set_node p (Some (FDir m t)) fs)"
  using assms by (auto simp: extends_def set_node_def)

lemma create_dir_confined_extends:
  assumes "prefix root cur" "\<forall>k \<le> length cur. is_dir_node (fs_nodes fs (take k cur))"
    and "create_dir_confined fs cur cs = (r, fs')"
  shows "extends root P fs fs'
     \<and> (is_ok r \<longrightarrow> r = Inr (cur @ cs) \<and> (\<forall>k \<le> length (cur @ cs). is_dir_node (fs_nodes fs' (take k (cur @ cs)))))"
  using assms
proof (induction cs arbitrary: fs cur)
  case (Cons c cs)
  let ?p = "cur @ [c]"
  have all: "\<forall>k \<le> length ?p. is_dir_node (fs_nodes fs1 (take k ?p))"
    if "extends root P fs fs1" "is_dir_node (fs_nodes fs1 ?p)" for fs1
    using that Cons.prems(2) extends_dirs [OF that(1)] by (auto simp: le_Suc_eq)
  have pr: "prefix root ?p" using Cons.prems(1) by simp
  show ?case
  proof (cases "fs_nodes fs ?p")
    case None
    obtain x fs1 where mk: "mkdir fs ?p = (x, fs1)" by (meson surj_pair)
    show ?thesis
    proof (cases x)
      case (Inl e)
      then show ?thesis using Cons.prems(3) None mk by (auto simp: mkdir_def split: option.splits)
    next
      case (Inr u)
      then have fs1: "extends root P fs fs1" "is_dir_node (fs_nodes fs1 ?p)"
        using mk None pr extends_new_dir[of root ?p fs] by (auto simp: mkdir_def set_node_def split: option.splits)
      have "create_dir_confined fs1 ?p cs = (r, fs')" using Cons.prems(3) None mk Inr by simp
      from Cons.IH [OF pr all [OF fs1] this] show ?thesis
        using extends_trans [OF fs1(1), of P fs'] by auto
    qed
  next
    case (Some x)
    then show ?thesis
      using Cons.prems(3) Cons.IH [OF pr all, of fs] by (cases x) auto
  qed
qed auto

definition unlink_works :: "fsys \<Rightarrow> bool" where
  "unlink_works fs \<longleftrightarrow> (\<forall>p. fs_fault fs (OpUnlink p) = None)"

lemma extends_unlink: "extends root P fs fs' \<Longrightarrow> unlink_works fs \<Longrightarrow> unlink_works fs'"
  by (simp add: extends_def unlink_works_def)

lemma remove_existing_extends:
  assumes "\<not> mp_replace_directories pol" "unlink_works fs" "prefix root p" "p \<in> P"
    and "remove_existing fs p pol = (r, fs')"
  shows "extends root P fs fs' \<and> (is_ok r \<longrightarrow> fs_nodes fs' p = None)"
proof (cases "fs_nodes fs p")
  case None
  then show ?thesis using assms(5) by (auto simp: remove_existing_def)
next
  case (Some x)
  then show ?thesis
    using assms extends_set_node[of root p P fs None]
    by (cases x) (auto simp: remove_existing_def unlink_works_def set_node_def)
qed

lemma prepare_path_extends:
  assumes "root_ok root fs" "rel \<noteq> []" "prepare_path root rel fs = (r, fs')"
  shows "extends root P fs fs' \<and> (is_ok r \<longrightarrow> plain_parents (fs_nodes fs') (root @ rel))"
proof -
  obtain x fs1 where c: "create_dir_confined fs root (butlast rel) = (x, fs1)" by (meson surj_pair)
  have "\<forall>k \<le> length root. is_dir_node (fs_nodes fs (take k root))" using assms(1) by (simp add: root_ok_def)
  note e = create_dir_confined_extends [OF prefix_order.refl this c]
  have "fs' = fs1" "is_ok r \<longrightarrow> is_ok x" using assms(3) c by (cases x; auto simp: prepare_path_def)+
  moreover have "plain_parents (fs_nodes fs1) (root @ rel)"
    if "\<forall>k \<le> length (root @ butlast rel). is_dir_node (fs_nodes fs1 (take k (root @ butlast rel)))"
    unfolding plain_parents_def
  proof (intro allI impI)
    fix k assume k: "k < length (root @ rel)" "0 < k"
    then have "k - length root < length rel" using assms(2) by (cases rel) auto
    then have "k \<le> length (root @ butlast rel)" "take k (root @ rel) = take k (root @ butlast rel)"
      using k by (auto simp: take_butlast)
    then show "is_dir_node (fs_nodes fs1 (take k (root @ rel)))" using that by simp
  qed
  ultimately show ?thesis using e by blast
qed

section \<open>Files\<close>

definition chunks_match :: "(bytes \<Rightarrow> hash) \<Rightarrow> chunk_ref list \<Rightarrow> bytes list \<Rightarrow> bool" where
  "chunks_match blake3 = list_all2 (\<lambda>c b. blake3 b = cr_hash c \<and> of_nat (length b) = cr_len c)"

definition with_data :: "fsys \<Rightarrow> nat \<Rightarrow> bytes \<Rightarrow> fsys" where
  "with_data fs i d = fs\<lparr>fs_inodes := (fs_inodes fs)(i := (fs_inodes fs i)\<lparr>in_data := d\<rparr>)\<rparr>"

lemma with_data_simps [simp]:
  "fs_nodes (with_data fs i d) = fs_nodes fs" "fs_next (with_data fs i d) = fs_next fs"
  "fs_fault (with_data fs i d) = fs_fault fs" "in_data (fs_inodes (with_data fs i d) i) = d"
  "j \<noteq> i \<Longrightarrow> fs_inodes (with_data fs i d) j = fs_inodes fs j"
  "with_data (with_data fs i d) i d' = with_data fs i d'"
  by (simp_all add: with_data_def)

lemma with_data_same: "with_data fs i (in_data (fs_inodes fs i)) = fs"
  by (simp add: with_data_def)

lemma append_data_cases:
  assumes "append_data fs p i b = (x, fs1)"
  shows "(\<exists>e. x = Inl e \<and> fs1 = fs) \<or> (x = Inr () \<and> fs1 = with_data fs i (in_data (fs_inodes fs i) @ b))"
  using assms by (auto simp: append_data_def with_data_def split: option.splits)

lemma write_chunks_data:
  assumes "write_chunks get blake3 p i written chunks (fs, s) = (r, fs', s')"
  shows "\<exists>d. fs' = with_data fs i d \<and> (is_ok r \<longrightarrow> (\<exists>ps. chunks_match blake3 chunks ps \<and> d = in_data (fs_inodes fs i) @ concat ps))"
  using assms
proof (induction chunks arbitrary: written fs s)
  case Nil
  then show ?case by (intro exI [of _ "in_data (fs_inodes fs i)"]) (auto simp: with_data_same chunks_match_def)
next
  case (Cons c cs)
  have stop: ?case if "fs' = fs" "\<not> is_ok r"
    using that by (intro exI [of _ "in_data (fs_inodes fs i)"]) (simp add: with_data_same)
  obtain x s1 where g: "get s (cr_hash c) = (x, s1)" by (meson surj_pair)
  show ?case
  proof (cases "\<exists>b. x = Inr (Some b) \<and> of_nat (length b) = cr_len c \<and> blake3 b = cr_hash c")
    case False
    then show ?thesis using Cons.prems g stop by (auto split: sum.splits option.splits if_splits)
  next
    case True
    then obtain b where b: "x = Inr (Some b)" "of_nat (length b) = cr_len c" "blake3 b = cr_hash c" by blast
    obtain y fs1 where a: "append_data fs p i b = (y, fs1)" by (meson surj_pair)
    from append_data_cases [OF a] show ?thesis
    proof
      assume "\<exists>e. y = Inl e \<and> fs1 = fs"
      then show ?thesis using Cons.prems g b a stop by auto
    next
      assume y: "y = Inr () \<and> fs1 = with_data fs i (in_data (fs_inodes fs i) @ b)"
      then have "write_chunks get blake3 p i (written + of_nat (length b)) cs (fs1, s1) = (r, fs', s')"
        using Cons.prems g b a by simp
      from Cons.IH [OF this] y obtain d where d: "fs' = with_data fs i d"
        "is_ok r \<longrightarrow> (\<exists>ps. chunks_match blake3 cs ps \<and> d = (in_data (fs_inodes fs i) @ b) @ concat ps)" by auto
      have "\<exists>ps. chunks_match blake3 (c # cs) ps \<and> d = in_data (fs_inodes fs i) @ concat ps" if ok: "is_ok r"
      proof -
        obtain ps where "chunks_match blake3 cs ps" "d = (in_data (fs_inodes fs i) @ b) @ concat ps" using d(2) ok by blast
        then show ?thesis using b by (intro exI [of _ "b # ps"]) (simp add: chunks_match_def)
      qed
      then show ?thesis using d(1) by blast
    qed
  qed
qed

text \<open>A file at a path, holding what its chunks name.\<close>

definition file_at :: "(bytes \<Rightarrow> hash) \<Rightarrow> fsys \<Rightarrow> abs_path \<Rightarrow> chunk_ref list \<Rightarrow> bool" where
  "file_at blake3 fs p chunks \<longleftrightarrow>
     (\<exists>i ps. fs_nodes fs p = Some (FFile i) \<and> i < fs_next fs \<and> chunks_match blake3 chunks ps
        \<and> in_data (fs_inodes fs i) = concat ps)"

lemma file_at_extends: "file_at blake3 fs p chunks \<Longrightarrow> extends root P fs fs' \<Longrightarrow> p \<notin> P \<Longrightarrow> file_at blake3 fs' p chunks"
proof -
  assume a: "file_at blake3 fs p chunks" "extends root P fs fs'" "p \<notin> P"
  then obtain i ps where i: "fs_nodes fs p = Some (FFile i)" "i < fs_next fs" "chunks_match blake3 chunks ps"
    "in_data (fs_inodes fs i) = concat ps" by (auto simp: file_at_def)
  then have "fs_nodes fs' p = Some (FFile i)" "i < fs_next fs'" "fs_inodes fs' i = fs_inodes fs i"
    using a(2,3) by (auto simp: extends_def)
  then show ?thesis using i by (auto simp: file_at_def)
qed

text \<open>Metadata of a file at a plain path: only the inode of that file changes, and not its data.\<close>

lemma set_mode_file:
  assumes "plain_parents (fs_nodes fs) p" "p \<noteq> []" "fs_nodes fs p = Some (FFile i)"
  shows "\<exists>m. set_mode fs p mode pol = fs\<lparr>fs_inodes := (fs_inodes fs)(i := (fs_inodes fs i)\<lparr>in_mode := m\<rparr>)\<rparr>"
proof -
  have "canonicalize fs p = Inr p"
    using assms by (simp add: canonicalize_def resolve_plain)
  then show ?thesis
    using assms(3) by (cases "(if mp_restore_setid pol then mode AND 0xFFF else mode AND MODE_MASK) = 0")
      (auto simp: set_mode_def Let_def chmod_def intro: exI [of _ "in_mode (fs_inodes fs i)"])
qed

lemma put_file_extends:
  assumes "\<not> mp_replace_directories pol" "unlink_works fs" "prefix root p" "p \<noteq> []" "plain_parents (fs_nodes fs) p"
    and "put_file get blake3 pol p mode mtime sz chunks (fs, s) = (r, fs', s')"
  shows "extends root {p} fs fs' \<and> (is_ok r \<longrightarrow> file_at blake3 fs' p chunks)"
proof -
  obtain x fs1 where rm: "remove_existing fs p pol = (x, fs1)" by (meson surj_pair)
  note e1 = remove_existing_extends [OF assms(1-3) _ rm, of "{p}", simplified]
  show ?thesis
  proof (cases "\<exists>u. x = Inr u \<and> fs_fault fs1 (OpOpen p) = None")
    case False
    then show ?thesis using assms(6) rm e1
      by (cases x) (auto simp: put_file_def open_create_def split: option.splits)
  next
    case True
    then have x: "x = Inr ()" "fs_fault fs1 (OpOpen p) = None" "fs_nodes fs1 p = None" using e1 by auto
    have pl1: "plain_parents (fs_nodes fs1) p" using extends_plain e1 assms(5) by blast
    then have "resolve (fs_nodes fs1) True MAX_LINKS [] (map Normal p) = Inr p"
      using assms(4) x(3) by (simp add: resolve_plain)
    then obtain fs2 where op: "open_create fs1 p = (Inr (fs_next fs1), fs2)"
      and fs2: "fs_nodes fs2 = (fs_nodes fs1)(p \<mapsto> FFile (fs_next fs1))" "fs_next fs2 = Suc (fs_next fs1)"
        "in_data (fs_inodes fs2 (fs_next fs1)) = []" "\<forall>j. j \<noteq> fs_next fs1 \<longrightarrow> fs_inodes fs2 j = fs_inodes fs1 j"
        "fs_fault fs2 = fs_fault fs1"
      using x(2,3) by (auto simp: open_create_def)
    let ?i = "fs_next fs1"
    obtain y fs3 s3 where wc: "write_chunks get blake3 p ?i 0 chunks (fs2, s) = (y, fs3, s3)" by (metis prod_cases3)
    from write_chunks_data [OF wc] obtain d where d: "fs3 = with_data fs2 ?i d"
      "is_ok y \<longrightarrow> (\<exists>ps. chunks_match blake3 chunks ps \<and> d = concat ps)" using fs2(3) by auto
    have pl3: "plain_parents (fs_nodes fs3) p" using pl1 d(1) fs2(1) by (auto simp: plain_parents_def)
    obtain m where sm: "set_mode fs3 p mode pol = fs3\<lparr>fs_inodes := (fs_inodes fs3)(?i := (fs_inodes fs3 ?i)\<lparr>in_mode := m\<rparr>)\<rparr>"
      using set_mode_file [OF pl3 assms(4)] d(1) fs2(1) by fastforce
    have g: "fs_nodes (set_mode fs3 p mode pol) = fs_nodes fs2" "fs_next (set_mode fs3 p mode pol) = fs_next fs2"
      "fs_fault (set_mode fs3 p mode pol) = fs_fault fs1" "in_data (fs_inodes (set_mode fs3 p mode pol) ?i) = d"
      "\<forall>j. j \<noteq> ?i \<longrightarrow> fs_inodes (set_mode fs3 p mode pol) j = fs_inodes fs1 j"
      unfolding sm using fs2(4,5) d(1) by simp_all
    have ext3: "extends root {p} fs1 g" if "fs_nodes g = fs_nodes fs2" "fs_next g = fs_next fs2" "fs_fault g = fs_fault fs1"
      "\<forall>j. j \<noteq> ?i \<longrightarrow> fs_inodes g j = fs_inodes fs1 j" for g
      using that fs2 x(3) assms(3) by (auto simp: extends_def)
    have out: "fs_nodes fs' = fs_nodes fs2 \<and> fs_next fs' = fs_next fs2 \<and> fs_fault fs' = fs_fault fs1
        \<and> (\<forall>j. j \<noteq> ?i \<longrightarrow> fs_inodes fs' j = fs_inodes fs1 j) \<and> in_data (fs_inodes fs' ?i) = d \<and> (is_ok r \<longrightarrow> is_ok y)"
    proof (cases y)
      case (Inl e)
      then show ?thesis using assms(6) rm x(1) op wc d(1) fs2 by (auto simp: put_file_def)
    next
      case (Inr written)
      show ?thesis
      proof (cases "written = sz")
        case True
        then have "fs' = set_mtime (set_mode fs3 p mode pol) ?i mtime"
          using assms(6) rm x(1) op wc Inr by (auto simp: put_file_def)
        then show ?thesis using g Inr by (simp add: set_mtime_def)
      next
        case False
        then have "fs' = fs3" "\<not> is_ok r" using assms(6) rm x(1) op wc Inr by (auto simp: put_file_def)
        then show ?thesis using d(1) fs2(4,5) by simp
      qed
    qed
    then have "extends root {p} fs1 fs'" by (intro ext3) auto
    then have "extends root {p} fs fs'" using extends_trans e1 by (metis Un_absorb)
    moreover have "file_at blake3 fs' p chunks" if "is_ok r"
      using out d(2) that fs2(1,2) by (auto simp: file_at_def)
    ultimately show ?thesis by blast
  qed
qed

lemma put_hardlink_extends:
  assumes "\<not> mp_replace_directories pol" "unlink_works fs" "prefix root p" "put_hardlink pol root p t fs = (r, fs')"
  shows "extends root {p} fs fs'"
proof (cases "\<exists>canon i. canonicalize fs t = Inr canon \<and> fs_nodes fs canon = Some (FFile i) \<and> prefix root canon")
  case False
  then show ?thesis using assms(4)
    by (auto simp: put_hardlink_def split: sum.splits option.splits fnode.splits if_splits)
next
  case True
  then obtain canon i where c: "canonicalize fs t = Inr canon" "fs_nodes fs canon = Some (FFile i)" "prefix root canon"
    by blast
  obtain x fs1 where rm: "remove_existing fs p pol = (x, fs1)" by (meson surj_pair)
  note e1 = remove_existing_extends [OF assms(1-3) _ rm, of "{p}", simplified]
  show ?thesis
  proof (cases "fs' = fs1")
    case True
    then show ?thesis using e1 by simp
  next
    case False
    then obtain j where "fs' = set_node p (Some (FFile j)) fs1" "fs_nodes fs1 p = None"
      using assms(4) c rm by (auto simp: put_hardlink_def then_io_def split: sum.splits option.splits fnode.splits if_splits)
    then have "extends root {p} fs1 fs'" using extends_set_node[of root p "{p}" fs1] assms(3) by simp
    then show ?thesis using extends_trans e1 by (metis Un_absorb)
  qed
qed

section \<open>The passes\<close>

definition landings :: "abs_path \<Rightarrow> entry list \<Rightarrow> abs_path set" where
  "landings root es = (\<lambda>e. root @ landing e) ` set es"

text \<open>What every pass keeps: a confined change, a usable root, working removal.\<close>

definition confined :: "abs_path \<Rightarrow> abs_path set \<Rightarrow> fsys \<Rightarrow> fsys \<Rightarrow> bool" where
  "confined root P fs fs' \<longleftrightarrow> extends root P fs fs' \<and> root_ok root fs' \<and> unlink_works fs'"

lemma confinedI: "extends root P fs fs' \<Longrightarrow> root_ok root fs \<Longrightarrow> unlink_works fs \<Longrightarrow> confined root P fs fs'"
  by (simp add: confined_def extends_root extends_unlink)

lemma confined_trans: "confined root P fs fs' \<Longrightarrow> confined root Q fs' fs'' \<Longrightarrow> confined root (P \<union> Q) fs fs''"
  unfolding confined_def using extends_trans by blast

lemma landing_Inr: "sanitize_rel_path (entry_path e) = Inr rel \<Longrightarrow> landing e = rel \<and> rel \<noteq> []"
  using sanitize_rel_path_Inr [THEN conjunct1, of "entry_path e" rel] by (simp add: landing_def)

lemma pass_files_confined:
  assumes "\<not> mp_replace_directories pol" "root_ok root fs" "unlink_works fs"
    and "pass_files get blake3 pol root e (fs, s) = (r, fs', s')"
  shows "extends root {root @ landing e} fs fs'
     \<and> (\<forall>path mode mtime sz chunks. is_ok r \<and> e = File path mode mtime sz chunks \<longrightarrow> file_at blake3 fs' (root @ landing e) chunks)"
proof (cases "sanitize_rel_path (entry_path e)")
  case (Inl x)
  then show ?thesis using assms(4) by (cases e) (auto simp: pass_files_def)
next
  case (Inr rel)
  note l = landing_Inr [OF Inr]
  have pr: "prefix root (root @ rel)" "root @ rel \<noteq> []" using l by auto
  show ?thesis
  proof (cases e)
    case (File path mode mtime sz chunks)
    obtain x fs1 where pp: "prepare_path root rel fs = (x, fs1)" by (meson surj_pair)
    note e1 = prepare_path_extends [OF assms(2) conjunct2 [OF l] pp, of "{root @ rel}"]
    show ?thesis
    proof (cases x)
      case (Inl y)
      then show ?thesis using assms(4) File Inr l pp e1 by (auto simp: pass_files_def on_files_def)
    next
      case (Inr u)
      then have "put_file get blake3 pol (root @ rel) mode mtime sz chunks (fs1, s) = (r, fs', s')"
        using assms(4) File l pp \<open>sanitize_rel_path _ = _\<close> by (simp add: pass_files_def on_files_def)
      note run = this
      have "unlink_works fs1" "plain_parents (fs_nodes fs1) (root @ rel)"
        using e1 Inr assms(3) extends_unlink by auto
      from put_file_extends [OF assms(1) this(1) pr this(2) run] show ?thesis using extends_trans e1 File l by (metis Un_absorb entry.inject(2))
    qed
  next
    case (Hardlink path target)
    obtain x fs1 where c: "create_dir_confined fs root (butlast rel) = (x, fs1)" by (meson surj_pair)
    have "\<forall>k \<le> length root. is_dir_node (fs_nodes fs (take k root))" using assms(2) by (simp add: root_ok_def)
    note e1 = create_dir_confined_extends [OF prefix_order.refl this c, of "{root @ rel}"]
    have "fs' = fs1 \<or> (\<exists>t. put_hardlink pol root (root @ rel) (root @ t) fs1 = (r, fs'))"
      using assms(4) Hardlink Inr c
      by (cases x) (auto simp: pass_files_def on_files_def split: sum.splits prod.splits)
    then have "extends root {root @ rel} fs1 fs'"
      using put_hardlink_extends [OF assms(1) extends_unlink [OF conjunct1 [OF e1] assms(3)] pr(1)] by auto
    then show ?thesis using extends_trans e1 Hardlink l by (metis Un_absorb entry.distinct(9))
  qed (use assms(4) in \<open>auto simp: pass_files_def\<close>)
qed

lemma pass_dirs_confined:
  assumes "root_ok root fs" "pass_dirs root e fs = (r, fs')"
  shows "extends root P fs fs' \<and> (\<forall>path mode mtime. is_ok r \<and> e = Dir path mode mtime \<longrightarrow>
     (\<forall>k \<le> length (root @ landing e). is_dir_node (fs_nodes fs' (take k (root @ landing e)))))"
proof (cases e)
  case (Dir path mode mtime)
  show ?thesis
  proof (cases "sanitize_rel_path path")
    case (Inl x)
    then show ?thesis using assms(2) Dir by (auto simp: pass_dirs_def)
  next
    case (Inr rel)
    then have l: "landing e = rel" using landing_Inr[of e rel] Dir by simp
    obtain x fs1 where c: "create_dir_confined fs root rel = (x, fs1)" by (meson surj_pair)
    have "\<forall>k \<le> length root. is_dir_node (fs_nodes fs (take k root))" using assms(1) by (simp add: root_ok_def)
    note e1 = create_dir_confined_extends [OF prefix_order.refl this c, of P]
    have "fs' = fs1" "is_ok r \<longrightarrow> is_ok x" using assms(2) Dir Inr c by (cases x; auto simp: pass_dirs_def)+
    then show ?thesis using e1 l by blast
  qed
qed (use assms(2) in \<open>auto simp: pass_dirs_def\<close>)

lemma pass_links_confined:
  assumes "\<not> mp_replace_directories pol" "root_ok root fs" "unlink_works fs" "pass_links pol root e fs = (r, fs')"
  shows "extends root {root @ landing e} fs fs'"
proof (cases e)
  case (Symlink path target)
  show ?thesis
  proof (cases "and_then (sanitize_rel_path path) (\<lambda>rel. and_then (sanitize_symlink_target rel target) (\<lambda>_. Inr rel))")
    case (Inl x)
    then show ?thesis using assms(4) Symlink by (auto simp: pass_links_def)
  next
    case (Inr rel)
    then have l: "landing e = rel" "rel \<noteq> []"
      using landing_Inr[of e rel] Symlink by (auto simp: and_then_Inr)
    let ?p = "root @ rel"
    obtain x fs1 where pp: "prepare_path root rel fs = (x, fs1)" by (meson surj_pair)
    note e1 = prepare_path_extends [OF assms(2) l(2) pp, of "{?p}"]
    obtain y fs2 where rm: "remove_existing fs1 ?p pol = (y, fs2)" by (meson surj_pair)
    have "unlink_works fs1" using e1 assms(3) extends_unlink by blast
    note e2 = remove_existing_extends [OF assms(1) this _ _ rm, of root "{?p}", simplified]
    have e12: "extends root {?p} fs fs2" using extends_trans e1 e2 by (metis Un_absorb)
    have "fs' = fs1 \<or> fs' = fs2 \<or> (fs_nodes fs2 ?p = None \<and> fs' = set_node ?p (Some (FLink target)) fs2)"
      using assms(4) Symlink Inr pp rm by (cases x; cases y) (auto simp: pass_links_def split: option.splits)
    moreover have "extends root {?p} fs2 (set_node ?p (Some (FLink target)) fs2)" if "fs_nodes fs2 ?p = None"
      using that extends_set_node[of root ?p "{?p}" fs2] by simp
    ultimately show ?thesis using e1 e12 l extends_trans by (metis Un_absorb)
  qed
qed (use assms(4) in \<open>auto simp: pass_links_def\<close>)

text \<open>Loops of confined steps. The landing paths of the entries are distinct, as validation checks.\<close>

lemma try_each_confined:
  assumes step: "\<And>e w r w'. root_ok root (g w) \<Longrightarrow> unlink_works (g w) \<Longrightarrow> f e w = (r, w') \<Longrightarrow>
      extends root {root @ landing e} (g w) (g w')
      \<and> (is_ok r \<longrightarrow> Q e (g w'))"
    and keep: "\<And>e fs fs' P. Q e fs \<Longrightarrow> extends root P fs fs' \<Longrightarrow> root @ landing e \<notin> P \<Longrightarrow> Q e fs'"
    and start: "root_ok root (g w)" "unlink_works (g w)" "distinct (map landing es)"
    and run: "try_each f es w = (r, w')"
  shows "confined root (landings root es) (g w) (g w') \<and> (is_ok r \<longrightarrow> (\<forall>e \<in> set es. Q e (g w')))"
  using start run
proof (induction es arbitrary: w)
  case Nil
  then show ?case by (auto simp: landings_def intro: confinedI)
next
  case (Cons e es)
  obtain x w1 where f1: "f e w = (x, w1)" by (meson surj_pair)
  note s1 = step [OF Cons.prems(1,2) f1]
  have c1: "confined root {root @ landing e} (g w) (g w1)" using s1 Cons.prems(1,2) by (auto intro: confinedI)
  show ?case
  proof (cases x)
    case (Inl y)
    then have "w' = w1" "\<not> is_ok r" using Cons.prems(4) f1 by auto
    moreover have "extends root (landings root (e # es)) (g w) (g w1)"
      using s1 by (auto simp: landings_def intro: extends_mono)
    ultimately show ?thesis using Cons.prems(1,2) by (auto intro: confinedI)
  next
    case (Inr u)
    have "try_each f es w1 = (r, w')" "distinct (map landing es)" using Cons.prems(3,4) f1 Inr by auto
    note rest = Cons.IH [OF _ _ this(2) this(1)]
    have ok1: "root_ok root (g w1)" "unlink_works (g w1)" using c1 by (auto simp: confined_def)
    note r1 = rest [OF ok1]
    have "confined root (landings root (e # es)) (g w) (g w')"
      using confined_trans [OF c1 conjunct1 [OF r1]] by (simp add: landings_def)
    moreover have "Q e (g w')" if "is_ok r"
    proof -
      have "root @ landing e \<notin> landings root es" using Cons.prems(3) by (auto simp: landings_def)
      then show ?thesis using keep s1 Inr r1 by (auto simp: confined_def)
    qed
    ultimately show ?thesis using r1 by auto
  qed
qed

text \<open>The last pass touches only directories that the first one made or found.\<close>

definition dir_ready :: "abs_path \<Rightarrow> entry \<Rightarrow> fsys \<Rightarrow> bool" where
  "dir_ready root e fs \<longleftrightarrow> (\<forall>path mode mtime. e = Dir path mode mtime \<longrightarrow>
     (\<forall>k \<le> length (root @ landing e). is_dir_node (fs_nodes fs (take k (root @ landing e)))))"

lemma dir_ready_extends: "dir_ready root e fs \<Longrightarrow> extends root P fs fs' \<Longrightarrow> dir_ready root e fs'"
  unfolding dir_ready_def using extends_dirs by blast

lemma dir_meta_node:
  assumes "prefix root p" "\<forall>k \<le> length p. is_dir_node (fs_nodes fs (take k p))"
  shows "extends root P fs (chmod fs p m)" "extends root P fs (touch_dir fs p t)"
proof -
  have c: "canonicalize fs p = Inr p" using assms(2) by (simp add: canonicalize_def resolve_all_dirs)
  have "is_dir_node (fs_nodes fs p)" using assms(2) [rule_format, of "length p"] by simp
  then obtain m0 t0 where n: "fs_nodes fs p = Some (FDir m0 t0)" by (auto simp: is_dir_node_iff)
  then show "extends root P fs (chmod fs p m)" "extends root P fs (touch_dir fs p t)"
    using c assms(1) extends_new_dir[of root p fs P] by (simp_all add: chmod_def touch_dir_def)
qed

lemma pass_dir_meta_extends:
  assumes "dir_ready root e fs"
  shows "extends root {} fs (pass_dir_meta pol root e fs)"
proof (cases e)
  case (Dir path mode mtime)
  show ?thesis
  proof (cases "sanitize_rel_path path")
    case (Inl x)
    then show ?thesis using Dir by (simp add: pass_dir_meta_def)
  next
    case (Inr rel)
    then have l: "landing e = rel" using landing_Inr[of e rel] Dir by simp
    let ?p = "root @ rel" and ?fs1 = "if mtime > 0 then touch_dir fs (root @ rel) mtime else fs"
    have d: "\<forall>k \<le> length ?p. is_dir_node (fs_nodes fs (take k ?p))" using assms Dir l by (simp add: dir_ready_def)
    have e1: "extends root {} fs ?fs1" using dir_meta_node(2) [OF _ d, of root "{}" mtime] by simp
    have "\<forall>k \<le> length ?p. is_dir_node (fs_nodes ?fs1 (take k ?p))" using d extends_dirs [OF e1] by blast
    note c = dir_meta_node(1) [OF _ this, of root "{}"]
    have "extends root {} ?fs1 (set_mode ?fs1 ?p mode pol)" using c by (simp add: set_mode_def Let_def)
    then show ?thesis using extends_trans [OF e1] Dir Inr by (fastforce simp: pass_dir_meta_def)
  qed
qed (simp_all add: pass_dir_meta_def)

lemma fold_dir_meta_extends:
  "\<forall>e \<in> set es. dir_ready root e fs \<Longrightarrow> extends root {} fs (fold (pass_dir_meta pol root) es fs)"
proof (induction es arbitrary: fs)
  case (Cons e es)
  then have e1: "extends root {} fs (pass_dir_meta pol root e fs)" using pass_dir_meta_extends by simp
  then have "\<forall>x \<in> set es. dir_ready root x (pass_dir_meta pol root e fs)"
    using Cons.prems dir_ready_extends by (meson list.set_intros(2))
  from extends_trans [OF e1 Cons.IH [OF this]] show ?case by simp
qed simp

definition entry_there :: "(bytes \<Rightarrow> hash) \<Rightarrow> abs_path \<Rightarrow> entry \<Rightarrow> fsys \<Rightarrow> bool" where
  "entry_there blake3 root e fs \<longleftrightarrow> (\<forall>path mode mtime sz chunks. e = File path mode mtime sz chunks \<longrightarrow>
     file_at blake3 fs (root @ landing e) chunks)"

lemma entry_there_extends:
  "entry_there blake3 root e fs \<Longrightarrow> extends root P fs fs' \<Longrightarrow> root @ landing e \<notin> P \<Longrightarrow> entry_there blake3 root e fs'"
  using file_at_extends by (cases e) (auto simp: entry_there_def)

text \<open>Symlinks do not land where a file did, so the third pass keeps the files of the second.\<close>

lemma links_keep_files:
  assumes "\<not> mp_replace_directories pol" "root_ok root fs" "unlink_works fs" "distinct (map landing es)"
    and "\<forall>e \<in> set es. entry_there blake3 root e fs"
    and "try_each (pass_links pol root) es fs = (r, fs')"
  shows "confined root (landings root es) fs fs' \<and> (\<forall>e \<in> set es. entry_there blake3 root e fs')"
proof -
  have key: "xs @ ys = es \<Longrightarrow> root_ok root f \<Longrightarrow> unlink_works f \<Longrightarrow> \<forall>e \<in> set es. entry_there blake3 root e f \<Longrightarrow>
      try_each (pass_links pol root) ys f = (r, fs') \<Longrightarrow>
      confined root (landings root es) f fs' \<and> (\<forall>e \<in> set es. entry_there blake3 root e fs')" for xs ys f
  proof (induction ys arbitrary: xs f)
    case Nil
    then show ?case by (auto intro: confinedI)
  next
    case (Cons e ys)
    obtain x f1 where p: "pass_links pol root e f = (x, f1)" by (meson surj_pair)
    note e1 = pass_links_confined [OF assms(1) Cons.prems(2,3) p]
    have mem: "e \<in> set es" using Cons.prems(1) by auto
    have c1: "confined root (landings root es) f f1"
      using extends_mono [OF e1, of "landings root es"] mem Cons.prems(2,3) by (auto simp: landings_def intro!: confinedI)
    have same: "entry_there blake3 root d f1" if d: "d \<in> set es" for d
    proof (cases "d = e")
      case True
      then show ?thesis
        using Cons.prems(4) d p by (cases e) (auto simp: pass_links_def entry_there_def)
    next
      case False
      then have "landing d \<noteq> landing e" using assms(4) mem d by (auto simp: distinct_map inj_on_def)
      then show ?thesis using entry_there_extends [OF _ e1] Cons.prems(4) d by simp
    qed
    show ?case
    proof (cases x)
      case (Inl y)
      then show ?thesis using Cons.prems(5) p c1 same by simp
    next
      case (Inr u)
      have "(xs @ [e]) @ ys = es" "try_each (pass_links pol root) ys f1 = (r, fs')" using Cons.prems(1,5) p Inr by auto
      from Cons.IH [OF this(1) _ _ _ this(2)] c1 same
      have "confined root (landings root es) f1 fs'" "\<forall>e \<in> set es. entry_there blake3 root e fs'"
        by (auto simp: confined_def)
      then show ?thesis using confined_trans [OF c1, of "landings root es" fs'] by simp
    qed
  qed
  show ?thesis using key [of "[]"] assms(2-) by simp
qed

lemma reconstruct_tree_confined:
  assumes pol: "\<not> mp_replace_directories pol" and fs: "root_ok root fs" "unlink_works fs"
    and es: "distinct (map landing es)"
    and run: "reconstruct_tree get blake3 pol root es (fs, s) = (r, fs', s')"
  shows "extends root (landings root es) fs fs' \<and> (is_ok r \<longrightarrow> (\<forall>e \<in> set es. entry_there blake3 root e fs'))"
proof -
  let ?L = "landings root es"
  obtain x1 f1 where p1: "try_each (pass_dirs root) es fs = (x1, f1)" by (meson surj_pair)
  have s1: "confined root ?L fs f1 \<and> (is_ok x1 \<longrightarrow> (\<forall>e \<in> set es. dir_ready root e f1))"
  proof (rule try_each_confined [where g = "\<lambda>w. w", OF _ _ fs es p1])
    show "extends root {root @ landing e} w w' \<and> (is_ok r \<longrightarrow> dir_ready root e w')"
      if "root_ok root w" "pass_dirs root e w = (r, w')" for e w r w'
      using pass_dirs_confined [OF that] by (auto simp: dir_ready_def)
  qed (rule dir_ready_extends)
  obtain x2 f2 t2 where p2: "try_each (pass_files get blake3 pol root) es (f1, s) = (x2, f2, t2)" by (metis prod_cases3)
  have s2: "confined root ?L f1 f2 \<and> (is_ok x2 \<longrightarrow> (\<forall>e \<in> set es. entry_there blake3 root e f2))"
  proof -
    have "confined root ?L (fst (f1, s)) (fst (f2, t2)) \<and> (is_ok x2 \<longrightarrow> (\<forall>e \<in> set es. entry_there blake3 root e (fst (f2, t2))))"
    proof (rule try_each_confined [where g = fst, OF _ _ _ _ es p2])
      show "extends root {root @ landing e} (fst w) (fst w') \<and> (is_ok r \<longrightarrow> entry_there blake3 root e (fst w'))"
        if "root_ok root (fst w)" "unlink_works (fst w)" "pass_files get blake3 pol root e w = (r, w')" for e w r w'
        using pass_files_confined [OF pol that(1,2), of get blake3 e "snd w" r "fst w'" "snd w'"] that(3)
        by (auto simp: entry_there_def)
    qed (use s1 entry_there_extends in \<open>auto simp: confined_def\<close>)
    then show ?thesis by simp
  qed
  obtain x3 f3 where p3: "try_each (pass_links pol root) es f2 = (x3, f3)" by (meson surj_pair)
  have s3: "confined root ?L f2 f3 \<and> (\<forall>e \<in> set es. entry_there blake3 root e f3)" if "is_ok x2"
    using links_keep_files [OF pol _ _ es _ p3] s2 that by (auto simp: confined_def)
  have e2: "extends root ?L fs f2" using s1 s2 extends_trans by (metis Un_absorb confined_def)
  have e3: "extends root ?L fs f3" if "is_ok x2" using e2 s3 [OF that] extends_trans by (metis Un_absorb confined_def)
  let ?f4 = "fold (pass_dir_meta pol root) (rev es) f3"
  have e4: "extends root {} f3 ?f4" if "is_ok x1" "is_ok x2"
  proof (rule fold_dir_meta_extends)
    have "extends root ?L f1 f3" using s2 s3 [OF that(2)] extends_trans by (metis Un_absorb confined_def)
    then show "\<forall>e \<in> set (rev es). dir_ready root e f3" using s1 that(1) dir_ready_extends by auto
  qed
  have e04: "extends root ?L fs ?f4" if "is_ok x1" "is_ok x2"
    using extends_trans [OF e3 [OF that(2)] e4 [OF that]] by simp
  have there: "\<forall>e \<in> set es. entry_there blake3 root e ?f4" if "is_ok x1" "is_ok x2"
    using s3 [OF that(2)] entry_there_extends [OF _ e4 [OF that]] by auto
  consider "\<not> is_ok x1" "\<not> is_ok r" "fs' = f1" | "is_ok x1" "\<not> is_ok x2" "\<not> is_ok r" "fs' = f2"
    | "is_ok x1" "is_ok x2" "\<not> is_ok r" "fs' = f3" | "is_ok x1" "is_ok x2" "fs' = ?f4"
    using run p1 p2 p3 by (cases x1; cases x2; cases x3) (auto simp: reconstruct_tree_def on_files_def)
  then show ?thesis
    using s1 e2 e3 e04 there by cases (auto simp: confined_def)
qed

section \<open>The whole download\<close>

lemma run_download_tree_sound:
  assumes pol: "\<not> mp_replace_directories pol" and fs: "root_ok dest (fst w)" "unlink_works (fst w)"
    and run: "run_download_tree S N c pol polls events n bid root dest temps w = Some (r, temps', w')"
  shows "extends dest UNIV (fst w) (fst w') \<and> (is_ok r \<longrightarrow> (\<exists>t m. fetch_index_matching N n c bid root = (Inr t, m)
     \<and> extends dest (landings dest (ti_entries t)) (fst w) (fst w')
     \<and> (\<forall>e \<in> set (ti_entries t). entry_there (cr_blake3 (sn_crates N)) dest e (fst w'))))"
proof -
  have rec: "extends dest (landings dest (ti_entries t)) (fst w) (fst w1)
      \<and> (is_ok x \<longrightarrow> (\<forall>e \<in> set (ti_entries t). entry_there (cr_blake3 (sn_crates N)) dest e (fst w1)))"
    if "fetch_index_matching N n c bid root = (Inr t, m)"
      "reconstruct_tree (so_get S) (cr_blake3 (sn_crates N)) pol dest (ti_entries t) (fst w, s) = (x, w1)" for t m s x w1
  proof -
    have "distinct (map landing (ti_entries t))" using fetch_index_matching_Inr [OF that(1)] by (simp add: tree_validate_Inr)
    from reconstruct_tree_confined [OF pol fs this, of "so_get S" "cr_blake3 (sn_crates N)" s x "fst w1" "snd w1"] that(2)
    show ?thesis by simp
  qed
  show ?thesis
  proof (cases "fst w' = fst w \<and> \<not> is_ok r")
    case True
    then show ?thesis by simp
  next
    case False
    then obtain t m s x where t: "fetch_index_matching N n c bid root = (Inr t, m)"
      "reconstruct_tree (so_get S) (cr_blake3 (sn_crates N)) pol dest (ti_entries t) (fst w, s) = (x, w')" "is_ok r \<longrightarrow> is_ok x"
      using run
      by (auto simp: run_download_tree_def Let_def is_ok_def split: prod.splits sum.splits if_splits option.splits)
    show ?thesis using rec [OF t(1,2)] t extends_mono by blast
  qed
qed

end
