(* ===== verification/Samples.thy ===== *)
theory Samples
  imports Download_Top
begin

text \<open>
  Concrete instances on which the properties are exercised: a three-byte blob, a bao codec whose
  slices are the whole blob, a sidecar codec for the two states that blob can be in, and a network
  that answers every slice query with that one slice.
\<close>

definition toy_bao :: "bytes \<Rightarrow> bao" where
  "toy_bao content =
     \<lparr>ChunkNum_chunks = (\<lambda>n. div_ceil n 1024),
      DecodeResponseIter = (\<lambda>root tot r enc.
        if enc = content \<and> unat tot = length content then [Inr (Leaf 0 content)] else [Inl IoOther])\<rparr>"

lemma toy_bao_pins: "bao_pins (toy_bao content) root content"
proof -
  have "unat n \<le> 1024 * unat (div_ceil n 1024 :: u64)" for n
  proof -
    have "nat_div_ceil (unat n) 1024 \<le> unat (div_ceil n 1024 :: u64)" by (simp add: unat_div_ceil)
    then show ?thesis by (subst (asm) nat_div_ceil_le_iff) (simp_all add: mult.commute)
  qed
  then show ?thesis
    by (auto simp: bao_pins_def leaves_genuine_def response_covers_def size_proved_def rounds_up_def
        toy_bao_def genuine_def covers_def split: if_splits)
qed

definition toy_root :: hash where "toy_root = replicate 32 7"
definition toy_content :: bytes where "toy_content = [1, 2, 3]"

definition toy_manifest :: manifest where
  "toy_manifest = \<lparr>m_version = 3, m_id = ''a'', m_filename = None, m_total_len = 3,
     m_chunk_size = 65536, m_root = toy_root, m_created_ms = 0, m_ext = []\<rparr>"

definition toy_chunks :: transfer_chunks where
  "toy_chunks = \<lparr>tc_chunk_size = 65536, tc_total_len = 3\<rparr>"

definition toy_state :: "u8 \<Rightarrow> resume_state" where
  "toy_state b = \<lparr>rs_version = 3, rs_id = ''a'', rs_root = toy_root, rs_total_len = 3,
     rs_chunk_size = 65536, rs_bits = [b]\<rparr>"

definition toy_config :: client_config where
  "toy_config = \<lparr>cc_prefix = ''p'', cc_retry = \<lparr>max_attempts = 1, base_backoff = 250, max_backoff = 10000\<rparr>,
     cc_max_chunks_per_query = 512, cc_max_blob_size = 2 ^ 40\<rparr>"

definition toy_env :: client_env where
  "toy_env =
     \<lparr>ce_bao = toy_bao toy_content,
      ce_blake3 = (\<lambda>_. []),
      ce_enc = (\<lambda>s. if s = toy_state 0 then Inr [0] else if s = toy_state 1 then Inr [1] else Inl Encode),
      ce_dec = (\<lambda>b. if b = [0] then Inr (toy_state 0) else if b = [1] then Inr (toy_state 1) else Inl Encode),
      ce_dec_manifest = (\<lambda>_. Inr toy_manifest),
      ce_manifest_replies = (\<lambda>_. Replies [Recv (Inr \<lparr>sm_encoding = ENC_MANIFEST, sm_key = ''p/a/manifest'', sm_payload = []\<rparr>) 0]),
      ce_answer = (\<lambda>_ _. Replies [Recv (Inr \<lparr>sm_encoding = ENC_SLICE, sm_key = ''p/a/slice/0'', sm_payload = [1, 2, 3]\<rparr>) 1]),
      ce_cancelled = (\<lambda>_. False),
      ce_faults = (\<lambda>_. None),
      ce_dest_race = None\<rparr>"

definition toy_disk :: disk where
  "toy_disk = \<lparr>dk_part = None, dk_durable = [], dk_sidecar = Inl IoNotFound, dk_dest = None,
     dk_ops = 0, dk_progress = []\<rparr>"

lemma toy_start:
  "start_download toy_env toy_config ''a'' (Some toy_root) = Inr (toy_manifest, toy_chunks)"
  by code_simp

lemma toy_codec: "codec_ok toy_env"
  by (auto simp: codec_ok_def toy_env_def toy_state_def split: if_splits)

lemma toy_pins: "bao_pins (ce_bao toy_env) toy_root toy_content"
  using toy_bao_pins by (simp add: toy_env_def)

lemma toy_not_empty: "toy_root \<noteq> ce_blake3 toy_env []"
  by (simp add: toy_env_def toy_root_def)

lemma toy_disk_inv: "disk_inv toy_env toy_manifest toy_chunks toy_content toy_disk"
  by (simp add: disk_inv_def toy_disk_def resume_load_def)

definition toy_world :: world where
  "toy_world = \<lparr>w_part = toy_content, w_durable = toy_content,
     w_sidecar = Inr (RESUME_MAGIC @ [1]), w_ops = 0, w_progress = []\<rparr>"

lemma toy_pinned: "pinned toy_env toy_manifest toy_chunks toy_content"
proof -
  have "manifest_chunks toy_manifest = Inr toy_chunks" by code_simp
  then show ?thesis using toy_codec toy_pins by (simp add: pinned_def toy_manifest_def)
qed

lemma toy_resume_for: "resume_for (toy_state b) toy_manifest toy_chunks"
proof -
  have "manifest_chunks toy_manifest = Inr toy_chunks" "tc_count toy_chunks = 1"
      "unat (div_ceil (1 :: u32) 8) = 1" "WIRE_VERSION = 3"
    by code_simp+
  then show ?thesis
    by (simp add: resume_for_def resume_matches_def toy_state_def toy_manifest_def)
qed

lemma toy_backed: "backed toy_chunks toy_content s (w_part toy_world)"
proof -
  have "tc_count toy_chunks = 1" "byte_range toy_chunks 0 = (0, 3)" by code_simp+
  then show ?thesis
    by (auto simp: backed_def chunk_holds_def holds_def toy_world_def toy_content_def toy_chunks_def
        word_less_1)
qed

lemma toy_world_inv: "world_inv toy_env toy_manifest toy_chunks toy_content toy_world"
  using toy_backed by (simp add: world_inv_def sidecar_backed_def toy_world_def)
    (simp add: toy_content_def toy_chunks_def)

text \<open>
  A partial file that was deleted while its complete sidecar stayed, and a run whose sidecar
  write fails after it has sized a new partial file.
\<close>

definition torn_env :: client_env where
  "torn_env = toy_env\<lparr>ce_faults := (\<lambda>n. if n = 4 then Some (IoOther, 0) else None)\<rparr>"

definition torn_disk :: disk where
  "torn_disk = toy_disk\<lparr>dk_sidecar := Inr (RESUME_MAGIC @ [1])\<rparr>"

definition torn_after :: disk where
  "torn_after = \<lparr>dk_part = Some [0, 0, 0], dk_durable = [0, 0, 0],
     dk_sidecar = Inr (RESUME_MAGIC @ [1]), dk_dest = None, dk_ops = 5, dk_progress = []\<rparr>"

lemma torn_start:
  "start_download torn_env toy_config ''a'' (Some toy_root) = Inr (toy_manifest, toy_chunks)"
  by code_simp

lemma torn_first_probe:
  "then_io (disk_op torn_env (\<lambda>d. d) (torn_disk\<lparr>dk_ops := 1\<rparr>)) (\<lambda>_. resume_probe torn_env toy_manifest toy_chunks)
     = (Inl (Io IoOther), torn_after)"
  by code_simp

lemma torn_second_probe:
  "then_io (disk_op toy_env (\<lambda>d. d) (torn_after\<lparr>dk_ops := 6\<rparr>)) (\<lambda>_. resume_probe toy_env toy_manifest toy_chunks)
     = (Inr (toy_state 1), torn_after\<lparr>dk_ops := 7, dk_progress := [Resumed 1 1]\<rparr>)"
  by code_simp

lemma toy_env_quiet:
  "ce_faults toy_env n = None" "ce_dest_race toy_env = None" "ce_enc toy_env (toy_state 1) = Inr [1]"
  by (auto simp: toy_env_def toy_state_def)

lemma toy_complete_turn:
  "f_state f = toy_state 1 \<Longrightarrow> fill_turn True toy_env toy_config toy_manifest toy_chunks f = Break f"
proof -
  have "resume_is_complete (toy_state 1) (tc_count toy_chunks)" by code_simp
  then show "f_state f = toy_state 1 \<Longrightarrow> ?thesis" by (simp add: fill_turn_def)
qed

lemma toy_complete_fill:
  "\<exists>f. fill_holes (Suc n) True toy_env toy_config toy_manifest toy_chunks 0 (toy_state 1) st w
       = Some (Inr (), f) \<and> w_part (f_world f) = w_part w"
  by (simp add: fill_holes_def toy_complete_turn fill_start_def on_world_def commit_def save_if_def
      save_sidecar_def resume_save_def sidecar_payload_def toy_env_quiet next_op_def)

lemma torn_checks:
  "check_dest torn_env Refuse torn_disk = (Inr (), torn_disk\<lparr>dk_ops := 1\<rparr>)"
  "check_dest toy_env Refuse torn_after = (Inr (), torn_after\<lparr>dk_ops := 6\<rparr>)"
  by code_simp+

lemma torn_first_run:
  "download_to_inner fuel torn_env toy_config ''a'' (Some toy_root) Refuse 0 torn_disk
     = Some (Inl (Io IoOther), torn_after)"
  using torn_first_probe by (simp add: download_to_inner_def torn_checks torn_start)

lemma torn_second_run:
  "\<exists>st d. download_to_inner (Suc n) toy_env toy_config ''a'' (Some toy_root) Refuse 0 torn_after
       = Some (Inr st, d) \<and> dk_dest d = Some [0, 0, 0]"
proof -
  let ?w = "to_world (torn_after\<lparr>dk_ops := 8, dk_progress := [Resumed 1 1]\<rparr>)"
  obtain f where "fill_holes (Suc n) True toy_env toy_config toy_manifest toy_chunks 0 (toy_state 1)
        (stats_default\<lparr>ts_chunks_resumed := resume_received (toy_state 1)\<rparr>) ?w = Some (Inr (), f)"
      "w_part (f_world f) = [0, 0, 0]"
    using toy_complete_fill[of n _ ?w] by (auto simp: to_world_def torn_after_def)
  moreover have "disk_op toy_env (\<lambda>d. d) (torn_after\<lparr>dk_ops := 7, dk_progress := [Resumed 1 1]\<rparr>)
      = (Inr (), torn_after\<lparr>dk_ops := 8, dk_progress := [Resumed 1 1]\<rparr>)"
    by (simp add: disk_op_def toy_env_quiet)
  moreover have "dk_dest torn_after = None" by (simp add: torn_after_def)
  ultimately show ?thesis
    by (simp add: download_to_inner_def torn_checks toy_start torn_second_probe)
       (simp add: toy_env_quiet disk_op_def check_dest_def from_world_def finish_download_def
          place_download_def Let_def)
qed

end
