(* ===== verification/Store_Samples.thy ===== *)
theory Store_Samples
  imports Materialize_Props Slice_Exchange Samples Store_Exchange Tree_Client_Props Gc
begin

text \<open>
  Concrete stores, snapshots and peers on which the properties of tier 2 are exercised: a digest
  that pads a chunk to 32 bytes, a snapshot of one three-byte file, and a network that answers
  with that snapshot and its chunk.
\<close>

section \<open>Stores\<close>

definition pad_hash :: "bytes \<Rightarrow> hash" where
  "pad_hash b = take 32 (b @ replicate 32 0)"

definition toy_crates :: crates where
  "toy_crates = \<lparr>cr_zstd = None, cr_blake3 = pad_hash, cr_derive_key = (\<lambda>_ _. []),
     cr_keyed_hash = (\<lambda>_ _. replicate 32 0), cr_encrypt = (\<lambda>_ _ _ m. Some m), cr_decrypt = (\<lambda>_ _ _ c. Some c)\<rparr>"

definition toy_hash :: hash where "toy_hash = pad_hash toy_content"
definition toy_ref :: chunk_ref where "toy_ref = \<lparr>cr_hash = toy_hash, cr_len = 3\<rparr>"
definition toy_mem :: memory_store where "toy_mem = [(toy_hash, toy_content)]"

definition toy_dir :: dir_store where
  "toy_dir = \<lparr>dir_files = [], dir_verify_on_read = True, dir_compression = NoCompression,
     dir_key_material = None, dir_fault = (\<lambda>_. None)\<rparr>"

definition kept_dir :: dir_store where
  "kept_dir = toy_dir\<lparr>dir_files := [(dir_path toy_hash, Inr (0 # toy_content))]\<rparr>"

lemma toy_ref_simps [simp]: "cr_hash toy_ref = toy_hash" "cr_len toy_ref = 3"
  by (simp_all add: toy_ref_def)

lemma pad_hash_wf [simp]: "hash_wf (pad_hash b)"
  by (simp add: pad_hash_def hash_wf_def)

lemma toy_crates_simps [simp]:
  "cr_blake3 toy_crates = pad_hash" "cr_zstd toy_crates = None"
  by (simp_all add: toy_crates_def)

lemma toy_crates_ok: "crates_ok toy_crates"
  by (simp add: crates_ok_def zstd_ok_def aead_ok_def toy_crates_def)

lemma toy_content_small: "length toy_content \<le> MAX_UNPACKED"
  by (simp add: toy_content_def MAX_UNPACKED_def)

lemma toy_good: "good_chunk toy_crates toy_hash toy_content"
  by (simp add: good_chunk_def toy_hash_def toy_content_small)

lemma toy_hash_wf [simp]: "hash_wf toy_hash"
  by (simp add: toy_hash_def)

lemma toy_mem_inv: "mem_inv toy_mem"
  by (simp add: mem_inv_def toy_mem_def)

lemma toy_dir_inv: "dir_inv toy_crates toy_dir"
  by (simp add: dir_inv_def toy_dir_def toy_crates_ok)

lemma toy_pack: "pack toy_crates toy_content NoCompression = Inr (0 # toy_content)"
  by (simp add: pack_def pack_raw_def TAG_RAW_def)

lemma toy_put: "dir_put toy_crates toy_dir toy_hash toy_content = (Inr (), kept_dir)"
  by (simp add: dir_put_def kept_dir_def toy_dir_def toy_pack)

lemma kept_dir_ok: "dir_inv toy_crates kept_dir \<and> dir_contents toy_crates kept_dir = (dir_contents toy_crates toy_dir)(toy_hash \<mapsto> toy_content)"
  by (rule dir_put_spec [OF toy_dir_inv toy_good toy_put])

lemma toy_dir_empty: "dir_contents toy_crates toy_dir = Map.empty"
  by (auto simp: dir_contents_def dir_read_def toy_dir_def)

section \<open>A snapshot\<close>

definition toy_cdc :: cdc_params where "toy_cdc = cdc_default"

definition toy_entries :: "entry list" where
  "toy_entries = [File ''f'' 420 7 3 [toy_ref]]"

definition toy_index :: tree_index where
  "toy_index = \<lparr>ti_version = WIRE_VERSION, ti_id = ''t'', ti_algo = Blake3, ti_cdc = toy_cdc,
     ti_entries = toy_entries, ti_root_hash = pad_hash [5]\<rparr>"

definition toy_postcard :: postcard where
  "toy_postcard =
     \<lparr>pc_index = (\<lambda>t. if t = toy_index then Inr [9] else Inl Encode),
      pc_get_index = (\<lambda>b. if b = [9] then Inr toy_index else Inl Encode),
      pc_desc = (\<lambda>_. Inl Encode), pc_get_desc = (\<lambda>_. Inl Encode),
      pc_want = (\<lambda>w. if w = want_list_new [toy_hash] then Inr [8] else Inl Encode),
      pc_get_want = (\<lambda>b. if b = [8] then Inr (want_list_new [toy_hash]) else Inl Encode),
      pc_bits = (\<lambda>h. if h = have_bits_from_presence [True] then Inr [6] else Inl Encode),
      pc_get_bits = (\<lambda>b. if b = [6] then Inr (have_bits_from_presence [True]) else Inl Encode),
      pc_probe = (\<lambda>_. Inl Encode), pc_get_probe = (\<lambda>_. Inl Encode),
      pc_identity = (\<lambda>_. Inr [5])\<rparr>"

lemma toy_postcard_ok: "postcard_ok toy_postcard"
  by (simp add: postcard_ok_def toy_postcard_def)

lemma toy_index_valid: "tree_validate (pc_identity toy_postcard) pad_hash toy_index = Inr ()"
  unfolding tree_validate_Inr
proof (intro conjI)
  show "cdc_validate (ti_cdc toy_index) = Inr ()" by (simp add: toy_index_def toy_cdc_def cdc_validate_def cdc_default_def)
  have "sanitize_rel_path ''f'' = Inr [''f'']" by code_simp
  then show "\<forall>e \<in> set (ti_entries toy_index). entry_ok (ti_cdc toy_index) e"
    by (simp add: toy_index_def toy_entries_def entry_ok_def toy_ref_def sum_lens_def toy_cdc_def cdc_default_def)
  show "assert_symlinks_confined (declared_links (ti_entries toy_index)) = Inr ()"
    by (simp add: toy_index_def toy_entries_def) code_simp
qed (simp_all add: toy_index_def toy_entries_def root_digest_def toy_postcard_def)

section \<open>Peers\<close>

definition mem_ops :: "memory_store store_ops" where
  "mem_ops = \<lparr>so_has = mem_has, so_get = mem_get, so_put = mem_put\<rparr>"

definition dir_ops :: "crates \<Rightarrow> dir_store store_ops" where
  "dir_ops C = \<lparr>so_has = dir_has C, so_get = dir_get C, so_put = dir_put C\<rparr>"

definition toy_serving :: tree_config where
  "toy_serving = \<lparr>tv_store_prefix = ''s'', tv_tree_prefix = ''t'', tv_compression = NoCompression,
     tv_max_want_list = 4, tv_shard_threshold = 100\<rparr>"

definition toy_frame :: sample where
  "toy_frame = \<lparr>sm_encoding = ENC_CHUNK, sm_key = store_key ''s'' Blake3 toy_hash, sm_payload = 0 # toy_content\<rparr>"

definition toy_net :: store_net where
  "toy_net = \<lparr>sn_crates = toy_crates, sn_postcard = toy_postcard, sn_valid_ke = (\<lambda>_. True),
     sn_get = (\<lambda>_ key _. if key = ''t/t'' then Inr [Inr \<lparr>sm_encoding = ENC_INDEX, sm_key = ''t/t'', sm_payload = [9]\<rparr>]
                         else Inr [Inr toy_frame])\<rparr>"

definition toy_client :: tree_client where
  "toy_client = \<lparr>yc_store_prefix = ''s'', yc_tree_prefix = ''t'', yc_fetch_concurrency = 1, yc_max_index_bytes = 100,
     yc_max_tree_bytes = 100, yc_max_tree_chunks = 10, yc_batch_size = 0\<rparr>"

lemma toy_verdict: "index_verdict toy_net toy_client ''t'' (Some (pad_hash [5])) [9] = Inr toy_index"
proof -
  have "pc_get_index toy_postcard [9] = Inr toy_index" "ti_id toy_index = ''t''" "ti_root_hash toy_index = pad_hash [5]"
    by (simp_all add: toy_postcard_def toy_index_def)
  then show ?thesis using toy_index_valid by (simp add: index_verdict_def toy_net_def toy_client_def)
qed

lemma toy_fetch_index: "fetch_index_matching toy_net n toy_client ''t'' (Some (pad_hash [5])) = (Inr toy_index, Suc n)"
proof -
  have "blob_id_new ''t'' = Inr ''t''" by code_simp
  moreover have "tree_key (yc_tree_prefix toy_client) ''t'' = ''t/t''" by code_simp
  moreover have "sn_get toy_net n ''t/t'' None = Inr [Inr \<lparr>sm_encoding = ENC_INDEX, sm_key = ''t/t'', sm_payload = [9]\<rparr>]"
    by (simp add: toy_net_def)
  ultimately show ?thesis by (simp add: fetch_index_matching_def index_payload_def toy_verdict)
qed

lemma toy_unpack: "unpack toy_crates (0 # toy_content) = Inr toy_content"
  using unpack_raw [OF toy_content_small, of toy_crates] by (simp add: unpack_Inr pack_raw_def TAG_RAW_def)

lemma toy_fetch_chunk:
  "fetch_one_chunk toy_net n (store_key ''s'' Blake3 toy_hash) toy_hash (Some 3) mx = Inr (toy_content, 0)"
proof -
  have "store_key ''s'' Blake3 toy_hash \<noteq> ''t/t''" by (simp add: store_key_def)
  then have "sn_get toy_net n (store_key ''s'' Blake3 toy_hash) None = Inr [Inr toy_frame]" by (simp add: toy_net_def)
  moreover have "length toy_content = 3" by (simp add: toy_content_def)
  ultimately show ?thesis
    by (simp add: fetch_one_chunk_def toy_frame_def toy_unpack toy_net_def toy_hash_def max_frame_def)
qed

lemma toy_needed: "needed_chunk_refs toy_index = [toy_ref]" "needed_chunks toy_index = [toy_hash]"
  by (simp_all add: needed_chunk_refs_def needed_chunks_def toy_index_def toy_entries_def all_refs_def note_hash_def)

definition toy_fetched :: "dir_store fetch_state" where
  "toy_fetched = snd (the (fetch_missing (dir_ops toy_crates) toy_net toy_client (\<lambda>_. False) [Run 0, Join 0] 1 [toy_ref] 1 toy_dir))"

lemma toy_has_not: "dir_has toy_crates toy_dir toy_hash = Inr False"
  by (simp add: dir_has_def toy_dir_def dir_read_def)

lemma toy_fetch_missing:
  "fetch_missing (dir_ops toy_crates) toy_net toy_client (\<lambda>_. False) [Run 0, Join 0] 1 [toy_ref] 1 toy_dir = Some (Inr (), toy_fetched)"
  "fm_store toy_fetched = kept_dir"
proof -
  let ?run = "fetch_missing (dir_ops toy_crates) toy_net toy_client (\<lambda>_. False) [Run 0, Join 0] 1 [toy_ref] 1 toy_dir"
  have "\<exists>f. ?run = Some (Inr (), f) \<and> fm_store f = kept_dir"
    by (simp add: fetch_missing_def dir_ops_def store_has_many_def toy_has_not
        toy_client_def fill_pool_def pool_run_def run_task_def toy_fetch_chunk toy_put poll_cancel_def count_query_def
        fm_start_def count_fetched_def)
  then show "?run = Some (Inr (), toy_fetched)" "fm_store toy_fetched = kept_dir"
    by (auto simp: toy_fetched_def)
qed

section \<open>Building and linking\<close>

definition toy_cutter :: cdc_cutter where
  "toy_cutter mn avg mx level seed = pieces_of (unat mx)"

lemma toy_cutter_lossless: "cutter_lossless toy_cutter"
  unfolding cutter_lossless_def
proof (intro allI impI)
  fix p data assume "cdc_validate p = Inr ()"
  then have "0 < unat (cdc_max p)" using cdc_validate_max [of p] by linarith
  then show "concat (cdc_chunk_reader toy_cutter p data) = data
      \<and> (\<forall>piece \<in> set (cdc_chunk_reader toy_cutter p data). piece \<noteq> [] \<and> length piece \<le> unat (cdc_max p))"
    using concat_pieces_of [of "unat (cdc_max p)" data] pieces_of_bounds [where n = "unat (cdc_max p)" and bs = data]
    by (auto simp: toy_cutter_def cdc_chunk_reader_def)
qed

definition linked_index :: tree_index where
  "linked_index = toy_index\<lparr>ti_entries := [Symlink ''l'' ''f'']\<rparr>"

lemma linked_links: "declared_links (ti_entries linked_index) = [([''l''], ''f'')]"
proof -
  have "sanitize_rel_path ''l'' = Inr [''l'']" by code_simp
  then show ?thesis by (simp add: linked_index_def)
qed

lemma linked_index_valid: "tree_validate (\<lambda>_. Inr [5]) pad_hash linked_index = Inr ()"
  unfolding tree_validate_Inr linked_links
proof (intro conjI)
  show "cdc_validate (ti_cdc linked_index) = Inr ()"
    by (simp add: linked_index_def toy_index_def toy_cdc_def cdc_validate_def cdc_default_def)
  have "sanitize_rel_path ''l'' = Inr [''l'']" "sanitize_symlink_target [''l''] ''f'' = Inr ()" by code_simp+
  then show "\<forall>e \<in> set (ti_entries linked_index). entry_ok (ti_cdc linked_index) e"
    by (simp add: linked_index_def entry_ok_def)
  show "assert_symlinks_confined [([''l''], ''f'')] = Inr ()" by code_simp
qed (simp_all add: linked_index_def toy_index_def root_digest_def)

section \<open>Files\<close>

definition toy_fs :: fsys where
  "toy_fs = \<lparr>fs_nodes = [[] \<mapsto> FDir 493 0, [''d''] \<mapsto> FDir 493 0, [''secret''] \<mapsto> FFile 0],
     fs_inodes = (\<lambda>_. \<lparr>in_data = [42], in_mode = 420, in_mtime = 0\<rparr>), fs_next = 1, fs_fault = (\<lambda>_. None),
     fs_umask = 18, fs_now = 0\<rparr>"

text \<open>A symlink out of the destination that cannot be unlinked.\<close>

definition stuck_fs :: fsys where
  "stuck_fs = toy_fs\<lparr>fs_nodes := (fs_nodes toy_fs)([''d'', ''x''] \<mapsto> FLink ''/secret''),
     fs_fault := (\<lambda>op. if op = OpUnlink [''d'', ''x''] then Some IoOther else None)\<rparr>"

lemma toy_fs_ok: "root_ok [''d''] toy_fs" "unlink_works toy_fs"
  by (auto simp: root_ok_def toy_fs_def unlink_works_def le_Suc_eq)

lemma kept_get: "dir_get toy_crates kept_dir toy_hash = (Inr (Some toy_content), kept_dir)"
proof -
  obtain x s' where r: "dir_get toy_crates kept_dir toy_hash = (x, s')" by fastforce
  have "is_ok x"
    using r toy_unpack by (auto simp: dir_get_def kept_dir_def toy_dir_def dir_read_def decode_at_rest_def toy_hash_def
       tag_defs unpack_Inr split: sum.splits if_splits)
  with r dir_get_spec [OF kept_dir_ok [THEN conjunct1] r] kept_dir_ok show ?thesis by (auto simp: is_ok_iff)
qed

lemma toy_fetch_file:
  "fetch_file (dir_ops toy_crates) toy_net toy_client [Run 0, Join 0] 0 ''t'' (Some (pad_hash [5])) ''f'' toy_dir
     = Some (Inr toy_content, kept_dir)"
proof -
  have "file_chunks toy_index ''f'' = Some [toy_ref]"
    by (simp add: file_chunks_def tree_entry_def toy_index_def toy_entries_def)
  moreover have "sum_lens [toy_ref] = 3" "length toy_content = 3" by (simp_all add: sum_lens_def toy_content_def)
  ultimately show ?thesis
    using toy_fetch_missing kept_get
    by (simp add: fetch_file_def toy_fetch_index dir_ops_def) (simp add: toy_client_def)
qed

lemma toy_tree_run:
  "\<exists>r temps fs' s'. run_download_tree (dir_ops toy_crates) toy_net toy_client policy_default (\<lambda>_. False) [Run 0, Join 0] 0
      ''t'' (Some (pad_hash [5])) [''d''] None (toy_fs, toy_dir) = Some (r, temps, fs', s')"
proof -
  have t: "total_size toy_index = 3" "yc_max_tree_bytes toy_client = 100" "yc_max_tree_chunks toy_client = 10"
    by (simp_all add: total_size_def toy_index_def toy_entries_def toy_client_def sum_lens_def)
  show ?thesis
    using toy_fetch_missing
    by (auto simp: run_download_tree_def toy_fetch_index toy_needed t Let_def split: prod.splits sum.splits)
qed

lemma stuck_put:
  "\<exists>fs' s'. put_file (dir_get toy_crates) pad_hash policy_default [''d'', ''x''] 420 0 3 [toy_ref] (stuck_fs, kept_dir)
      = (Inr (), fs', s')
    \<and> fs_nodes fs' [''d'', ''x''] = Some (FLink ''/secret'')
    \<and> fs_nodes stuck_fs [''secret''] = Some (FFile 0) \<and> in_data (fs_inodes stuck_fs 0) = [42]
    \<and> in_data (fs_inodes fs' 0) = toy_content"
proof -
  have c: "components ''/secret'' = [RootDir, Normal ''secret'']" by code_simp
  have "length toy_content = 3" "pad_hash toy_content = toy_hash" by (simp_all add: toy_content_def toy_hash_def)
  then show ?thesis
    by (simp add: put_file_def remove_existing_def open_create_def append_data_def kept_get set_mode_def set_mtime_def chmod_def
        canonicalize_def c stuck_fs_def toy_fs_def MAX_LINKS_def MODE_MASK_def Let_def)
qed

section \<open>Collecting garbage\<close>

definition toy_tags :: tag_codec where
  "toy_tags = \<lparr>tg_enc = (\<lambda>_. Inl Encode), tg_dec = (\<lambda>_. Inl Encode)\<rparr>"

definition no_tags :: snapshot_tags where
  "no_tags = \<lparr>st_files = [], st_fault = (\<lambda>_. None)\<rparr>"

lemma toy_live: "gc_live toy_tags no_tags temp_new [toy_index] = Inr {toy_hash}"
  by (simp add: gc_live_def tags_live_set_def tag_list_def no_tags_def from_io_def map_filter_simps temp_live_set_def
      temp_new_def temp_retain_def toy_needed Let_def)

section \<open>Chunk queries\<close>

definition toy_bits :: sample where
  "toy_bits = \<lparr>sm_encoding = ENC_HAVEBITS, sm_key = store_have_key ''s'' Blake3, sm_payload = [6]\<rparr>"

lemma toy_tails:
  "parse_tier2_tail ''s'' (store_batch_key ''s'' Blake3) = Some (Two ''blake3'' STORE_BATCH)"
  "parse_tier2_tail ''s'' (store_have_key ''s'' Blake3) = Some (Two ''blake3'' STORE_HAVE)"
  "STORE_HAVE \<noteq> STORE_BATCH"
  by code_simp+

lemma toy_want: "want_list_validate (want_list_new [toy_hash]) 4 = Inr ()"
  by (simp add: want_list_validate_Inr want_list_new_def)

lemma toy_batch:
  "serve_chunk_query (dir_ops toy_crates) toy_crates toy_postcard toy_serving
     \<lparr>tq_key = store_batch_key (tv_store_prefix toy_serving) Blake3, tq_payload = Some [8], tq_accepts_any = True, tq_open = 1\<rparr> kept_dir
   = ((Inr (), [Inr toy_frame]), kept_dir)"
proof -
  have w: "pc_get_want toy_postcard [8] = Inr (want_list_new [toy_hash])" by (simp add: toy_postcard_def)
  have "wl_hashes (want_list_new [toy_hash]) = [toy_hash]" by (simp add: want_list_new_def)
  then show ?thesis
    using kept_get toy_pack
    by (simp add: serve_chunk_query_def toy_serving_def toy_tails serve_chunk_batch_def want_list_of_def w toy_want
        dir_ops_def send_def toy_frame_def)
qed

lemma kept_has: "dir_has toy_crates kept_dir toy_hash = Inr True"
  by (simp add: dir_has_def kept_dir_def toy_dir_def dir_read_def TAG_RAW_def)

lemma toy_probe:
  "serve_chunk_query (dir_ops toy_crates) toy_crates toy_postcard toy_serving
     \<lparr>tq_key = store_have_key (tv_store_prefix toy_serving) Blake3, tq_payload = Some [8], tq_accepts_any = True, tq_open = 1\<rparr> kept_dir
   = ((Inr (), [Inr toy_bits]), kept_dir)"
proof -
  have w: "pc_get_want toy_postcard [8] = Inr (want_list_new [toy_hash])"
    "pc_bits toy_postcard (have_bits_from_presence [True]) = Inr [6]" by (simp_all add: toy_postcard_def)
  have "wl_hashes (want_list_new [toy_hash]) = [toy_hash]" by (simp add: want_list_new_def)
  then show ?thesis
    using kept_has
    by (simp add: serve_chunk_query_def toy_serving_def toy_tails serve_chunk_probe_def want_list_of_def w toy_want
        dir_ops_def send_def toy_bits_def store_has_many_def)
qed

section \<open>A blob server\<close>

definition toy_server_env :: server_env where
  "toy_server_env =
     \<lparr>se_bao = toy_bao toy_content,
      se_compute_outboard = (\<lambda>c. if c = toy_content then Inr [7] else Inl IoOther),
      se_root = (\<lambda>_. toy_root),
      se_encode_slice = (\<lambda>_ content _. Inr content),
      se_enc_manifest = (\<lambda>_. Inr []), se_dec_manifest = (\<lambda>_. Inr toy_manifest),
      se_enc_avail = (\<lambda>_. Inr []), se_enc_ranges = (\<lambda>_. Inr []), se_enc_u32 = (\<lambda>_. Inr []),
      se_enc_state = (\<lambda>_. Inr []), se_dec_state = (\<lambda>_. Inl Encode),
      se_policy = (\<lambda>_ _. True), se_fault = (\<lambda>_. None), se_torn = (\<lambda>_. [])\<rparr>"

definition toy_push :: push_config where
  "toy_push = \<lparr>pu_spool_dir = ''spool'', pu_max_blob_size = 100, pu_max_concurrent = 1, pu_idle_timeout = 10\<rparr>"

definition toy_server_config :: server_config where
  "toy_server_config = \<lparr>sv_prefix = ''p'', sv_max_chunks_per_query = 2, sv_push = Some toy_push\<rparr>"

definition toy_server :: blob_server where
  "toy_server = \<lparr>bs_registry = Map.empty, bs_pushes = [], bs_files = Map.empty, bs_now = 0\<rparr>"

definition toy_offer :: blob_query where
  "toy_offer = \<lparr>tq_key = ''p/a/push/offer'', tq_payload = Some [], tq_accepts_any = True, tq_open = 1,
     bq_params = [], bq_attachment = None\<rparr>"

definition toy_ext :: ext where "toy_ext = snd (ext_set_u32 ext_new EXT_MAX_CHUNKS_PER_QUERY 2)"

definition toy_registered :: registered_blob where
  "toy_registered = \<lparr>rb_manifest = toy_manifest\<lparr>m_ext := toy_ext\<rparr>, rb_chunks = toy_chunks,
     rb_source = MemoryBlobSource toy_content, rb_outboard = [7], rb_fingerprint = None\<rparr>"

definition toy_slice_query :: blob_query where
  "toy_slice_query = \<lparr>tq_key = ''p/a/**'', tq_payload = None, tq_accepts_any = True, tq_open = 1,
     bq_params = ''ranges=0'', bq_attachment = None\<rparr>"

definition open_env :: client_env where
  "open_env = toy_env\<lparr>ce_enc := (\<lambda>s. case rs_bits s of [b] \<Rightarrow> if s = toy_state b then Inr [b] else Inl Encode | _ \<Rightarrow> Inl Encode),
     ce_dec := (\<lambda>bs. case bs of [b] \<Rightarrow> Inr (toy_state b) | _ \<Rightarrow> Inl Encode)\<rparr>"

definition open_world :: world where
  "open_world = \<lparr>w_part = [0, 0, 0], w_durable = [0, 0, 0], w_sidecar = Inl IoNotFound, w_ops = 0, w_progress = []\<rparr>"

lemma toy_bao_same: "ce_bao open_env = se_bao toy_server_env"
  by (simp add: open_env_def toy_env_def toy_server_env_def)

lemma toy_bao_serves: "bao_serves toy_server_env"
  by (simp add: bao_serves_def toy_server_env_def toy_bao_def toy_content_def is_ok_def)

lemma toy_max: "manifest_max_chunks_per_query (toy_manifest\<lparr>m_ext := toy_ext\<rparr>) = Some 2"
  by code_simp

lemma toy_honest: "honest toy_server_env toy_server_config toy_registered Map.empty toy_content"
proof -
  have "manifest_chunks (toy_manifest\<lparr>m_ext := toy_ext\<rparr>) = Inr toy_chunks" by code_simp
  then show ?thesis
    using toy_bao_serves toy_max
    by (auto simp: honest_def registered_ok_def unchanged_def toy_registered_def toy_server_config_def source_open_def
        fingerprint_def intro!: exI [of _ toy_content])
      (auto simp: toy_server_env_def toy_manifest_def toy_content_def)
qed

lemma registered_chunks: "manifest_chunks (rb_manifest toy_registered) = Inr toy_chunks"
  by code_simp

lemma toy_quiet: "quiet open_env (rb_manifest toy_registered) (rb_chunks toy_registered)"
proof -
  have "tc_count toy_chunks = 1" "unat (div_ceil (1 :: u32) 8) = 1" "WIRE_VERSION = 3" by code_simp+
  then have "\<exists>b. s = toy_state b" if "resume_for s (toy_manifest\<lparr>m_ext := toy_ext\<rparr>) toy_chunks" for s
    using that by (cases s) (auto simp: resume_for_def resume_matches_def toy_state_def toy_manifest_def length_Suc_conv)
  moreover have "ce_enc open_env (toy_state b) = Inr [b]" for b
    by (simp add: open_env_def toy_state_def)
  ultimately have "\<exists>b. ce_enc open_env s = Inr b" if "resume_for s (toy_manifest\<lparr>m_ext := toy_ext\<rparr>) toy_chunks" for s
    using that by metis
  then show ?thesis by (simp add: quiet_def toy_registered_def) (simp add: open_env_def toy_env_def)
qed

lemma toy_not_cancelled: "\<forall>n. \<not> ce_cancelled open_env n"
  by (simp add: open_env_def toy_env_def)

lemma toy_registered_pinned: "pinned open_env (rb_manifest toy_registered) (rb_chunks toy_registered) toy_content"
proof -
  have "codec_ok open_env" by (auto simp: codec_ok_def open_env_def split: list.splits if_splits)
  moreover have "bao_pins (ce_bao open_env) toy_root toy_content" using toy_pins by (simp add: open_env_def)
  ultimately show ?thesis using registered_chunks by (simp add: pinned_def toy_registered_def toy_manifest_def)
qed

lemma toy_registered_resume: "resume_for (toy_state 0) (rb_manifest toy_registered) (rb_chunks toy_registered)"
  using toy_resume_for [of 0] registered_chunks
  by (simp add: resume_for_def resume_matches_def toy_registered_def toy_manifest_def)

lemma toy_registered_backed: "backed (rb_chunks toy_registered) toy_content (toy_state 0) (w_part open_world)"
proof -
  have "tc_count toy_chunks = 1" "\<not> resume_is_set (toy_state 0) 0" by code_simp+
  then show ?thesis by (auto simp: backed_def toy_registered_def word_less_1)
qed

lemma toy_registered_world: "world_inv open_env (rb_manifest toy_registered) (rb_chunks toy_registered) toy_content open_world"
  by (simp add: world_inv_def sidecar_backed_def open_world_def resume_load_def toy_registered_def toy_chunks_def)

lemma toy_served_by: "served_by open_env toy_config (rb_manifest toy_registered) toy_server_env toy_server_config toy_registered Map.empty"
  unfolding served_by_def
proof (intro allI impI)
  fix n holes assume h: "holes \<noteq> []" "ranges_ok (tc_count (rb_chunks toy_registered)) (sv_max_chunks_per_query toy_server_config) holes"
  let ?rs = "[Recv (Inr \<lparr>sm_encoding = ENC_SLICE, sm_key = ''p/a/slice/0'', sm_payload = [1, 2, 3]\<rparr>) 1]"
  define q where "q = \<lparr>tq_key = ''p'' @ ''/'' @ ''a'' @ ''/**'', tq_payload = None, tq_accepts_any = True, tq_open = range_total holes,
    bq_params = ''ranges='' @ format_ranges holes, bq_attachment = None :: bytes option\<rparr>"
  have one: "tc_count (rb_chunks toy_registered) = 1" by code_simp
  have q: "slice_query q ''p'' ''a'' holes" "tq_open q = range_total holes" by (simp_all add: slice_query_def q_def)
  have zero: "i = 0" if i: "in_ranges holes i" for i
  proof -
    obtain r where r: "r \<in> set holes" "i < snd r" using i by (auto simp: in_ranges_def)
    then have "snd r \<le> 1" using h(2) one by (simp add: ranges_ok_def ranges_sorted_def)
    with r(2) have "i < 1" by (rule less_le_trans)
    then show ?thesis by (simp add: word_less_1)
  qed
  have "serve_registered toy_server_env toy_server_config q ''a'' toy_registered Map.empty
      = (Inr (), map (\<lambda>i. Inr (slice_sample toy_server_env toy_server_config ''a'' toy_registered toy_content i)) (concat (map range_indices holes)))"
    using h q toy_honest
    by (intro serve_registered_slices [OF _ q(1)]) (auto simp: honest_def encodes_def toy_server_env_def)
  moreover have "slice_sample toy_server_env toy_server_config ''a'' toy_registered toy_content 0
      = \<lparr>sm_encoding = ENC_SLICE, sm_key = ''p/a/slice/0'', sm_payload = [1, 2, 3]\<rparr>"
    by code_simp
  ultimately have "\<forall>reply \<in> set (snd (serve_registered toy_server_env toy_server_config q ''a'' toy_registered Map.empty)).
      \<exists>now. Recv reply now \<in> set ?rs"
    using zero by (auto simp: in_query_indices [symmetric])
  moreover have "ce_answer open_env n sel = Replies ?rs" for sel
    by (simp add: open_env_def toy_env_def)
  moreover have "m_id (rb_manifest toy_registered) = ''a''" "cc_prefix toy_config = ''p''" by code_simp+
  ultimately show "\<exists>rs q. ce_answer open_env n (slice_selector (cc_prefix toy_config) (m_id (rb_manifest toy_registered)) holes) = Replies rs
      \<and> RecvCancelled \<notin> set rs \<and> slice_query q (cc_prefix toy_config) (m_id (rb_manifest toy_registered)) holes \<and> range_total holes \<le> tq_open q
      \<and> (\<forall>reply \<in> set (snd (serve_registered toy_server_env toy_server_config q (m_id (rb_manifest toy_registered)) toy_registered Map.empty)).
           \<exists>now. Recv reply now \<in> set rs)"
    using q by (intro exI [of _ ?rs] exI [of _ q]) simp
qed

end
