(* ===== verification/Client_Samples.thy ===== *)
theory Client_Samples
  imports Client_Props Push_Exchange Store_Samples
begin

text \<open>Concrete holders, probes and uploads on which the properties of the client are exercised.\<close>

section \<open>Holders\<close>

definition toy_holder :: "string \<Rightarrow> availability option \<Rightarrow> blob_probe" where
  "toy_holder origin a = \<lparr>bp_origin = origin, bp_manifest = toy_manifest, bp_availability = a\<rparr>"

definition toy_holders :: "blob_probe list" where
  "toy_holders = [toy_holder ''p'' None, toy_holder ''q'' None]"

lemma toy_stripe_manifest: "stripe_manifest (Some toy_root) toy_holders = Inr (toy_manifest, toy_chunks)"
  by code_simp

lemma toy_dealing_ends: "dealing_ends toy_config toy_manifest toy_holders"
proof -
  have "query_budget toy_config toy_manifest = 512" by code_simp
  then show ?thesis by (simp add: dealing_ends_def toy_holders_def)
qed

text \<open>A holder that claims the pinned root for a blob without bytes.\<close>

definition hollow_manifest :: manifest where
  "hollow_manifest = toy_manifest\<lparr>m_total_len := 0\<rparr>"

definition hollow_holders :: "blob_probe list" where
  "hollow_holders = [(toy_holder ''evil'' None)\<lparr>bp_manifest := hollow_manifest\<rparr>, toy_holder ''p'' None]"

definition hollow_chunks :: transfer_chunks where
  "hollow_chunks = \<lparr>tc_chunk_size = 65536, tc_total_len = 0\<rparr>"

definition hollow_env :: client_env where
  "hollow_env = toy_env\<lparr>ce_enc := (\<lambda>_. Inr [])\<rparr>"

lemma hollow_start: "stripe_manifest (Some toy_root) hollow_holders = Inr (hollow_manifest, hollow_chunks)"
  by code_simp

text \<open>Two holders of which only the first claims the one chunk, and three that share a budget of one.\<close>

definition lone_holders :: "blob_probe list" where
  "lone_holders = [toy_holder ''p'' (Some (availability_full 1)), toy_holder ''q'' (Some (availability_full 0))]"

lemma refused_twice: "parse_ranges ''ranges=0,0'' n cap = Inl InvalidRanges"
proof -
  have "ranges_param ''ranges=0,0'' = Some ''0,0''" "split_on (CHR '','') ''0,0'' = [''0'', ''0'']" by code_simp+
  moreover have "parse_span ''0'' = Inr (0, 1)" by code_simp
  ultimately show ?thesis by (simp add: parse_ranges_def Let_def MAX_RANGE_SPANS_def)
qed

lemma deal_unfold:
  assumes "live_holders cfg rejects = live" and "missing_chunks s n = missing" and "unat (query_budget cfg m) = b"
    and "deal_copy_count live missing = k" and "length holders = l"
  shows "deal cfg m n holders rejects s = deal_all holders live b k (take (b * length live) missing) 0 (replicate l [])"
  using assms by (simp add: deal_def)

lemma lone_claims: "claims (lone_holders ! 0) 0" "\<not> claims (lone_holders ! Suc 0) 0"
  by code_simp+

lemma lone_deal: "deal toy_config toy_manifest 1 lone_holders [0, 0] (toy_state 0) = Some [[0, 0], []]"
proof -
  have l: "live_holders toy_config [0, 0] = [0, 1]" "missing_chunks (toy_state 0) 1 = [0]" by code_simp+
  have "query_budget toy_config toy_manifest = 512" by code_simp
  then have b: "unat (query_budget toy_config toy_manifest) = 512" by simp
  have k: "deal_copy_count [0, 1] [0] = 2" "length lone_holders = 2" by (simp_all add: deal_copy_count_def lone_holders_def)
  have cs: "deal_copies lone_holders [0, 1] 512 2 0 0 0 [[], []] = Some (3, [[0, 0], []])"
    using lone_claims by (simp add: deal_copies_step has_room_def)
  have "deal toy_config toy_manifest 1 lone_holders [0, 0] (toy_state 0)
      = deal_all lone_holders [0, 1] 512 2 (take (512 * length [0 :: nat, 1]) [0]) 0 (replicate 2 [])"
    by (rule deal_unfold [OF l b k])
  also have "take (512 * length [0 :: nat, 1]) [0 :: u32] = [0]" by simp
  also have "replicate 2 ([] :: u32 list) = [[], []]" by (simp add: numeral_2_eq_2)
  finally show ?thesis unfolding deal_all.simps cs by simp
qed

definition narrow_config :: client_config where
  "narrow_config = toy_config\<lparr>cc_max_chunks_per_query := 1\<rparr>"

definition two_chunks :: transfer_chunks where
  "two_chunks = \<lparr>tc_chunk_size = 65536, tc_total_len = 65537\<rparr>"

definition two_manifest :: manifest where
  "two_manifest = toy_manifest\<lparr>m_total_len := 65537\<rparr>"

definition three_holders :: "blob_probe list" where
  "three_holders = map (\<lambda>o'. (toy_holder o' None)\<lparr>bp_manifest := two_manifest\<rparr>) [''p'', ''q'', ''r'']"

lemma three_claim: "h < 3 \<Longrightarrow> claims (three_holders ! h) i"
  by (auto simp: three_holders_def claims_def toy_holder_def numeral_3_eq_3 less_Suc_eq nth_Cons split: nat.splits)

lemma three_spin: "deal narrow_config two_manifest 2 three_holders [0, 0, 0] (resume_fresh two_manifest 2) = None"
proof -
  have l: "live_holders narrow_config [0, 0, 0] = [0, 1, 2]" "missing_chunks (resume_fresh two_manifest 2) 2 = [0, 1]"
      "query_budget narrow_config two_manifest = 1" by code_simp+
  have first: "deal_copies three_holders [0, 1, 2] 1 2 0 0 0 [[], [], []] = Some (2, [[0], [0], []])"
    using three_claim by (simp add: deal_copies_step has_room_def)
  have "deal_copies three_holders [0, 1, 2] 1 2 1 (Suc 0) 3 [[0], [0], [1]] = None"
    by (rule deal_spins) (auto simp: has_room_def)
  then have "deal_copies three_holders [0, 1, 2] 1 2 1 0 2 [[0], [0], []] = None"
    using three_claim [of 2 1] deal_copies_step [of 0 2 2 "[0, 1, 2]" 2 three_holders 1 1 "[[0], [0], []]"]
    by (simp add: has_room_def)
  then have none: "deal_all three_holders [0, 1, 2] 1 2 [0, 1] 0 [[], [], []] = None"
    unfolding deal_all.simps first by simp
  have k: "deal_copy_count [0, 1, 2] [0, 1] = 2" "length three_holders = 3"
    by (simp_all add: deal_copy_count_def three_holders_def)
  have b: "unat (query_budget narrow_config two_manifest) = 1" using l(3) by simp
  have "deal narrow_config two_manifest 2 three_holders [0, 0, 0] (resume_fresh two_manifest 2)
      = deal_all three_holders [0, 1, 2] 1 2 (take (1 * length [0 :: nat, 1, 2]) [0, 1]) 0 (replicate 3 [])"
    by (rule deal_unfold [OF l(1,2) b k])
  also have "take (1 * length [0 :: nat, 1, 2]) [0 :: u32, 1] = [0, 1]" by simp
  also have "replicate 3 ([] :: u32 list) = [[], [], []]" by (simp add: numeral_3_eq_3)
  finally show ?thesis unfolding none .
qed

lemma spin_run:
  "fill_holes_striped fuel toy_env N narrow_config two_manifest two_chunks three_holders (resume_fresh two_manifest 2) stats w = None"
proof -
  have "\<not> resume_is_complete (resume_fresh two_manifest 2) 2" "tc_count two_chunks = 2"
      "live_holders narrow_config [0, 0, 0] \<noteq> []" by code_simp+
  moreover have "replicate (length three_holders) 0 = [0, 0, 0 :: u32]" by (simp add: three_holders_def)
  ultimately show ?thesis
    using three_spin by (cases fuel) (simp_all add: fill_holes_striped_def fill_start_def stripe_turn_def Let_def toy_env_def)
qed

lemma lone_request: "stripe_requests toy_manifest lone_holders [0, 1] [[0, 0], []] = [(0, ''p/a/**?ranges=0,0'')]"
  by code_simp

lemma lone_share_refused:
  "deal toy_config toy_manifest 1 lone_holders [0, 0] (toy_state 0) = Some [[0, 0], []]
   \<and> stripe_requests toy_manifest lone_holders [0, 1] [[0, 0], []] = [(0, ''p/a/**?ranges=0,0'')]
   \<and> parse_ranges ''ranges=0,0'' n cap = Inl InvalidRanges"
  using lone_deal lone_request refused_twice by blast

lemma hollow_refused:
  "\<not> is_ok (start_download (hollow_env\<lparr>ce_dec_manifest := (\<lambda>_. Inr hollow_manifest)\<rparr>) toy_config ''a'' (Some toy_root))"
  by code_simp

lemma hollow_probe:
  "check_dest hollow_env Refuse toy_disk = (Inr (), toy_disk\<lparr>dk_ops := 1\<rparr>)"
  "then_io (disk_op hollow_env (\<lambda>d. d) (toy_disk\<lparr>dk_ops := 1\<rparr>)) (\<lambda>_. resume_probe hollow_env hollow_manifest hollow_chunks)
     = (Inr (resume_fresh hollow_manifest 0), toy_disk\<lparr>dk_part := Some [], dk_sidecar := Inr RESUME_MAGIC, dk_ops := 5,
          dk_progress := [Started 0 0]\<rparr>)"
  by code_simp+

lemma hollow_run:
  "\<exists>st d. download_striped_inner (Suc fuel) hollow_env N toy_config (Some toy_root) hollow_holders Refuse toy_disk = Some (Inr st, d)
     \<and> dk_dest d = Some []"
proof -
  have "resume_is_complete (resume_fresh hollow_manifest 0) 0" "tc_count hollow_chunks = 0" by code_simp+
  moreover have "ce_faults hollow_env n = None" "ce_enc hollow_env s = Inr []" "ce_dest_race hollow_env = None" for n s
    by (simp_all add: hollow_env_def toy_env_def)
  ultimately show ?thesis
    using hollow_probe hollow_start
    by (simp add: download_striped_inner_def fill_holes_striped_def fill_start_def stripe_turn_def stripe_save_def Let_def disk_op_def
        on_world_def commit_def save_if_def save_sidecar_def resume_save_def sidecar_payload_def next_op_def to_world_def from_world_def
        finish_download_def place_download_def check_dest_def toy_disk_def)
qed

section \<open>An upload\<close>

definition enc_pairs :: "range list \<Rightarrow> bytes" where
  "enc_pairs rs = concat (map (\<lambda>(a, b). to_le_bytes 4 a @ to_le_bytes 4 b) rs)"

fun dec_pairs :: "nat \<Rightarrow> bytes \<Rightarrow> range list" where
  "dec_pairs 0 bs = []"
| "dec_pairs (Suc n) bs = (from_le_bytes (take 4 bs), from_le_bytes (take 4 (drop 4 bs))) # dec_pairs n (drop 8 bs)"

lemma length_enc_pairs: "length (enc_pairs rs) = 8 * length rs"
  by (induction rs) (auto simp: enc_pairs_def)

lemma dec_enc_pairs: "dec_pairs (length rs) (enc_pairs rs) = rs"
  by (induction rs) (auto simp: enc_pairs_def from_to_le_bytes)

definition push_env :: server_env where
  "push_env = toy_server_env\<lparr>se_enc_u32 := (\<lambda>n. Inr (to_le_bytes 4 n)), se_enc_ranges := (\<lambda>rs. Inr (enc_pairs rs))\<rparr>"

definition toy_uploader :: upload_env where
  "toy_uploader = \<lparr>ue_lib = push_env, ue_dec_ranges = (\<lambda>b. Inr (dec_pairs (length b div 8) b)),
     ue_dec_u32 = (\<lambda>b. Inr (from_le_bytes b)), ue_cancelled = (\<lambda>_. False)\<rparr>"

definition toy_source :: upload_src where
  "toy_source = \<lparr>us_is_path = True, us_hash = Inr toy_content, us_reopen = None, us_read = (\<lambda>_. toy_content),
     us_fp_then = None, us_fp_now = None\<rparr>"

definition toy_spec :: blob_spec where
  "toy_spec = \<lparr>bs_id = ''a'', bs_filename = None, bs_chunk_size = 65536, bs_created_ms = 0\<rparr>"

lemma toy_acked: "acked toy_uploader push_env"
  by (simp add: acked_def toy_uploader_def push_env_def from_to_le_bytes length_enc_pairs dec_enc_pairs)

lemma toy_upload_manifest: "upload_manifest toy_uploader toy_spec toy_source = Inr ([7], toy_chunks, toy_manifest)"
  by code_simp

lemma toy_receives: "receives push_env toy_server_config toy_push toy_manifest toy_chunks None toy_content"
proof -
  have "manifest_validate toy_manifest (pu_max_blob_size toy_push) = Inr ()" "manifest_chunks toy_manifest = Inr toy_chunks"
    by code_simp+
  moreover have "bao_serves push_env" using toy_bao_serves by (simp add: push_env_def bao_serves_def)
  moreover have "bao_pins (se_bao push_env) (m_root toy_manifest) toy_content"
    using toy_bao_pins by (simp add: push_env_def toy_server_env_def)
  ultimately show ?thesis
    by (simp add: receives_def toy_server_config_def) (simp add: push_env_def toy_server_env_def toy_manifest_def toy_content_def is_ok_def)
qed

lemma toy_reaches: "reaches ''p'' (sv_prefix toy_server_config)" "is_concrete ''p''"
  by code_simp+

text \<open>A peer that acknowledges everything.\<close>

definition acking :: "unit push_net" where
  "acking n key payload token = (Replies [Recv (Inr \<lparr>sm_encoding = ENC_PUSH, sm_key = key, sm_payload = [0, 0, 0, 0]\<rparr>) 0], n)"

lemma toy_sent:
  "upload_wanted toy_uploader acking ''p'' None toy_source [7] toy_chunks toy_manifest [(0, 1)]
      \<lparr>up_net = (), up_sent = 0, up_bytes = 0, up_reads = 0, up_progress = []\<rparr>
     = (Inr toy_manifest, \<lparr>up_net = (), up_sent = 1, up_bytes = 3, up_reads = 1,
          up_progress = [Started 3 1, ChunkDone 0 1 1 3, Completed]\<rparr>)"
  by code_simp

section \<open>A probe\<close>

definition toy_probes :: probe_env where
  "toy_probes = \<lparr>pv_valid_ke = (\<lambda>_. True), pv_dec_manifest = (\<lambda>_. Inr toy_manifest), pv_dec_avail = (\<lambda>_. Inr (availability_full 1)),
     pv_manifest_replies = (\<lambda>_. Replies [Recv (Inr \<lparr>sm_encoding = ENC_MANIFEST, sm_key = ''x/a/manifest'', sm_payload = []\<rparr>) 0,
        Recv (Inr \<lparr>sm_encoding = ENC_MANIFEST, sm_key = ''x/a/manifest'', sm_payload = []\<rparr>) 0,
        Recv (Inr \<lparr>sm_encoding = ENC_MANIFEST, sm_key = ''y/a/manifest'', sm_payload = []\<rparr>) 0]),
     pv_have_replies = (\<lambda>_. Replies [Recv (Inr \<lparr>sm_encoding = ENC_AVAIL, sm_key = ''y/a/have'', sm_payload = []\<rparr>) 0])\<rparr>"

definition probing_client :: blob_client where
  "probing_client = \<lparr>bc_cfg = toy_config, bc_max_probe_replies = 4, bc_overwrite = Refuse, bc_active = {}\<rparr>"

lemma toy_entries:
  "probe_entry toy_probes toy_config ''a'' [] (Inr \<lparr>sm_encoding = ENC_MANIFEST, sm_key = ''x/a/manifest'', sm_payload = []\<rparr>)
     = Some (toy_holder ''x'' None)"
  "probe_entry toy_probes toy_config ''a'' [toy_holder ''x'' None]
     (Inr \<lparr>sm_encoding = ENC_MANIFEST, sm_key = ''x/a/manifest'', sm_payload = []\<rparr>) = None"
  "probe_entry toy_probes toy_config ''a'' [toy_holder ''x'' None]
     (Inr \<lparr>sm_encoding = ENC_MANIFEST, sm_key = ''y/a/manifest'', sm_payload = []\<rparr>) = Some (toy_holder ''y'' None)"
  by code_simp+

lemma toy_have:
  "note_have toy_probes ''a'' (Inr \<lparr>sm_encoding = ENC_AVAIL, sm_key = ''y/a/have'', sm_payload = []\<rparr>)
     [toy_holder ''x'' None, toy_holder ''y'' None] = [toy_holder ''x'' None, toy_holder ''y'' (Some (availability_full 1))]"
  by code_simp

lemma toy_probed:
  "client_probe toy_probes probing_client ''a'' = Inr [toy_holder ''x'' None, toy_holder ''y'' (Some (availability_full 1))]"
proof -
  have "validate_id ''a'' = Inr ()" by code_simp
  then show ?thesis
    using toy_entries toy_have by (simp add: client_probe_def probing_client_def Let_def toy_probes_def)
qed

end
