(* ===== verification/Fanout.thy ===== *)
theory Fanout
  imports Slice_Exchange
begin

text \<open>
  One-to-many fanout (\<open>src/src/fanout.rs\<close>): a blob is published once as a stream of samples, its
  manifest first and then one bao slice per chunk, and every receiver verifies it on its own. What
  a subscriber sees is input: at every turn of the receive loops the clock, the cancellation flag
  and the outcome of the bounded wait. Publisher cache, heartbeat and replay are zenoh-ext's; they
  decide which samples are delivered and when.
\<close>

section \<open>Messages and configuration\<close>

definition fanout_key :: "string \<Rightarrow> string \<Rightarrow> string" where
  "fanout_key prefix bid = prefix @ ''/'' @ bid @ ''/fanout''"

datatype fanout_frame = ManifestFrame manifest | SliceFrame u32 bytes

record fanout_message =
  fx_version :: u16
  fx_frame :: fanout_frame

text \<open>Durations and clock readings are nanoseconds.\<close>

record fanout_config =
  fo_heartbeat :: nat
  fo_stall_timeout :: nat
  fo_overwrite :: overwrite
  fo_max_early_bytes :: nat
  fo_max_blob_size :: u64
  fo_cache_samples :: nat

definition fanout_config_default :: fanout_config where
  "fanout_config_default = \<lparr>fo_heartbeat = 500 * 1000000, fo_stall_timeout = 30 * 1000000000,
     fo_overwrite = Refuse, fo_max_early_bytes = 16 * 1024 * 1024, fo_max_blob_size = push_bit 40 1,
     fo_cache_samples = 4096\<rparr>"

definition EARLY_SLICE_MAX_FRAMES :: nat where
  "EARLY_SLICE_MAX_FRAMES = 512"

section \<open>Publishing\<close>

text \<open>\<open>fp_put\<close> says whether the put with that number succeeds.\<close>

record fanout_publisher =
  fp_server :: server_env
  fp_enc :: "fanout_message \<Rightarrow> bytes res"
  fp_declare :: "string \<Rightarrow> bool"
  fp_put :: "nat \<Rightarrow> bool"

definition fanout_cache_depth :: "fanout_config \<Rightarrow> u32 \<Rightarrow> nat" where
  "fanout_cache_depth cfg n = min (max (fo_cache_samples cfg) 1) (unat n + 1)"

definition fanout_manifest ::
  "server_env \<Rightarrow> blob_spec \<Rightarrow> bytes \<Rightarrow> (manifest \<times> transfer_chunks \<times> outboard) res" where
  "fanout_manifest E spec content =
     and_then (from_io (se_compute_outboard E content)) (\<lambda>ob.
     and_then (transfer_chunks_new (bs_chunk_size spec) (of_nat (length content))) (\<lambda>c.
     and_then (blob_id_new (bs_id spec)) (\<lambda>i.
       let m = \<lparr>m_version = WIRE_VERSION, m_id = i, m_filename = bs_filename spec,
                m_total_len = of_nat (length content), m_chunk_size = bs_chunk_size spec,
                m_root = se_root E ob, m_created_ms = bs_created_ms spec, m_ext = ext_new\<rparr>
       in and_then (manifest_validate m U64_MAX) (\<lambda>_. Inr (m, c, ob)))))"

definition fanout_put ::
  "fanout_publisher \<Rightarrow> string \<Rightarrow> fanout_frame \<Rightarrow> sample list \<Rightarrow> unit res \<times> sample list" where
  "fanout_put P key frame out =
     (case fp_enc P \<lparr>fx_version = WIRE_VERSION, fx_frame = frame\<rparr> of
        Inl e \<Rightarrow> (Inl e, out)
      | Inr payload \<Rightarrow>
          if fp_put P (length out)
          then (Inr (), out @ [\<lparr>sm_encoding = ENC_FANOUT, sm_key = key, sm_payload = payload\<rparr>])
          else (Inl Zenoh, out))"

fun fanout_slices ::
  "fanout_publisher \<Rightarrow> string \<Rightarrow> transfer_chunks \<Rightarrow> outboard \<Rightarrow> bytes \<Rightarrow> u32 list \<Rightarrow> sample list
   \<Rightarrow> unit res \<times> sample list" where
  "fanout_slices P key c ob content [] out = (Inr (), out)"
| "fanout_slices P key c ob content (i # is) out =
     (case se_encode_slice (fp_server P) ob content (chunk_range (se_bao (fp_server P)) (byte_range c i)) of
        Inl e \<Rightarrow> (Inl (Io e), out)
      | Inr bao \<Rightarrow> then_io (fanout_put P key (SliceFrame i bao) out) (\<lambda>_. fanout_slices P key c ob content is))"

text \<open>The publishing task reads the file again; it may have gone or changed since it was hashed.\<close>

definition fanout_task ::
  "fanout_publisher \<Rightarrow> string \<Rightarrow> manifest \<Rightarrow> transfer_chunks \<Rightarrow> outboard \<Rightarrow> io_error + bytes
   \<Rightarrow> unit res \<times> sample list" where
  "fanout_task P key m c ob reopened =
     (if \<not> fp_declare P key then (Inl Zenoh, [])
      else then_io (fanout_put P key (ManifestFrame m) []) (\<lambda>_ out.
        case reopened of
          Inl e \<Rightarrow> (Inl (Io e), out)
        | Inr content \<Rightarrow> fanout_slices P key c ob content (map of_nat [0..<unat (tc_count c)]) out))"

definition fanout_file ::
  "fanout_publisher \<Rightarrow> serve_prefix \<Rightarrow> blob_spec \<Rightarrow> io_error + bytes \<Rightarrow> io_error + bytes
   \<Rightarrow> (manifest \<times> unit res \<times> sample list) res" where
  "fanout_file P prefix spec opened reopened =
     and_then (from_io opened) (\<lambda>content.
     and_then (fanout_manifest (fp_server P) spec content) (\<lambda>(m, c, ob).
       Inr (m, fanout_task P (fanout_key prefix (m_id m)) m c ob reopened)))"

section \<open>Receiving: the manifest\<close>

datatype fan_wait = Delivered sample | NoSample | WaitCancelled

record fan_turn =
  ft_now :: nat
  ft_cancelled :: bool
  ft_wait :: fan_wait

text \<open>
  \<open>fn_started\<close> and \<open>fn_drained\<close> are the clock when waiting for the manifest begins and when the
  early slices have been applied.
\<close>

record fanout_env =
  fn_client :: client_env
  fn_dec :: "bytes \<Rightarrow> fanout_message res"
  fn_subscribe :: "string \<Rightarrow> bool"
  fn_started :: nat
  fn_drained :: nat

definition fan_frame :: "fanout_env \<Rightarrow> sample \<Rightarrow> fanout_frame option" where
  "fan_frame E sm =
     (if sm_encoding sm \<noteq> ENC_FANOUT then None
      else case fn_dec E (sm_payload sm) of
             Inl _ \<Rightarrow> None
           | Inr msg \<Rightarrow> if fx_version msg \<noteq> WIRE_VERSION then None else Some (fx_frame msg))"

definition fan_verdict ::
  "fanout_env \<Rightarrow> fanout_config \<Rightarrow> string \<Rightarrow> hash option \<Rightarrow> manifest \<Rightarrow> transfer_chunks res" where
  "fan_verdict E cfg bid expected_root m =
     (let empty = ce_blake3 (fn_client E) [] in
      and_then (manifest_validate m (fo_max_blob_size cfg)) (\<lambda>_.
      and_then
        (if m_id m \<noteq> bid then Inl MalformedMessage
         else case expected_root of
                Some h \<Rightarrow>
                  if m_root m \<noteq> h then Inl (RootMismatch h (m_root m))
                  else if m_total_len m = 0 \<and> m_root m \<noteq> empty then Inl (RootMismatch empty (m_root m))
                  else Inr ()
              | None \<Rightarrow>
                  if m_total_len m = 0 \<and> m_root m \<noteq> empty then Inl (RootMismatch empty (m_root m))
                  else Inr ()) (\<lambda>_. manifest_chunks m)))"

record fan_early =
  ea_frames :: "(u32 \<times> bytes) list"
  ea_bytes :: nat
  ea_reject :: "blob_error option"
  ea_events :: "progress list"

definition fan_early_start :: fan_early where
  "fan_early_start = \<lparr>ea_frames = [], ea_bytes = 0, ea_reject = None, ea_events = []\<rparr>"

definition early_failure :: "fan_early \<Rightarrow> blob_error" where
  "early_failure ea = (case ea_reject ea of None \<Rightarrow> Incomplete 0 0 | Some e \<Rightarrow> e)"

definition early_cancel :: "fan_early \<Rightarrow> (manifest \<times> transfer_chunks) res \<times> fan_early" where
  "early_cancel ea = (Inl (Cancelled 0 0), ea\<lparr>ea_events := ea_events ea @ [CancelledAt 0 0]\<rparr>)"

definition buffer_early :: "fanout_config \<Rightarrow> u32 \<Rightarrow> bytes \<Rightarrow> fan_early \<Rightarrow> fan_early" where
  "buffer_early cfg index bao ea =
     (if length (ea_frames ea) < EARLY_SLICE_MAX_FRAMES \<and> ea_bytes ea + length bao \<le> fo_max_early_bytes cfg
      then ea\<lparr>ea_frames := ea_frames ea @ [(index, bao)], ea_bytes := ea_bytes ea + length bao\<rparr>
      else ea)"

text \<open>One turn: \<open>Inl\<close> goes round again, \<open>Inr\<close> leaves the loop with a manifest or an error.\<close>

definition early_turn ::
  "fanout_env \<Rightarrow> fanout_config \<Rightarrow> string \<Rightarrow> hash option \<Rightarrow> fan_turn \<Rightarrow> fan_early
   \<Rightarrow> fan_early + ((manifest \<times> transfer_chunks) res \<times> fan_early)" where
  "early_turn E cfg bid expected_root t ea =
     (if fo_stall_timeout cfg < ft_now t - fn_started E then Inr (Inl (early_failure ea), ea)
      else if ft_cancelled t then Inr (early_cancel ea)
      else case ft_wait t of
             WaitCancelled \<Rightarrow> Inr (early_cancel ea)
           | NoSample \<Rightarrow> Inr (Inl (early_failure ea), ea)
           | Delivered sm \<Rightarrow>
               (case fan_frame E sm of
                  None \<Rightarrow> Inl ea
                | Some (ManifestFrame m) \<Rightarrow>
                    (case fan_verdict E cfg bid expected_root m of
                       Inr c \<Rightarrow> Inr (Inr (m, c), ea)
                     | Inl e \<Rightarrow> Inl (ea\<lparr>ea_reject := (case ea_reject ea of None \<Rightarrow> Some e | Some e0 \<Rightarrow> Some e0)\<rparr>))
                | Some (SliceFrame index bao) \<Rightarrow> Inl (buffer_early cfg index bao ea)))"

fun early_loop ::
  "nat \<Rightarrow> fanout_env \<Rightarrow> fanout_config \<Rightarrow> string \<Rightarrow> hash option \<Rightarrow> (nat \<Rightarrow> fan_turn) \<Rightarrow> nat \<Rightarrow> fan_early
   \<Rightarrow> ((manifest \<times> transfer_chunks) res \<times> fan_early \<times> nat) option" where
  "early_loop 0 E cfg bid root S i ea = None"
| "early_loop (Suc fuel) E cfg bid root S i ea =
     (case early_turn E cfg bid root (S i) ea of
        Inl ea' \<Rightarrow> early_loop fuel E cfg bid root S (Suc i) ea'
      | Inr (r, ea') \<Rightarrow> Some (r, ea', Suc i))"

section \<open>Receiving: the slices\<close>

record fan =
  fa_world :: world
  fa_present :: "bool list"
  fa_received :: u32
  fa_stats :: transfer_stats
  fa_progressed :: u32
  fa_last_progress :: nat

definition apply_slice ::
  "client_env \<Rightarrow> manifest \<Rightarrow> transfer_chunks \<Rightarrow> u32 \<Rightarrow> bytes \<Rightarrow> fan \<Rightarrow> unit res \<times> fan" where
  "apply_slice E m c index bao f =
     (if index \<ge> tc_count c \<or> fa_present f ! unat index then (Inr (), f)
      else case decode_slice (ce_bao E) (m_root m) (m_total_len m)
                  (chunk_range (ce_bao E) (byte_range c index)) bao push_leaf [] of
        (Inl _, _) \<Rightarrow> (Inr (), f\<lparr>fa_stats := (fa_stats f)\<lparr>ts_rejected := ts_rejected (fa_stats f) + 1\<rparr>\<rparr>)
      | (Inr _, leaves) \<Rightarrow>
          (case write_leaves E leaves (fa_world f) of
             (Inl e, w) \<Rightarrow> (Inl e, f\<lparr>fa_world := w\<rparr>)
           | (Inr _, w) \<Rightarrow>
               let received = fa_received f + 1; st = fa_stats f;
                   got = ts_bytes_fetched st + ucast (len_of c index)
               in (Inr (), f\<lparr>fa_world := emit (ChunkDone index received (tc_count c) got) w,
                            fa_present := (fa_present f)[unat index := True], fa_received := received,
                            fa_stats := st\<lparr>ts_chunks_fetched := ts_chunks_fetched st + 1,
                                         ts_bytes_fetched := got\<rparr>\<rparr>)))"

fun drain_early ::
  "client_env \<Rightarrow> manifest \<Rightarrow> transfer_chunks \<Rightarrow> (u32 \<times> bytes) list \<Rightarrow> fan \<Rightarrow> unit res \<times> fan" where
  "drain_early E m c [] f = (Inr (), f)"
| "drain_early E m c ((index, bao) # rest) f =
     then_io (apply_slice E m c index bao f) (\<lambda>_. drain_early E m c rest)"

definition fan_cancel :: "u32 \<Rightarrow> fan \<Rightarrow> unit res \<times> fan" where
  "fan_cancel tot f =
     (Inl (Cancelled (fa_received f) tot),
      f\<lparr>fa_world := emit (CancelledAt (fa_received f) tot) (fa_world f)\<rparr>)"

definition slice_turn ::
  "fanout_env \<Rightarrow> fanout_config \<Rightarrow> manifest \<Rightarrow> transfer_chunks \<Rightarrow> fan_turn \<Rightarrow> fan \<Rightarrow> fan turn" where
  "slice_turn E cfg m c t f =
     (let count = tc_count c; gained = fa_progressed f < fa_received f;
          f1 = (if gained then f\<lparr>fa_progressed := fa_received f, fa_last_progress := ft_now t\<rparr> else f)
      in if \<not> fa_received f < count then Break f
         else if \<not> gained \<and> fo_stall_timeout cfg < ft_now t - fa_last_progress f
              then Return (Inl (Incomplete (fa_received f) count), f)
         else if ft_cancelled t then Return (fan_cancel count f1)
         else case ft_wait t of
                WaitCancelled \<Rightarrow> Return (fan_cancel count f1)
              | NoSample \<Rightarrow> Return (Inl (Incomplete (fa_received f1) count), f1)
              | Delivered sm \<Rightarrow>
                  (case fan_frame E sm of
                     Some (SliceFrame index bao) \<Rightarrow>
                       (case apply_slice (fn_client E) m c index bao f1 of
                          (Inl e, f2) \<Rightarrow> Return (Inl e, f2)
                        | (Inr _, f2) \<Rightarrow> Continue f2)
                   | _ \<Rightarrow> Continue f1))"

text \<open>The loop, and the \<open>sync_data\<close> that follows it.\<close>

fun slice_loop ::
  "nat \<Rightarrow> fanout_env \<Rightarrow> fanout_config \<Rightarrow> manifest \<Rightarrow> transfer_chunks \<Rightarrow> (nat \<Rightarrow> fan_turn) \<Rightarrow> nat \<Rightarrow> fan
   \<Rightarrow> (unit res \<times> fan) option" where
  "slice_loop 0 E cfg m c S i f = None"
| "slice_loop (Suc fuel) E cfg m c S i f =
     (case slice_turn E cfg m c (S i) f of
        Continue f' \<Rightarrow> slice_loop fuel E cfg m c S (Suc i) f'
      | Return r \<Rightarrow> Some r
      | Break f' \<Rightarrow>
          Some (case commit (fn_client E) (fa_world f') of (r, w) \<Rightarrow> (r, f'\<lparr>fa_world := w\<rparr>)))"

definition fan_start :: "transfer_chunks \<Rightarrow> world \<Rightarrow> fan" where
  "fan_start c w = \<lparr>fa_world = w, fa_present = replicate (unat (tc_count c)) False, fa_received = 0,
     fa_stats = stats_default, fa_progressed = 0, fa_last_progress = 0\<rparr>"

definition receive_slices ::
  "nat \<Rightarrow> fanout_env \<Rightarrow> fanout_config \<Rightarrow> manifest \<Rightarrow> transfer_chunks \<Rightarrow> (u32 \<times> bytes) list
   \<Rightarrow> (nat \<Rightarrow> fan_turn) \<Rightarrow> nat \<Rightarrow> world \<Rightarrow> (unit res \<times> fan) option" where
  "receive_slices fuel E cfg m c early S i w =
     (case drain_early (fn_client E) m c early (fan_start c w) of
        (Inl e, f) \<Rightarrow> Some (Inl e, f)
      | (Inr _, f) \<Rightarrow> slice_loop fuel E cfg m c S i
                      (f\<lparr>fa_progressed := fa_received f, fa_last_progress := fn_drained E\<rparr>))"

section \<open>A whole reception\<close>

definition fan_note :: "progress list \<Rightarrow> disk \<Rightarrow> disk" where
  "fan_note ps d = d\<lparr>dk_progress := dk_progress d @ ps\<rparr>"

text \<open>Parent directory, a sized partial file, and the handle the slices are written through.\<close>

definition fan_create :: "client_env \<Rightarrow> manifest \<Rightarrow> disk \<Rightarrow> unit res \<times> disk" where
  "fan_create E m d =
     then_io (disk_op E (\<lambda>d. d) d) (\<lambda>_ d1.
     then_io (disk_op E (\<lambda>d. d\<lparr>dk_part := Some [], dk_durable := []\<rparr>) d1) (\<lambda>_ d2.
     then_io (disk_op E (\<lambda>d. d\<lparr>dk_part := Some (set_len (unat (m_total_len m)) []),
                              dk_durable := set_len (unat (m_total_len m)) []\<rparr>) d2) (\<lambda>_ d3.
       disk_op E (\<lambda>d. d) d3)))"

definition fan_place :: "client_env \<Rightarrow> overwrite \<Rightarrow> transfer_stats \<Rightarrow> disk \<Rightarrow> transfer_stats res \<times> disk" where
  "fan_place E ow stats d =
     then_io (check_dest E ow (case ce_dest_race E of None \<Rightarrow> d | Some x \<Rightarrow> d\<lparr>dk_dest := Some x\<rparr>)) (\<lambda>_ d0.
     then_io (disk_op E (\<lambda>d. d\<lparr>dk_dest := dk_part d, dk_part := None\<rparr>) d0) (\<lambda>_ d1.
       (Inr stats, fan_note [Completed] d1)))"

definition fan_finish ::
  "client_env \<Rightarrow> overwrite \<Rightarrow> disk \<Rightarrow> unit res \<times> fan \<Rightarrow> transfer_stats res \<times> disk" where
  "fan_finish E ow d rf =
     (case rf of
        (Inl e, f) \<Rightarrow>
          (Inl e, snd (disk_op E (\<lambda>d. d\<lparr>dk_part := None\<rparr>) (from_world d (fa_world f))))
      | (Inr _, f) \<Rightarrow> fan_place E ow (fa_stats f) (from_world d (fa_world f)))"

definition receive_fanout ::
  "nat \<Rightarrow> fanout_env \<Rightarrow> fanout_config \<Rightarrow> query_prefix \<Rightarrow> string \<Rightarrow> hash option \<Rightarrow> (nat \<Rightarrow> fan_turn)
   \<Rightarrow> disk \<Rightarrow> (transfer_stats res \<times> disk) option" where
  "receive_fanout fuel E cfg prefix bid expected_root S d =
     (let CE = fn_client E; ow = fo_overwrite cfg in
      case check_dest CE ow d of
        (Inl e, d0) \<Rightarrow> Some (Inl e, d0)
      | (Inr _, d0) \<Rightarrow>
          if \<not> fn_subscribe E (fanout_key prefix bid) then Some (Inl Zenoh, d0)
          else case early_loop fuel E cfg bid expected_root S 0 fan_early_start of
            None \<Rightarrow> None
          | Some (Inl e, ea, _) \<Rightarrow> Some (Inl e, fan_note (ea_events ea) d0)
          | Some (Inr (m, c), ea, i) \<Rightarrow>
              (case fan_create CE m (fan_note [Started (m_total_len m) (tc_count c)] d0) of
                 (Inl e, d1) \<Rightarrow> Some (Inl e, d1)
               | (Inr _, d1) \<Rightarrow>
                   map_option (fan_finish CE ow d1)
                     (receive_slices fuel E cfg m c (ea_frames ea) S i (to_world d1))))"

end
