(* ===== verification/Fanout_Props.thy ===== *)
theory Fanout_Props
  imports Fanout
begin

text \<open>
  Fanout: what a receiver that succeeds has in place, what one that fails leaves behind, that no
  stream of samples holds a receiver open once the clock moves on.
\<close>

section \<open>Verified chunks only\<close>

definition fan_counts :: "transfer_chunks \<Rightarrow> fan \<Rightarrow> bool" where
  "fan_counts c f \<longleftrightarrow> length (fa_present f) = unat (tc_count c)
     \<and> unat (fa_received f) = length (filter id (fa_present f))"

definition fan_inv :: "transfer_chunks \<Rightarrow> bytes \<Rightarrow> fan \<Rightarrow> bool" where
  "fan_inv c content f \<longleftrightarrow> fan_counts c f
     \<and> length (w_part (fa_world f)) = unat (tc_total_len c)
     \<and> (\<forall>i < tc_count c. fa_present f ! unat i \<longrightarrow> chunk_holds c content (w_part (fa_world f)) i)"

text \<open>The lemmas on slices of the download client, which do not depend on its sidecar codec.\<close>

definition fan_pinned :: "client_env \<Rightarrow> manifest \<Rightarrow> transfer_chunks \<Rightarrow> bytes \<Rightarrow> bool" where
  "fan_pinned E m c content \<longleftrightarrow> bao_pins (ce_bao E) (m_root m) content \<and> manifest_chunks m = Inr c"

lemma fan_pinned_pinned: "fan_pinned E m c content \<Longrightarrow> pinned (E\<lparr>ce_enc := \<lambda>_. Inl Encode\<rparr>) m c content"
  by (simp add: fan_pinned_def pinned_def codec_ok_def)

lemma fan_pinned_wf: "fan_pinned E m c content \<Longrightarrow> tc_wf c \<and> tc_total_len c = m_total_len m"
  by (simp add: fan_pinned_def manifest_chunks_Inr)

lemma fan_slice_written:
  assumes "fan_pinned E m c content" "i < tc_count c" "length (w_part w) = unat (tc_total_len c)"
    and "decode_slice (ce_bao E) (m_root m) (m_total_len m) (chunk_range (ce_bao E) (byte_range c i)) bao push_leaf []
      = (Inr (), ls)"
    and "write_leaves E ls w = (r, w')"
  shows "keeps_bytes content (w_part w) (w_part w') \<and> (r = Inr () \<longrightarrow> chunk_holds c content (w_part w') i)"
proof -
  note pin = fan_pinned_pinned [OF assms(1)]
  have "leaves_ok content (length (w_part w)) ls"
    using decoded_leaves_ok [OF pin] assms(3,4) by simp
  from write_leaves_effect [OF this assms(5)] show ?thesis
    using decoded_chunk_holds [OF pin assms(2)] assms(4) by simp
qed

lemma chunk_holds_keeps: "keeps_bytes content f g \<Longrightarrow> chunk_holds c content f i \<Longrightarrow> chunk_holds c content g i"
  by (auto simp: chunk_holds_def keeps_bytes_def)

lemma emit_part [simp]: "w_part (emit p w) = w_part w"
  by (simp add: emit_def)

lemma filter_id_update:
  "i < length bs \<Longrightarrow> \<not> bs ! i \<Longrightarrow> length (filter id (bs[i := True])) = Suc (length (filter id bs))"
  by (induction bs arbitrary: i) (auto split: nat.splits)

lemma all_present: "length (filter id bs) = length bs \<Longrightarrow> i < length bs \<Longrightarrow> bs ! i"
proof (rule ccontr)
  assume "length (filter id bs) = length bs" "i < length bs" "\<not> bs ! i"
  with filter_id_update [of i bs] length_filter_le [of id "bs[i := True]"] show False by simp
qed

lemma received_room:
  assumes "fan_counts c f" "i < tc_count c" "\<not> fa_present f ! unat i"
  shows "fa_received f < tc_count c" "unat (fa_received f + 1) = Suc (unat (fa_received f))"
    and "length (filter id ((fa_present f)[unat i := True])) = Suc (length (filter id (fa_present f)))"
proof -
  let ?p = "fa_present f"
  have i: "unat i < length ?p" using assms(1,2) by (simp add: fan_counts_def word_less_nat_alt)
  then show up: "length (filter id (?p[unat i := True])) = Suc (length (filter id ?p))"
    using assms(3) by (rule filter_id_update)
  then have "Suc (length (filter id ?p)) \<le> length ?p"
    using length_filter_le [of id "?p[unat i := True]"] by simp
  then show lt: "fa_received f < tc_count c" using assms(1) by (simp add: fan_counts_def word_less_nat_alt)
  show "unat (fa_received f + 1) = Suc (unat (fa_received f))" by (rule unat_Suc_less [OF lt])
qed

text \<open>What a frame does to the counters, whoever sent it.\<close>

definition fan_marks :: "transfer_chunks \<Rightarrow> u32 \<Rightarrow> fan \<Rightarrow> fan \<Rightarrow> bool" where
  "fan_marks c i f f' \<longleftrightarrow> i < tc_count c \<and> \<not> fa_present f ! unat i \<and> fa_present f' = (fa_present f)[unat i := True]
     \<and> fa_received f' = fa_received f + 1"

lemma apply_slice_counts:
  assumes "apply_slice E m c i bao f = (r, f')"
  shows "fa_progressed f' = fa_progressed f \<and> fa_last_progress f' = fa_last_progress f
     \<and> (fan_marks c i f f' \<or> fa_present f' = fa_present f \<and> fa_received f' = fa_received f)"
  using assms
  by (auto simp: apply_slice_def Let_def fan_marks_def not_le split: if_splits prod.splits sum.splits)

lemma fan_marks_counts:
  assumes "fan_counts c f" "fan_marks c i f f'"
  shows "fan_counts c f'" "unat (fa_received f') = Suc (unat (fa_received f))"
  using assms received_room [OF assms(1), of i] by (simp_all add: fan_counts_def fan_marks_def)

lemma apply_slice_step:
  assumes "fan_counts c f" "apply_slice E m c i bao f = (r, f')"
  shows "fan_counts c f'" "fa_progressed f' = fa_progressed f" "fa_last_progress f' = fa_last_progress f"
    and "unat (fa_received f') = Suc (unat (fa_received f)) \<or> fa_received f' = fa_received f"
proof -
  note cnt = apply_slice_counts [OF assms(2)]
  then show "fan_counts c f'" using fan_marks_counts(1) [OF assms(1)] assms(1) unfolding fan_counts_def by metis
  show "unat (fa_received f') = Suc (unat (fa_received f)) \<or> fa_received f' = fa_received f"
    using cnt fan_marks_counts(2) [OF assms(1)] by blast
qed (use apply_slice_counts [OF assms(2)] in simp_all)

text \<open>
  One frame: ignored or refused without effect on what is present, or written and counted; a fault
  of a write leaves what is present alone.
\<close>

lemma apply_slice_bytes:
  assumes pin: "fan_pinned E m c content" and len: "length (w_part (fa_world f)) = unat (tc_total_len c)"
    and run: "apply_slice E m c i bao f = (r, f')"
  shows "keeps_bytes content (w_part (fa_world f)) (w_part (fa_world f'))
     \<and> (fan_marks c i f f' \<longrightarrow> chunk_holds c content (w_part (fa_world f')) i)"
proof (cases "i \<ge> tc_count c \<or> fa_present f ! unat i")
  case True
  then show ?thesis using run by (auto simp: apply_slice_def fan_marks_def)
next
  case False
  then have i: "i < tc_count c" by (simp add: not_le)
  obtain q ls where dec: "decode_slice (ce_bao E) (m_root m) (m_total_len m)
      (chunk_range (ce_bao E) (byte_range c i)) bao push_leaf [] = (q, ls)" by (meson surj_pair)
  show ?thesis
  proof (cases q)
    case (Inl e)
    then have "f' = f\<lparr>fa_stats := (fa_stats f)\<lparr>ts_rejected := ts_rejected (fa_stats f) + 1\<rparr>\<rparr>"
      using False run dec by (auto simp: apply_slice_def)
    then show ?thesis by (simp add: fan_marks_def)
  next
    case (Inr u)
    obtain x w where w: "write_leaves E ls (fa_world f) = (x, w)" by (meson surj_pair)
    then have part: "w_part (fa_world f') = w_part w" and ok: "fan_marks c i f f' \<Longrightarrow> x = Inr ()"
      using False run dec Inr by (auto simp: apply_slice_def Let_def fan_marks_def split: sum.splits)
    show ?thesis
      unfolding part using fan_slice_written [OF pin i len _ w, of bao] dec Inr ok by simp
  qed
qed

lemma apply_slice_inv:
  assumes pin: "fan_pinned E m c content" and inv: "fan_inv c content f"
    and run: "apply_slice E m c i bao f = (r, f')"
  shows "fan_inv c content f'"
proof -
  have "fan_counts c f" "length (w_part (fa_world f)) = unat (tc_total_len c)" using inv by (simp_all add: fan_inv_def)
  note cnt = apply_slice_counts [OF run] and bytes = apply_slice_bytes [OF pin this(2) run]
  have "fan_counts c f'" using apply_slice_step(1) [OF \<open>fan_counts c f\<close> run] .
  moreover have "chunk_holds c content (w_part (fa_world f')) k" if "k < tc_count c" "fa_present f' ! unat k" for k
  proof (cases "fa_present f ! unat k")
    case True
    then show ?thesis using that inv bytes chunk_holds_keeps by (auto simp: fan_inv_def)
  next
    case False
    then have m: "fan_marks c i f f'" using cnt that(2) by auto
    then have "unat k = unat i" using False that(2) by (metis fan_marks_def nth_list_update_neq)
    then have "k = i" by (simp add: word_unat_eq_iff)
    then show ?thesis using m bytes by blast
  qed
  ultimately show ?thesis using bytes inv by (simp add: fan_inv_def keeps_bytes_def)
qed

lemma drain_early_inv:
  "fan_pinned E m c content \<Longrightarrow> fan_inv c content f \<Longrightarrow> fan_inv c content (snd (drain_early E m c fs f))"
proof (induction fs arbitrary: f)
  case (Cons x fs)
  obtain i b where "x = (i, b)" by (cases x)
  with Cons apply_slice_inv [OF Cons.prems(1)] show ?case
    by (auto intro!: then_io_inv [where P = "fan_inv c content"] simp: Cons.IH)
       (metis Cons.prems surj_pair snd_conv)
qed simp

lemma fan_counts_clock [simp]:
  "fan_counts c (f\<lparr>fa_progressed := a, fa_last_progress := b\<rparr>) = fan_counts c f"
  "fan_counts c (f\<lparr>fa_world := w\<rparr>) = fan_counts c f"
  by (simp_all add: fan_counts_def)

lemma fan_inv_clock [simp]:
  "fan_inv c content (f\<lparr>fa_progressed := a, fa_last_progress := b\<rparr>) = fan_inv c content f"
  "fan_inv c content (f\<lparr>fa_world := emit p (fa_world f)\<rparr>) = fan_inv c content f"
  by (simp_all add: fan_inv_def)

text \<open>What a turn leaves, however it ends.\<close>

fun turn_state :: "'s turn \<Rightarrow> 's" where
  "turn_state (Continue s) = s" | "turn_state (Break s) = s" | "turn_state (Return r) = snd r"

definition note_progress :: "nat \<Rightarrow> fan \<Rightarrow> fan" where
  "note_progress now f =
     (if fa_progressed f < fa_received f then f\<lparr>fa_progressed := fa_received f, fa_last_progress := now\<rparr> else f)"

lemma note_progress_fields [simp]:
  "fan_inv c content (note_progress now f) = fan_inv c content f"
  "fa_received (note_progress now f) = fa_received f"
  "fa_present (note_progress now f) = fa_present f"
  "fan_counts c (note_progress now f) = fan_counts c f"
  by (simp_all add: note_progress_def)

lemma slice_turn_eq:
  "slice_turn E cfg m c t f =
     (let f1 = note_progress (ft_now t) f in
      if \<not> fa_received f < tc_count c then Break f
      else if \<not> fa_progressed f < fa_received f \<and> fo_stall_timeout cfg < ft_now t - fa_last_progress f
           then Return (Inl (Incomplete (fa_received f) (tc_count c)), f)
      else if ft_cancelled t then Return (fan_cancel (tc_count c) f1)
      else case ft_wait t of
             WaitCancelled \<Rightarrow> Return (fan_cancel (tc_count c) f1)
           | NoSample \<Rightarrow> Return (Inl (Incomplete (fa_received f1) (tc_count c)), f1)
           | Delivered sm \<Rightarrow>
               (case fan_frame E sm of
                  Some (SliceFrame i bao) \<Rightarrow>
                    (case apply_slice (fn_client E) m c i bao f1 of
                       (Inl e, f2) \<Rightarrow> Return (Inl e, f2)
                     | (Inr _, f2) \<Rightarrow> Continue f2)
                | _ \<Rightarrow> Continue f1))"
  by (simp only: slice_turn_def note_progress_def Let_def)

lemma slice_turn_inv:
  assumes pin: "fan_pinned (fn_client E) m c content" and inv: "fan_inv c content f"
  shows "fan_inv c content (turn_state (slice_turn E cfg m c t f))"
proof -
  obtain f1 where f1: "f1 = note_progress (ft_now t) f" by simp
  then have inv1: "fan_inv c content f1" using inv by simp
  then have cancel: "fan_inv c content (snd (fan_cancel n f1))" for n by (simp add: fan_cancel_def)
  have step: "fan_inv c content (turn_state (case apply_slice (fn_client E) m c i b f1 of
      (Inl e, f2) \<Rightarrow> Return (Inl e, f2) | (Inr _, f2) \<Rightarrow> Continue f2))" for i b
    using apply_slice_inv [OF pin inv1] by (auto split: prod.split sum.split)
  show ?thesis
    unfolding slice_turn_eq Let_def f1 [symmetric]
    using inv inv1 cancel step by (auto split: fan_wait.split option.split fanout_frame.split)
qed

lemma slice_turn_Break: "slice_turn E cfg m c t f = Break f' \<Longrightarrow> f' = f \<and> tc_count c \<le> fa_received f"
  by (auto simp: slice_turn_def Let_def not_less
      split: if_splits fan_wait.splits option.splits fanout_frame.splits prod.splits sum.splits)

lemma slice_turn_Return: "slice_turn E cfg m c t f = Return (r, f') \<Longrightarrow> \<exists>e. r = Inl e"
  by (auto simp: slice_turn_def Let_def fan_cancel_def
      split: if_splits fan_wait.splits option.splits fanout_frame.splits prod.splits sum.splits)

text \<open>The loop: the invariant at every exit, and every chunk present at a successful one.\<close>

lemma slice_loop_inv:
  assumes "fan_pinned (fn_client E) m c content" "fan_inv c content f"
    and "slice_loop fuel E cfg m c S i f = Some (r, f')"
  shows "fan_inv c content f' \<and> (is_ok r \<longrightarrow> tc_count c \<le> fa_received f')"
  using assms(2,3)
proof (induction fuel arbitrary: i f)
  case (Suc fuel)
  note inv = slice_turn_inv [OF assms(1) Suc.prems(1), of cfg "S i"]
  show ?case
  proof (cases "slice_turn E cfg m c (S i) f")
    case (Continue f1)
    then show ?thesis using Suc inv by simp
  next
    case (Break f1)
    obtain x w where "commit (fn_client E) (fa_world f1) = (x, w)" by (meson surj_pair)
    then show ?thesis
      using Suc.prems Break inv slice_turn_Break [OF Break]
      by (auto simp: commit_def next_op_def fan_inv_def split: option.splits prod.splits)
  next
    case (Return x)
    then show ?thesis using Suc.prems inv slice_turn_Return [of E cfg m c "S i" f] by (cases x) auto
  qed
qed simp

lemma fan_start_inv: "length (w_part w) = unat (tc_total_len c) \<Longrightarrow> fan_inv c content (fan_start c w)"
  by (simp add: fan_inv_def fan_counts_def fan_start_def word_less_nat_alt)

lemma receive_slices_inv:
  assumes "fan_pinned (fn_client E) m c content" "length (w_part w) = unat (tc_total_len c)"
    and "receive_slices fuel E cfg m c early S i w = Some (r, f)"
  shows "fan_inv c content f \<and> (is_ok r \<longrightarrow> tc_count c \<le> fa_received f)"
proof -
  obtain x f0 where d: "drain_early (fn_client E) m c early (fan_start c w) = (x, f0)" by (meson surj_pair)
  have inv: "fan_inv c content f0" using drain_early_inv [OF assms(1) fan_start_inv [OF assms(2)]] d by (metis snd_conv)
  show ?thesis
  proof (cases x)
    case (Inl e)
    then show ?thesis using assms(3) d inv by (auto simp: receive_slices_def)
  next
    case (Inr u)
    then have "slice_loop fuel E cfg m c S i (f0\<lparr>fa_progressed := fa_received f0, fa_last_progress := fn_drained E\<rparr>) = Some (r, f)"
      using assms(3) d by (simp add: receive_slices_def)
    then show ?thesis using slice_loop_inv [OF assms(1)] inv by (metis fan_inv_clock(1))
  qed
qed

lemma fan_complete:
  assumes "fan_pinned E m c content" "fan_inv c content f" "tc_count c \<le> fa_received f"
    and "m_total_len m = 0 \<Longrightarrow> content = []"
  shows "w_part (fa_world f) = content"
proof (rule chunks_hold_eq)
  have "length (filter id (fa_present f)) = length (fa_present f)"
    using assms(2,3) length_filter_le [of id "fa_present f"] by (simp add: fan_inv_def fan_counts_def word_le_nat_alt)
  then have "fa_present f ! unat i" if "i < tc_count c" for i
    using all_present that assms(2) by (simp add: fan_inv_def fan_counts_def word_less_nat_alt)
  then show "chunk_holds c content (w_part (fa_world f)) i" if "i < tc_count c" for i
    using that assms(2) by (simp add: fan_inv_def)
qed (use assms fan_pinned_wf [OF assms(1)] in \<open>auto simp: fan_inv_def\<close>)

section \<open>A whole reception\<close>

text \<open>The manifest a receiver goes on with was accepted by the verdict.\<close>

lemma early_loop_Inr:
  assumes "early_loop fuel E cfg bid root S i ea = Some (Inr (m, c), ea', j)"
  shows "fan_verdict E cfg bid root m = Inr c"
  using assms
proof (induction fuel arbitrary: i ea)
  case (Suc fuel)
  show ?case
  proof (cases "early_turn E cfg bid root (S i) ea")
    case (Inl ea1)
    then show ?thesis using Suc by simp
  next
    case (Inr x)
    then show ?thesis
      using Suc.prems
      by (auto simp: early_turn_def early_cancel_def
          split: if_splits fan_wait.splits option.splits fanout_frame.splits sum.splits)
  qed
qed simp

lemma fan_verdict_Inr:
  assumes "fan_verdict E cfg bid (Some root) m = Inr c"
  shows "m_id m = bid" "m_root m = root" "manifest_chunks m = Inr c"
    and "m_total_len m = 0 \<Longrightarrow> root = ce_blake3 (fn_client E) []"
  using assms by (auto simp: fan_verdict_def Let_def and_then_Inr split: if_splits)

text \<open>What the file operations around the slices leave of the destination and the partial file.\<close>

lemma disk_op_effect:
  assumes "disk_op E g d = (r, d')"
  shows "(\<exists>u. r = Inr u) \<and> d' = (g d)\<lparr>dk_ops := Suc (dk_ops d)\<rparr> \<or> (\<exists>e. r = Inl e) \<and> d' = d\<lparr>dk_ops := Suc (dk_ops d)\<rparr>"
  using assms by (auto simp: disk_op_def split: option.splits)

lemma check_dest_effect:
  assumes "check_dest E ow d = (r, d')"
  shows "dk_dest d' = dk_dest d \<and> dk_part d' = dk_part d \<and> (is_ok r \<longrightarrow> ow = Refuse \<longrightarrow> dk_dest d = None)"
  using assms by (auto simp: check_dest_def disk_op_def split: option.splits if_splits)

lemma fan_create_effect:
  assumes "fan_create E m d = (r, d')"
  shows "dk_dest d' = dk_dest d \<and> (is_ok r \<longrightarrow> (\<exists>f. dk_part d' = Some f \<and> length f = unat (m_total_len m)))"
  using assms by (auto simp: fan_create_def disk_op_def split: option.splits)

definition raced :: "client_env \<Rightarrow> bytes option \<Rightarrow> bytes option" where
  "raced E dest = (case ce_dest_race E of None \<Rightarrow> dest | Some x \<Rightarrow> Some x)"

lemma fan_place_effect:
  assumes "fan_place E ow stats d = (r, d')" and "dk_part d = Some content"
  shows "if is_ok r then dk_dest d' = Some content \<and> dk_part d' = None \<and> (ow = Refuse \<longrightarrow> raced E (dk_dest d) = None)
     else dk_dest d' = raced E (dk_dest d) \<and> dk_part d' = Some content
        \<and> ((\<forall>n. ce_faults E n = None) \<longrightarrow> r = Inl DestinationExists)"
  using assms
  by (auto simp: fan_place_def check_dest_def disk_op_def fan_note_def raced_def split: option.splits if_splits)

text \<open>
  The outcome of a reception for one destination: the blob is in place, or the destination is what
  it was (or what appeared there meanwhile). Without file faults an error leaves no partial file of
  this run behind, unless the finished one is kept because the destination exists.
\<close>

definition fan_outcome :: "client_env \<Rightarrow> overwrite \<Rightarrow> bytes \<Rightarrow> disk \<Rightarrow> transfer_stats res \<Rightarrow> disk \<Rightarrow> bool" where
  "fan_outcome E ow content d r d' \<longleftrightarrow>
     (if is_ok r then dk_dest d' = Some content \<and> dk_part d' = None \<and> (ow = Refuse \<longrightarrow> dk_dest d = None \<and> ce_dest_race E = None)
      else (dk_dest d' = dk_dest d \<or> dk_dest d' = raced E (dk_dest d))
         \<and> ((\<forall>n. ce_faults E n = None) \<longrightarrow> dk_part d' = dk_part d \<or> dk_part d' = None
              \<or> r = Inl DestinationExists \<and> dk_part d' = Some content))"

lemma fan_finish_outcome:
  assumes "fan_finish E ow d rf = (r, d')" and "rf = (x, f)" and "is_ok x \<longrightarrow> w_part (fa_world f) = content"
    and "dk_dest d = dk_dest d0" and "ow = Refuse \<longrightarrow> dk_dest d0 = None"
  shows "fan_outcome E ow content d0 r d'"
proof (cases x)
  case (Inl e)
  then show ?thesis using assms by (auto simp: fan_finish_def fan_outcome_def disk_op_def from_world_def split: option.splits)
next
  case (Inr u)
  then have "fan_place E ow (fa_stats f) (from_world d (fa_world f)) = (r, d')"
    "dk_part (from_world d (fa_world f)) = Some content" "dk_dest (from_world d (fa_world f)) = dk_dest d0"
    using assms by (auto simp: fan_finish_def from_world_def)
  with fan_place_effect [OF this(1,2)] assms(5) show ?thesis
    by (auto simp: fan_outcome_def raced_def split: option.splits if_splits)
qed

lemma quiet_create: "\<forall>n. ce_faults E n = None \<Longrightarrow> is_ok (fst (fan_create E m d))"
  by (simp add: fan_create_def disk_op_def)

lemma receive_fanout_outcome:
  assumes pins: "bao_pins (ce_bao (fn_client E)) root content" and empty: "root = ce_blake3 (fn_client E) [] \<Longrightarrow> content = []"
    and run: "receive_fanout fuel E cfg prefix bid (Some root) S d = Some (r, d')"
  shows "fan_outcome (fn_client E) (fo_overwrite cfg) content d r d'"
proof -
  let ?E = "fn_client E" and ?ow = "fo_overwrite cfg"
  obtain x d0 where cd: "check_dest ?E ?ow d = (x, d0)" by (meson surj_pair)
  note e0 = check_dest_effect [OF cd]
  have err: "fan_outcome ?E ?ow content d (Inl e) d1" if "dk_dest d1 = dk_dest d" "dk_part d1 = dk_part d" for e d1
    using that by (simp add: fan_outcome_def)
  show ?thesis
  proof (cases "x = Inr () \<and> fn_subscribe E (fanout_key prefix bid)")
    case False
    then show ?thesis using run cd e0 err by (cases x) (auto simp: receive_fanout_def)
  next
    case sub: True
    obtain y ea j where el: "early_loop fuel E cfg bid (Some root) S 0 fan_early_start = Some (y, ea, j)"
      using run sub cd by (cases "early_loop fuel E cfg bid (Some root) S 0 fan_early_start") (auto simp: receive_fanout_def)
    show ?thesis
    proof (cases y)
      case (Inl e)
      then show ?thesis using run sub cd el e0 by (auto simp: receive_fanout_def fan_note_def intro!: err)
    next
      case (Inr mc)
      obtain m c where mc: "mc = (m, c)" by (cases mc)
      note v = fan_verdict_Inr [OF early_loop_Inr [OF el [unfolded Inr mc]]]
      let ?d = "fan_note [Started (m_total_len m) (tc_count c)] d0"
      obtain z d1 where cr: "fan_create ?E m ?d = (z, d1)" by (meson surj_pair)
      note e1 = fan_create_effect [OF cr]
      have dest: "dk_dest d1 = dk_dest d" using e0 e1 by (simp add: fan_note_def)
      show ?thesis
      proof (cases z)
        case (Inl e)
        then have "r = Inl e" "d' = d1" using run sub cd el Inr mc cr by (simp_all add: receive_fanout_def Let_def)
        moreover have "\<not> (\<forall>n. ce_faults ?E n = None)" using quiet_create [of ?E m ?d] cr Inl by (metis fst_conv is_ok_simps(2))
        ultimately show ?thesis using dest by (auto simp: fan_outcome_def)
      next
        case ok: (Inr u)
        then obtain q f where rs: "receive_slices fuel E cfg m c (ea_frames ea) S j (to_world d1) = Some (q, f)"
            "fan_finish ?E ?ow d1 (q, f) = (r, d')"
          using run sub cd el Inr mc cr by (auto simp: receive_fanout_def Let_def)
        have pin: "fan_pinned ?E m c content" using pins v by (simp add: fan_pinned_def)
        have "length (w_part (to_world d1)) = unat (tc_total_len c)"
          using e1 ok fan_pinned_wf [OF pin] by (auto simp: to_world_def)
        from receive_slices_inv [OF pin this rs(1)] fan_complete [OF pin] v(4) empty
        have "is_ok q \<longrightarrow> w_part (fa_world f) = content" by blast
        then show ?thesis using fan_finish_outcome [OF rs(2) refl _ dest] e0 sub by simp
      qed
    qed
  qed
qed

section \<open>No stream holds a receiver open\<close>

definition clock_moves :: "(nat \<Rightarrow> fan_turn) \<Rightarrow> bool" where
  "clock_moves S \<longleftrightarrow> (\<forall>t i. \<exists>j \<ge> i. t < ft_now (S j))"

lemma clock_moves_elapsed:
  assumes "clock_moves S"
  obtains j where "i \<le> j" "stall < ft_now (S j) - t"
  using assms unfolding clock_moves_def by (meson less_diff_conv)

text \<open>Enough fuel gives an answer, and more fuel the same one.\<close>

lemma early_loop_mono: "early_loop n E cfg bid root S i ea = Some x \<Longrightarrow> n \<le> k \<Longrightarrow> early_loop k E cfg bid root S i ea = Some x"
proof (induction n arbitrary: k i ea)
  case (Suc n)
  then show ?case by (cases k) (auto split: sum.splits)
qed simp

lemma early_loop_returns:
  "i \<le> j \<Longrightarrow> fo_stall_timeout cfg < ft_now (S j) - fn_started E \<Longrightarrow> j - i < n \<Longrightarrow>
   \<exists>x. early_loop n E cfg bid root S i ea = Some x"
proof (induction n arbitrary: i ea)
  case (Suc n)
  show ?case
  proof (cases "early_turn E cfg bid root (S i) ea")
    case (Inl ea1)
    then have "i \<noteq> j" using Suc.prems(2) by (auto simp: early_turn_def)
    with Suc.prems have "Suc i \<le> j" "j - Suc i < n" by auto
    then show ?thesis using Suc.IH Suc.prems(2) Inl by auto
  qed auto
qed simp

definition slice_halts ::
  "fanout_env \<Rightarrow> fanout_config \<Rightarrow> manifest \<Rightarrow> transfer_chunks \<Rightarrow> (nat \<Rightarrow> fan_turn) \<Rightarrow> nat \<Rightarrow> fan \<Rightarrow> bool" where
  "slice_halts E cfg m c S i f \<longleftrightarrow> (\<exists>n. \<forall>k \<ge> n. \<exists>x. slice_loop k E cfg m c S i f = Some x)"

lemma slice_halts_step:
  assumes "\<And>f'. slice_turn E cfg m c (S i) f = Continue f' \<Longrightarrow> slice_halts E cfg m c S (Suc i) f'"
  shows "slice_halts E cfg m c S i f"
proof (cases "slice_turn E cfg m c (S i) f")
  case (Continue f')
  with assms obtain n where n: "\<forall>k \<ge> n. \<exists>x. slice_loop k E cfg m c S (Suc i) f' = Some x"
    by (auto simp: slice_halts_def)
  then have "\<exists>x. slice_loop k E cfg m c S i f = Some x" if "Suc n \<le> k" for k
    using that Continue by (cases k) auto
  then show ?thesis unfolding slice_halts_def by blast
next
  case (Break f')
  then have "\<exists>x. slice_loop k E cfg m c S i f = Some x" if "1 \<le> k" for k using that by (cases k) auto
  then show ?thesis unfolding slice_halts_def by blast
next
  case (Return x)
  then have "\<exists>x. slice_loop k E cfg m c S i f = Some x" if "1 \<le> k" for k using that by (cases k) auto
  then show ?thesis unfolding slice_halts_def by blast
qed

text \<open>A turn that goes round again has gained a chunk or has changed no more than the clock.\<close>

lemma slice_turn_Continue:
  assumes "slice_turn E cfg m c t f = Continue f'"
  shows "f' = note_progress (ft_now t) f \<or> (\<exists>i b. apply_slice (fn_client E) m c i b (note_progress (ft_now t) f) = (Inr (), f'))"
proof -
  obtain f1 where f1: "f1 = note_progress (ft_now t) f" by simp
  show ?thesis
    using assms unfolding slice_turn_eq Let_def f1 [symmetric]
    by (auto split: if_splits fan_wait.splits option.splits fanout_frame.splits prod.splits sum.splits)
qed

lemma slice_turn_continues:
  assumes "slice_turn E cfg m c t f = Continue f'" and "fan_counts c f"
  shows "fan_counts c f'" "fa_progressed f' = fa_progressed (note_progress (ft_now t) f)"
    and "fa_last_progress f' = fa_last_progress (note_progress (ft_now t) f)"
    and "unat (fa_received f') = Suc (unat (fa_received f)) \<or> fa_received f' = fa_received f"
    and "fa_progressed f < fa_received f \<or> \<not> fo_stall_timeout cfg < ft_now t - fa_last_progress f"
proof -
  obtain f1 where f1: "f1 = note_progress (ft_now t) f" by simp
  then have cnt: "fan_counts c f1" "fa_received f1 = fa_received f" using assms(2) by simp_all
  note step = slice_turn_Continue [OF assms(1), folded f1] apply_slice_step [OF cnt(1)]
  show "fan_counts c f'" using step cnt(1) by blast
  show "fa_progressed f' = fa_progressed (note_progress (ft_now t) f)"
    "fa_last_progress f' = fa_last_progress (note_progress (ft_now t) f)"
    using step(1,3,4) unfolding f1 [symmetric] by blast+
  show "unat (fa_received f') = Suc (unat (fa_received f)) \<or> fa_received f' = fa_received f"
    using step(1,5) unfolding cnt(2) [symmetric] by blast
  show "fa_progressed f < fa_received f \<or> \<not> fo_stall_timeout cfg < ft_now t - fa_last_progress f"
    using assms(1) by (auto simp: slice_turn_eq Let_def split: if_splits)
qed

lemma received_le: "fan_counts c f \<Longrightarrow> unat (fa_received f) \<le> unat (tc_count c)"
  using length_filter_le [of id "fa_present f"] by (simp add: fan_counts_def)

lemma slice_loop_halts:
  assumes "clock_moves S" "fan_counts c f"
  shows "slice_halts E cfg m c S i f"
  using assms(2)
proof (induction "unat (tc_count c) - unat (fa_received f)" arbitrary: i f rule: less_induct)
  case less
  have gain: "slice_halts E cfg m c S k f'" if "fan_counts c f'" "unat (fa_received f') = Suc (unat (fa_received f))" for k f'
    using less.hyps [OF _ that(1)] that(2) received_le [OF that(1)] by simp
  have still: "slice_halts E cfg m c S k g"
    if "fan_counts c g" "fa_received g = fa_received f" "\<not> fa_progressed g < fa_received g"
      "k \<le> j" "fo_stall_timeout cfg < ft_now (S j) - fa_last_progress g" for k j g
    using that
  proof (induction "j - k" arbitrary: k g)
    case 0
    then have "k = j" by simp
    show ?case
    proof (rule slice_halts_step)
      fix g' assume "slice_turn E cfg m c (S k) g = Continue g'"
      from slice_turn_continues(5) [OF this "0.prems"(1)] show "slice_halts E cfg m c S (Suc k) g'"
        using "0.prems"(3,5) \<open>k = j\<close> by simp
    qed
  next
    case (Suc n)
    show ?case
    proof (rule slice_halts_step)
      fix g' assume t: "slice_turn E cfg m c (S k) g = Continue g'"
      have np: "note_progress (ft_now (S k)) g = g" using Suc.prems(3) by (simp add: note_progress_def)
      note s = slice_turn_continues [OF t Suc.prems(1), unfolded np]
      then show "slice_halts E cfg m c S (Suc k) g'"
        using gain [of g'] Suc.hyps(1) [of "Suc k" g'] Suc.hyps(2) Suc.prems by auto
    qed
  qed
  show ?case
  proof (rule slice_halts_step)
    fix f' assume t: "slice_turn E cfg m c (S i) f = Continue f'"
    note s = slice_turn_continues [OF t less.prems]
    obtain j where j: "Suc i \<le> j" "fo_stall_timeout cfg < ft_now (S j) - fa_last_progress f'"
      by (rule clock_moves_elapsed [OF assms(1)])
    have "\<not> fa_progressed f' < fa_received f'" if "fa_received f' = fa_received f"
      using that s(2) by (simp add: note_progress_def)
    then show "slice_halts E cfg m c S (Suc i) f'" using s(1,4) gain [of f'] still [of f'] j by blast
  qed
qed

lemma drain_early_counts:
  "fan_counts c f \<Longrightarrow> drain_early E m c fs f = (r, f') \<Longrightarrow> fan_counts c f'"
proof (induction fs arbitrary: f)
  case (Cons x fs)
  obtain i b where x: "x = (i, b)" by (cases x)
  obtain q f1 where a: "apply_slice E m c i b f = (q, f1)" by (meson surj_pair)
  then have "fan_counts c f1" using apply_slice_step(1) [OF Cons.prems(1)] by blast
  then show ?case using Cons x a by (cases q) auto
qed simp

lemma receive_slices_halts:
  assumes "clock_moves S"
  shows "\<exists>n. \<forall>k \<ge> n. \<exists>x. receive_slices k E cfg m c early S i w = Some x"
proof -
  obtain r f where d: "drain_early (fn_client E) m c early (fan_start c w) = (r, f)" by (meson surj_pair)
  have "fan_counts c (fan_start c w)" by (simp add: fan_counts_def fan_start_def)
  then have "fan_counts c f" using drain_early_counts d by blast
  then have "slice_halts E cfg m c S i (f\<lparr>fa_progressed := fa_received f, fa_last_progress := fn_drained E\<rparr>)"
    using slice_loop_halts [OF assms] by simp
  then show ?thesis using d by (cases r) (auto simp: receive_slices_def slice_halts_def)
qed

lemma receive_fanout_halts:
  assumes "clock_moves S"
  shows "\<exists>n. \<forall>k \<ge> n. \<exists>x. receive_fanout k E cfg prefix bid root S d = Some x"
proof -
  obtain j where "0 \<le> j" "fo_stall_timeout cfg < ft_now (S j) - fn_started E"
    by (rule clock_moves_elapsed [OF assms])
  then obtain y ea i where el: "early_loop (Suc j) E cfg bid root S 0 fan_early_start = Some (y, ea, i)"
    using early_loop_returns [of 0 j cfg S E "Suc j" bid root fan_early_start] by auto
  then have el': "early_loop k E cfg bid root S 0 fan_early_start = Some (y, ea, i)" if "Suc j \<le> k" for k
    using early_loop_mono that by blast
  obtain n where n: "\<forall>k \<ge> n. \<exists>x. receive_slices k E cfg (fst (projr y)) (snd (projr y)) (ea_frames ea) S i
      (to_world (snd (fan_create (fn_client E) (fst (projr y)) (fan_note [Started (m_total_len (fst (projr y)))
        (tc_count (snd (projr y)))] (snd (check_dest (fn_client E) (fo_overwrite cfg) d)))))) = Some x"
    using receive_slices_halts [OF assms] by blast
  have "\<exists>x. receive_fanout k E cfg prefix bid root S d = Some x" if "max (Suc j) n \<le> k" for k
    using that el' [of k] n [rule_format, of k]
    by (auto simp: receive_fanout_def Let_def split: prod.split sum.split)
  then show ?thesis by blast
qed

end
