(* ===== verification/Fanout_Exchange.thy ===== *)
theory Fanout_Exchange
  imports Fanout_Props
begin

text \<open>
  Publisher and receivers of a fanout composed: a published blob reaches every receiver to which
  the samples are delivered in time, whatever else is on the stream.
\<close>

section \<open>A published blob arrives\<close>

text \<open>What a publisher that went through has put: its manifest first, then a slice for every chunk.\<close>

definition fan_sample :: "string \<Rightarrow> bytes \<Rightarrow> sample" where
  "fan_sample key payload = \<lparr>sm_encoding = ENC_FANOUT, sm_key = key, sm_payload = payload\<rparr>"

definition slice_put :: "fanout_publisher \<Rightarrow> string \<Rightarrow> transfer_chunks \<Rightarrow> outboard \<Rightarrow> bytes \<Rightarrow> sample list \<Rightarrow> u32 \<Rightarrow> bool" where
  "slice_put P key c ob content out i \<longleftrightarrow>
     (\<exists>bao payload. se_encode_slice (fp_server P) ob content (chunk_range (se_bao (fp_server P)) (byte_range c i)) = Inr bao
        \<and> fp_enc P \<lparr>fx_version = WIRE_VERSION, fx_frame = SliceFrame i bao\<rparr> = Inr payload
        \<and> fan_sample key payload \<in> set out)"

lemma fanout_put_Inr:
  "fanout_put P key frame out = (Inr u, out') \<longleftrightarrow>
     (\<exists>payload. fp_enc P \<lparr>fx_version = WIRE_VERSION, fx_frame = frame\<rparr> = Inr payload \<and> fp_put P (length out)
        \<and> out' = out @ [fan_sample key payload])"
  by (auto simp: fanout_put_def fan_sample_def split: sum.splits)

lemma fanout_slices_put:
  assumes "fanout_slices P key c ob content is out = (Inr (), out')"
  shows "(\<exists>rest. out' = out @ rest) \<and> (\<forall>i \<in> set is. slice_put P key c ob content out' i)"
  using assms
proof (induction "is" arbitrary: out)
  case (Cons i "is")
  obtain bao where b: "se_encode_slice (fp_server P) ob content (chunk_range (se_bao (fp_server P)) (byte_range c i)) = Inr bao"
    using Cons.prems by (auto split: sum.splits)
  then obtain payload where p: "fp_enc P \<lparr>fx_version = WIRE_VERSION, fx_frame = SliceFrame i bao\<rparr> = Inr payload"
      "fanout_slices P key c ob content is (out @ [fan_sample key payload]) = (Inr (), out')"
    using Cons.prems by (auto simp: then_io_Inr fanout_put_Inr)
  from Cons.IH [OF p(2)] b p(1) show ?case by (auto simp: slice_put_def)
qed simp

lemma fanout_task_put:
  assumes "fanout_task P key m c ob (Inr content) = (Inr (), out)"
  obtains payload rest where "fp_enc P \<lparr>fx_version = WIRE_VERSION, fx_frame = ManifestFrame m\<rparr> = Inr payload"
    and "out = fan_sample key payload # rest" and "\<forall>i < tc_count c. slice_put P key c ob content out i"
proof -
  obtain payload where p: "fp_enc P \<lparr>fx_version = WIRE_VERSION, fx_frame = ManifestFrame m\<rparr> = Inr payload"
      "fanout_slices P key c ob content (map of_nat [0..<unat (tc_count c)]) [fan_sample key payload] = (Inr (), out)"
    using assms by (auto simp: fanout_task_def then_io_Inr fanout_put_Inr split: if_splits)
  note s = fanout_slices_put [OF p(2)]
  have "i \<in> set (map of_nat [0..<unat (tc_count c)])" if "i < tc_count c" for i
    using that by (auto simp: word_less_nat_alt image_iff intro!: bexI [of _ "unat i"])
  then show ?thesis using s p(1) that [of payload] by fastforce
qed

text \<open>
  The delivery a receiver needs up to turn \<open>N\<close>: a sample at every turn, no cancellation, all within
  one stall timeout, the published manifest at turn \<open>k\<close> before any other acceptable one, and
  every published sample at some turn from then on. Anything else may come in between.
\<close>

definition prompt :: "fanout_env \<Rightarrow> fanout_config \<Rightarrow> (nat \<Rightarrow> fan_turn) \<Rightarrow> nat \<Rightarrow> bool" where
  "prompt E cfg S N \<longleftrightarrow> (\<exists>t0. t0 \<le> fn_started E \<and> t0 \<le> fn_drained E
     \<and> (\<forall>i < N. t0 \<le> ft_now (S i) \<and> ft_now (S i) \<le> t0 + fo_stall_timeout cfg \<and> \<not> ft_cancelled (S i)
          \<and> (\<exists>sm. ft_wait (S i) = Delivered sm)))"

definition delivers ::
  "fanout_env \<Rightarrow> fanout_config \<Rightarrow> string \<Rightarrow> hash option \<Rightarrow> (nat \<Rightarrow> fan_turn) \<Rightarrow> nat \<Rightarrow> nat \<Rightarrow> sample list \<Rightarrow> bool" where
  "delivers E cfg bid root S k N out \<longleftrightarrow> k < N \<and> prompt E cfg S N \<and> ft_wait (S k) = Delivered (hd out)
     \<and> (\<forall>s \<in> set out. \<exists>i. k \<le> i \<and> i < N \<and> ft_wait (S i) = Delivered s)
     \<and> (\<forall>i < k. \<forall>sm m. ft_wait (S i) = Delivered sm \<longrightarrow> fan_frame E sm = Some (ManifestFrame m)
          \<longrightarrow> \<not> is_ok (fan_verdict E cfg bid root m))"

lemma early_loop_delivers:
  assumes "prompt E cfg S N" "k < N" "ft_wait (S k) = Delivered sm" "fan_frame E sm = Some (ManifestFrame m)"
    and "fan_verdict E cfg bid root m = Inr c"
    and "\<forall>i < k. \<forall>sm m. ft_wait (S i) = Delivered sm \<longrightarrow> fan_frame E sm = Some (ManifestFrame m)
          \<longrightarrow> \<not> is_ok (fan_verdict E cfg bid root m)"
    and "i \<le> k" "k - i < n"
  shows "\<exists>ea'. early_loop n E cfg bid root S i ea = Some (Inr (m, c), ea', Suc k)"
  using assms(7,8)
proof (induction n arbitrary: i ea)
  case (Suc n)
  have "i < N" using Suc.prems(1) assms(2) by simp
  then have go: "\<not> fo_stall_timeout cfg < ft_now (S i) - fn_started E" "\<not> ft_cancelled (S i)"
    and "\<exists>sm. ft_wait (S i) = Delivered sm" using assms(1) by (auto simp: prompt_def)
  then obtain sm' where sm': "ft_wait (S i) = Delivered sm'" by blast
  show ?case
  proof (cases "i = k")
    case True
    then show ?thesis using go assms(3-5) by (simp add: early_turn_def)
  next
    case False
    then have "i < k" using Suc.prems(1) by simp
    then have "\<exists>ea1. early_turn E cfg bid root (S i) ea = Inl ea1"
      using go sm' assms(6) by (auto simp: early_turn_def split: option.split fanout_frame.split sum.split)
    then show ?thesis using Suc.IH [of "Suc i"] Suc.prems \<open>i < k\<close> by auto
  qed
qed simp

lemma quiet_write_leaves: "\<forall>n. ce_faults E n = None \<Longrightarrow> fst (write_leaves E ls w) = Inr ()"
  by (induction ls arbitrary: w) (auto simp: write_leaf_def)

lemma quiet_apply: "\<forall>n. ce_faults E n = None \<Longrightarrow> fst (apply_slice E m c i bao f) = Inr ()"
  using quiet_write_leaves [of E] by (auto simp: apply_slice_def Let_def split: prod.split sum.split) (metis fst_conv sum.distinct(1))

lemma quiet_drain: "\<forall>n. ce_faults E n = None \<Longrightarrow> fst (drain_early E m c fs f) = Inr ()"
proof (induction fs arbitrary: f)
  case (Cons x fs)
  then show ?case using quiet_apply [of E m c] by (cases x) (metis drain_early.simps(2) then_io_simps(2) prod.collapse)
qed simp

lemma apply_slice_accepts:
  assumes "\<forall>n. ce_faults E n = None" "i < tc_count c" "unat i < length (fa_present f)"
    and "\<exists>ls. decode_slice (ce_bao E) (m_root m) (m_total_len m) (chunk_range (ce_bao E) (byte_range c i)) bao push_leaf [] = (Inr (), ls)"
  shows "fa_present (snd (apply_slice E m c i bao f)) ! unat i"
  using assms quiet_write_leaves [OF assms(1)]
  by (auto simp: apply_slice_def Let_def not_le split: prod.split sum.split) (metis fst_conv sum.distinct(1))

lemma all_present_received:
  assumes "fan_counts c f" "\<forall>x < tc_count c. fa_present f ! unat x"
  shows "\<not> fa_received f < tc_count c"
proof -
  have "id (fa_present f ! k)" if "k < length (fa_present f)" for k
  proof -
    have k: "k < unat (tc_count c)" using that assms(1) by (simp add: fan_counts_def)
    then have "unat (of_nat k :: u32) = k" using unat_lt32 [of "tc_count c"] by (simp add: unat_of_nat)
    then show ?thesis using assms(2) k by (metis id_apply word_less_nat_alt)
  qed
  then have "filter id (fa_present f) = fa_present f" by (simp add: filter_id_conv all_set_conv_all_nth)
  then show ?thesis using assms(1) by (simp add: fan_counts_def word_less_nat_alt)
qed

definition slice_due ::
  "fanout_env \<Rightarrow> manifest \<Rightarrow> transfer_chunks \<Rightarrow> (nat \<Rightarrow> fan_turn) \<Rightarrow> nat \<Rightarrow> nat \<Rightarrow> u32 \<Rightarrow> bool" where
  "slice_due E m c S i N x \<longleftrightarrow> (\<exists>j sm bao ls. i \<le> j \<and> j < N \<and> ft_wait (S j) = Delivered sm
     \<and> fan_frame E sm = Some (SliceFrame x bao)
     \<and> decode_slice (ce_bao (fn_client E)) (m_root m) (m_total_len m)
         (chunk_range (ce_bao (fn_client E)) (byte_range c x)) bao push_leaf [] = (Inr (), ls))"

lemma apply_slice_keeps_present:
  "apply_slice E m c i bao f = (r, f') \<Longrightarrow> fa_present f ! k \<Longrightarrow> fa_present f' ! k"
  using apply_slice_counts [of E m c i bao f r f'] by (auto simp: fan_marks_def nth_list_update)
     (metis nth_list_update_eq nth_list_update_neq list_update_beyond not_le)

lemma slice_turn_delivered:
  assumes "\<forall>n. ce_faults (fn_client E) n = None" "fan_counts c f" "fa_received f < tc_count c"
    and "\<not> fo_stall_timeout cfg < ft_now t - fa_last_progress f" "\<not> ft_cancelled t" "ft_wait t = Delivered sm"
  obtains f' where "slice_turn E cfg m c t f = Continue f'"
    and "\<And>k. fa_present f ! k \<Longrightarrow> fa_present f' ! k"
    and "\<And>x bao. fan_frame E sm = Some (SliceFrame x bao) \<Longrightarrow> f' = snd (apply_slice (fn_client E) m c x bao (note_progress (ft_now t) f))"
proof -
  obtain f1 where f1: "f1 = note_progress (ft_now t) f" by simp
  then have p1: "fa_present f1 = fa_present f" by simp
  have turn: "slice_turn E cfg m c t f = (case fan_frame E sm of
      Some (SliceFrame i bao) \<Rightarrow> (case apply_slice (fn_client E) m c i bao f1 of
         (Inl e, f2) \<Rightarrow> Return (Inl e, f2) | (Inr _, f2) \<Rightarrow> Continue f2)
    | _ \<Rightarrow> Continue f1)"
    unfolding slice_turn_eq Let_def f1 [symmetric] using assms(3-6) by simp
  show ?thesis
  proof (cases "\<exists>i bao. fan_frame E sm = Some (SliceFrame i bao)")
    case True
    then obtain i bao where fr: "fan_frame E sm = Some (SliceFrame i bao)" by blast
    obtain f2 where a: "apply_slice (fn_client E) m c i bao f1 = (Inr (), f2)"
      using quiet_apply [OF assms(1), of m c i bao f1] by (metis prod.collapse)
    then show ?thesis
      using turn fr apply_slice_keeps_present [OF a] p1 f1 by (intro that [of f2]) auto
  next
    case False
    then have "slice_turn E cfg m c t f = Continue f1" using turn by (auto split: option.splits fanout_frame.splits)
    then show ?thesis using False p1 by (intro that [of f1]) auto
  qed
qed

lemma slice_loop_delivers:
  assumes quiet: "\<forall>n. ce_faults (fn_client E) n = None"
    and time: "\<forall>i < N. t0 \<le> ft_now (S i) \<and> ft_now (S i) \<le> t0 + fo_stall_timeout cfg \<and> \<not> ft_cancelled (S i)
          \<and> (\<exists>sm. ft_wait (S i) = Delivered sm)"
    and "fan_counts c f" "t0 \<le> fa_last_progress f" "i \<le> N" "N - i < n"
    and "\<forall>x < tc_count c. fa_present f ! unat x \<or> slice_due E m c S i N x"
  shows "\<exists>f'. slice_loop n E cfg m c S i f = Some (Inr (), f')"
  using assms(3-)
proof (induction n arbitrary: i f)
  case (Suc n)
  show ?case
  proof (cases "fa_received f < tc_count c")
    case False
    then have "slice_turn E cfg m c (S i) f = Break f" by (simp add: slice_turn_def)
    then show ?thesis using quiet by (auto simp: commit_def split: prod.split)
  next
    case True
    have "\<not> (\<forall>x < tc_count c. fa_present f ! unat x)" using all_present_received [OF Suc.prems(1)] True by blast
    then have i: "i < N" using Suc.prems(3,5) by (auto simp: slice_due_def)
    then obtain sm where sm: "ft_wait (S i) = Delivered sm" and now: "t0 \<le> ft_now (S i)"
        "ft_now (S i) \<le> t0 + fo_stall_timeout cfg" "\<not> ft_cancelled (S i)"
      using time by blast
    then have ok: "\<not> ft_cancelled (S i)" "t0 \<le> ft_now (S i)" "\<not> fo_stall_timeout cfg < ft_now (S i) - fa_last_progress f"
      using Suc.prems(2) by simp_all
    obtain f' where f': "slice_turn E cfg m c (S i) f = Continue f'" "\<And>k. fa_present f ! k \<Longrightarrow> fa_present f' ! k"
      "\<And>x bao. fan_frame E sm = Some (SliceFrame x bao) \<Longrightarrow>
        f' = snd (apply_slice (fn_client E) m c x bao (note_progress (ft_now (S i)) f))"
      by (rule slice_turn_delivered [OF quiet Suc.prems(1) True ok(3,1) sm]) blast
    note s = slice_turn_continues [OF f'(1) Suc.prems(1)]
    have due: "fa_present f' ! unat x \<or> slice_due E m c S (Suc i) N x" if x: "x < tc_count c" for x
    proof (cases "fa_present f ! unat x")
      case True
      then show ?thesis using f'(2) by blast
    next
      case False
      then obtain j sm' bao ls where j: "i \<le> j" "j < N" "ft_wait (S j) = Delivered sm'" "fan_frame E sm' = Some (SliceFrame x bao)"
        "decode_slice (ce_bao (fn_client E)) (m_root m) (m_total_len m)
          (chunk_range (ce_bao (fn_client E)) (byte_range c x)) bao push_leaf [] = (Inr (), ls)"
        using Suc.prems(5) x by (auto simp: slice_due_def)
      show ?thesis
      proof (cases "j = i")
        case True
        then have "fan_frame E sm = Some (SliceFrame x bao)" using j(3,4) sm by simp
        moreover have "unat x < length (fa_present (note_progress (ft_now (S i)) f))"
          using Suc.prems(1) x by (simp add: fan_counts_def word_less_nat_alt)
        ultimately show ?thesis using f'(3) apply_slice_accepts [OF quiet x] j(5) by metis
      next
        case False
        then show ?thesis using j by (auto simp: slice_due_def intro!: exI [of _ j])
      qed
    qed
    have "t0 \<le> fa_last_progress f'"
      using s(3) Suc.prems(2) ok(2) by (auto simp: note_progress_def)
    then show ?thesis using Suc.IH [of f' "Suc i"] s(1) f'(1) i Suc.prems(4) due by auto
  qed
qed simp

lemma fanout_manifest_Inr:
  assumes "fanout_manifest E spec content = Inr (m, c, ob)"
  shows "se_compute_outboard E content = Inr ob" "manifest_chunks m = Inr c" "m_root m = se_root E ob"
    and "m_total_len m = of_nat (length content)" "manifest_validate m U64_MAX = Inr ()"
  using assms
  by (auto simp: fanout_manifest_def Let_def and_then_Inr manifest_chunks_def from_io_def split: sum.splits)

text \<open>A receiver that agrees with the publisher on the crates, the id, the root and the size.\<close>

definition fan_peer :: "fanout_publisher \<Rightarrow> manifest \<Rightarrow> fanout_env \<Rightarrow> fanout_config \<Rightarrow> disk \<Rightarrow> bool" where
  "fan_peer P m E cfg d \<longleftrightarrow> ce_bao (fn_client E) = se_bao (fp_server P) \<and> bao_serves (fp_server P)
     \<and> (\<forall>msg b. fp_enc P msg = Inr b \<longrightarrow> fn_dec E b = Inr msg)
     \<and> (\<forall>n. ce_faults (fn_client E) n = None) \<and> m_total_len m \<le> fo_max_blob_size cfg
     \<and> (m_total_len m = 0 \<longrightarrow> m_root m = ce_blake3 (fn_client E) [])
     \<and> (fo_overwrite cfg = Refuse \<longrightarrow> dk_dest d = None \<and> ce_dest_race (fn_client E) = None)"

lemma fan_frame_sample:
  "fan_peer P m E cfg d \<Longrightarrow> fp_enc P \<lparr>fx_version = WIRE_VERSION, fx_frame = fr\<rparr> = Inr b \<Longrightarrow>
   fan_frame E (fan_sample key b) = Some fr"
  by (simp add: fan_peer_def fan_frame_def fan_sample_def)

lemma slice_put_due:
  assumes peer: "fan_peer P m E cfg d" and man: "fanout_manifest (fp_server P) spec content = Inr (m, c, ob)"
    and put: "slice_put P key c ob content out x"
    and del: "\<forall>s \<in> set out. \<exists>i. k \<le> i \<and> i < N \<and> ft_wait (S i) = Delivered s"
  shows "\<exists>j sm bao ls. k \<le> j \<and> j < N \<and> ft_wait (S j) = Delivered sm \<and> fan_frame E sm = Some (SliceFrame x bao)
     \<and> decode_slice (ce_bao (fn_client E)) (m_root m) (m_total_len m)
         (chunk_range (ce_bao (fn_client E)) (byte_range c x)) bao push_leaf [] = (Inr (), ls)"
proof -
  let ?r = "chunk_range (se_bao (fp_server P)) (byte_range c x)"
  obtain bao payload where b: "se_encode_slice (fp_server P) ob content ?r = Inr bao"
      "fp_enc P \<lparr>fx_version = WIRE_VERSION, fx_frame = SliceFrame x bao\<rparr> = Inr payload"
      "fan_sample key payload \<in> set out"
    using put by (auto simp: slice_put_def)
  note mf = fanout_manifest_Inr [OF man]
  have "\<forall>y \<in> set (DecodeResponseIter (se_bao (fp_server P)) (m_root m) (m_total_len m) ?r bao). is_ok y"
    using peer b(1) mf unfolding fan_peer_def bao_serves_def by (metis sum.inject(2))
  then have "\<exists>ls. decode_slice (ce_bao (fn_client E)) (m_root m) (m_total_len m)
      (chunk_range (ce_bao (fn_client E)) (byte_range c x)) bao push_leaf [] = (Inr (), ls)"
    using peer by (simp add: fan_peer_def decode_slice_def decode_items_push)
  moreover obtain j where "k \<le> j" "j < N" "ft_wait (S j) = Delivered (fan_sample key payload)" using del b(3) by blast
  ultimately show ?thesis using fan_frame_sample [OF peer b(2)] by blast
qed

text \<open>The file operations around the slices do not fail for such a receiver.\<close>

lemma receive_fanout_quiet:
  assumes peer: "fan_peer P m E cfg d" and sub: "fn_subscribe E (fanout_key qprefix bid)"
    and el: "early_loop n E cfg bid root S 0 fan_early_start = Some (Inr (m, c), ea, i)"
    and loop: "\<And>f. fan_counts c f \<Longrightarrow> fa_last_progress f = fn_drained E \<Longrightarrow> \<exists>f'. slice_loop n E cfg m c S i f = Some (Inr (), f')"
  shows "\<exists>st d'. receive_fanout n E cfg qprefix bid root S d = Some (Inr st, d')"
proof -
  let ?E = "fn_client E"
  have quiet: "\<forall>n. ce_faults ?E n = None" using peer by (simp add: fan_peer_def)
  have "\<exists>d0. check_dest ?E (fo_overwrite cfg) d = (Inr (), d0) \<and> dk_dest d0 = dk_dest d"
    using peer quiet by (cases "fo_overwrite cfg") (simp_all add: check_dest_def disk_op_def fan_peer_def)
  then obtain d0 where cd: "check_dest ?E (fo_overwrite cfg) d = (Inr (), d0)" "dk_dest d0 = dk_dest d" by blast
  obtain d1 where cr: "fan_create ?E m (fan_note [Started (m_total_len m) (tc_count c)] d0) = (Inr (), d1)"
      "dk_dest d1 = dk_dest d"
    using quiet cd(2) by (auto simp: fan_create_def disk_op_def fan_note_def)
  obtain f where dr: "drain_early ?E m c (ea_frames ea) (fan_start c (to_world d1)) = (Inr (), f)"
    using quiet_drain [OF quiet] by (metis prod.collapse)
  have "fan_counts c f"
    by (rule drain_early_counts [OF _ dr]) (simp add: fan_counts_def fan_start_def)
  then obtain f' where "slice_loop n E cfg m c S i
      (f\<lparr>fa_progressed := fa_received f, fa_last_progress := fn_drained E\<rparr>) = Some (Inr (), f')"
    using loop [of "f\<lparr>fa_progressed := fa_received f, fa_last_progress := fn_drained E\<rparr>"] by auto
  then have rs: "receive_slices n E cfg m c (ea_frames ea) S i (to_world d1) = Some (Inr (), f')"
    using dr by (simp add: receive_slices_def)
  have "\<exists>st d'. fan_finish ?E (fo_overwrite cfg) d1 (Inr (), f') = (Inr st, d')"
    using quiet peer cr(2)
    by (auto simp: fan_finish_def fan_place_def check_dest_def disk_op_def fan_peer_def from_world_def split: option.split)
  then show ?thesis
    using cd sub el cr rs by (auto simp: receive_fanout_def Let_def)
qed

lemma honest_fanout:
  assumes pub: "fanout_file P prefix spec (Inr content) (Inr content) = Inr (m, Inr (), out)"
    and peer: "fan_peer P m E cfg d" and sub: "fn_subscribe E (fanout_key qprefix (m_id m))"
    and root: "root = None \<or> root = Some (m_root m)" and del: "delivers E cfg (m_id m) root S k N out" and n: "N < n"
  shows "\<exists>st d'. receive_fanout n E cfg qprefix (m_id m) root S d = Some (Inr st, d')"
proof -
  let ?E = "fn_client E" and ?key = "fanout_key prefix (m_id m)"
  obtain c ob where man: "fanout_manifest (fp_server P) spec content = Inr (m, c, ob)"
      and task: "fanout_task P ?key m c ob (Inr content) = (Inr (), out)"
    using pub by (auto simp: fanout_file_def and_then_Inr)
  obtain payload rest where p: "fp_enc P \<lparr>fx_version = WIRE_VERSION, fx_frame = ManifestFrame m\<rparr> = Inr payload"
      "out = fan_sample ?key payload # rest" "\<forall>i < tc_count c. slice_put P ?key c ob content out i"
    by (rule fanout_task_put [OF task])
  note mf = fanout_manifest_Inr [OF man] and fr = fan_frame_sample [OF peer p(1), of ?key]
  have quiet: "\<forall>n. ce_faults ?E n = None" using peer by (simp add: fan_peer_def)
  have "manifest_validate m (fo_max_blob_size cfg) = Inr ()"
    using mf(5) peer by (simp add: manifest_validate_Inr fan_peer_def)
  then have verdict: "fan_verdict E cfg (m_id m) root m = Inr c"
    using peer root mf(2) by (auto simp: fan_verdict_def fan_peer_def)
  have k: "k < N" "ft_wait (S k) = Delivered (fan_sample ?key payload)" and pr: "prompt E cfg S N"
    using del p(2) by (auto simp: delivers_def)
  obtain ea where el: "early_loop n E cfg (m_id m) root S 0 fan_early_start = Some (Inr (m, c), ea, Suc k)"
    using early_loop_delivers [OF pr k fr verdict, of 0 n fan_early_start] del n k(1) by (auto simp: delivers_def)
  have due: "slice_due E m c S (Suc k) N x" if x: "x < tc_count c" for x
  proof -
    obtain j sm bao ls where j: "k \<le> j" "j < N" "ft_wait (S j) = Delivered sm" "fan_frame E sm = Some (SliceFrame x bao)"
        "decode_slice (ce_bao ?E) (m_root m) (m_total_len m) (chunk_range (ce_bao ?E) (byte_range c x)) bao push_leaf [] = (Inr (), ls)"
      using slice_put_due [OF peer man, of ?key out x k N S] p(3) x del by (auto simp: delivers_def)
    then have "j \<noteq> k" using k(2) fr by auto
    then show ?thesis using j by (auto simp: slice_due_def intro!: exI [of _ j])
  qed
  obtain t0 where t0: "t0 \<le> fn_drained E" "\<forall>i < N. t0 \<le> ft_now (S i) \<and> ft_now (S i) \<le> t0 + fo_stall_timeout cfg
      \<and> \<not> ft_cancelled (S i) \<and> (\<exists>sm. ft_wait (S i) = Delivered sm)"
    using pr by (auto simp: prompt_def)
  show ?thesis
    by (rule receive_fanout_quiet [OF peer sub el], rule slice_loop_delivers [OF quiet t0(2)])
       (use t0(1) due k(1) n in auto)
qed

end
