(* ===== verification/Publish.thy ===== *)
theory Publish
  imports Tree_Client_Props
begin

text \<open>
  Publishing into a storage (\<open>src/src/publish.rs\<close>): chunks and indices are put under their keys
  and read back. A put appends a sample; \<open>pe_put\<close> says whether the put with that number is taken
  by the transport, \<open>pe_get\<close> what the read-back query with that number sees, \<open>pe_now\<close> the clock
  when its deadline is checked.
\<close>

record publish_env =
  pe_crates :: crates
  pe_postcard :: postcard
  pe_put :: "nat \<Rightarrow> bool"
  pe_get :: "nat \<Rightarrow> string \<Rightarrow> unit + reply list"
  pe_now :: "nat \<Rightarrow> nat"

definition put_sample :: "publish_env \<Rightarrow> sample \<Rightarrow> sample list \<Rightarrow> unit res \<times> sample list" where
  "put_sample P s out = (if pe_put P (length out) then (Inr (), out @ [s]) else (Inl Zenoh, out))"

section \<open>Chunks and indices\<close>

definition publish_chunk ::
  "publish_env \<Rightarrow> serve_prefix \<Rightarrow> chunk_compression \<Rightarrow> hash \<Rightarrow> bytes \<Rightarrow> sample list \<Rightarrow> unit res \<times> sample list" where
  "publish_chunk P prefix compression h b out =
     (case pack (pe_crates P) b compression of
        Inl e \<Rightarrow> (Inl e, out)
      | Inr framed \<Rightarrow>
          put_sample P \<lparr>sm_encoding = ENC_CHUNK, sm_key = store_key prefix Blake3 h, sm_payload = framed\<rparr> out)"

definition PUBLISH_READ_BATCH :: nat where
  "PUBLISH_READ_BATCH = 32"

text \<open>One group of chunks as read, then the groups; the count is a \<open>u32\<close>.\<close>

fun publish_group ::
  "publish_env \<Rightarrow> serve_prefix \<Rightarrow> chunk_compression \<Rightarrow> u32 \<Rightarrow> (hash \<times> bytes option) list \<Rightarrow> sample list
   \<Rightarrow> u32 res \<times> sample list" where
  "publish_group P prefix compression published [] out = (Inr published, out)"
| "publish_group P prefix compression published ((h, None) # rest) out = (Inl NotFound, out)"
| "publish_group P prefix compression published ((h, Some b) # rest) out =
     then_io (publish_chunk P prefix compression h b out) (\<lambda>_.
       publish_group P prefix compression (published + 1) rest)"

fun publish_groups ::
  "'s store_ops \<Rightarrow> publish_env \<Rightarrow> serve_prefix \<Rightarrow> chunk_compression \<Rightarrow> u32 \<Rightarrow> hash list list
   \<Rightarrow> 's \<times> sample list \<Rightarrow> u32 res \<times> 's \<times> sample list" where
  "publish_groups S P prefix compression published [] st = (Inr published, st)"
| "publish_groups S P prefix compression published (g # gs) st =
     (case store_get_many (so_get S) (fst st) g of
        (Inl e, s1) \<Rightarrow> (Inl (Io e), s1, snd st)
      | (Inr bs, s1) \<Rightarrow>
          (case publish_group P prefix compression published (zip g bs) (snd st) of
             (Inl e, out1) \<Rightarrow> (Inl e, s1, out1)
           | (Inr n, out1) \<Rightarrow> publish_groups S P prefix compression n gs (s1, out1)))"

definition publish_hashes ::
  "'s store_ops \<Rightarrow> publish_env \<Rightarrow> serve_prefix \<Rightarrow> chunk_compression \<Rightarrow> hash list \<Rightarrow> 's \<times> sample list
   \<Rightarrow> u32 res \<times> 's \<times> sample list" where
  "publish_hashes S P prefix compression hs st =
     publish_groups S P prefix compression 0 (pieces_of PUBLISH_READ_BATCH hs) st"

definition publish_snapshot_chunks ::
  "'s store_ops \<Rightarrow> publish_env \<Rightarrow> serve_prefix \<Rightarrow> tree_index \<Rightarrow> chunk_compression \<Rightarrow> 's \<times> sample list
   \<Rightarrow> u32 res \<times> 's \<times> sample list" where
  "publish_snapshot_chunks S P prefix index compression st =
     publish_hashes S P prefix compression (needed_chunks index) st"

definition publish_store ::
  "'s store_ops \<Rightarrow> ('s \<Rightarrow> io_error + hash list) \<Rightarrow> publish_env \<Rightarrow> serve_prefix \<Rightarrow> chunk_compression
   \<Rightarrow> 's \<times> sample list \<Rightarrow> u32 res \<times> 's \<times> sample list" where
  "publish_store S hashes P prefix compression st =
     (case hashes (fst st) of
        Inl e \<Rightarrow> (Inl (Io e), st)
      | Inr hs \<Rightarrow> publish_hashes S P prefix compression hs st)"

definition publish_index :: "publish_env \<Rightarrow> serve_prefix \<Rightarrow> tree_index \<Rightarrow> sample list \<Rightarrow> unit res \<times> sample list" where
  "publish_index P tree_prefix index out =
     (case pc_index (pe_postcard P) index of
        Inl e \<Rightarrow> (Inl e, out)
      | Inr payload \<Rightarrow>
          put_sample P \<lparr>sm_encoding = ENC_INDEX, sm_key = tree_key tree_prefix (ti_id index), sm_payload = payload\<rparr> out)"

section \<open>Reading back\<close>

datatype settle_coverage = Sample nat | AllChunks

definition settle_coverage_default :: settle_coverage where
  "settle_coverage_default = Sample 8"

text \<open>\<open>(0..n).step_by(step)\<close>.\<close>

definition step_by :: "nat \<Rightarrow> nat \<Rightarrow> nat list" where
  "step_by n step = filter (\<lambda>i. i mod step = 0) [0..<n]"

definition sample_indices :: "nat \<Rightarrow> settle_coverage \<Rightarrow> nat list" where
  "sample_indices n coverage =
     (case coverage of
        AllChunks \<Rightarrow> [0..<n]
      | Sample k0 \<Rightarrow>
          let k = max k0 1; step = max (n div k) 1; picked = take k (step_by n step)
          in if picked \<noteq> [] \<and> last picked = n - 1 then picked
             else (if length picked \<ge> k then butlast picked else picked) @ [n - 1])"

definition probe_key :: "publish_env \<Rightarrow> nat \<Rightarrow> string \<Rightarrow> bool res" where
  "probe_key P n key =
     (case pe_get P n key of
        Inl _ \<Rightarrow> Inl Zenoh
      | Inr rs \<Rightarrow> Inr (list_ex (\<lambda>r. case r of Inl _ \<Rightarrow> False | Inr _ \<Rightarrow> True) rs))"

text \<open>Probing one key until it is answered or the deadline has passed, with a bound on the probes.\<close>

fun settle_key :: "nat \<Rightarrow> publish_env \<Rightarrow> nat \<Rightarrow> nat \<Rightarrow> string \<Rightarrow> (unit res \<times> nat) option" where
  "settle_key 0 P deadline n key = None"
| "settle_key (Suc fuel) P deadline n key =
     (case probe_key P n key of
        Inl e \<Rightarrow> Some (Inl e, Suc n)
      | Inr True \<Rightarrow> Some (Inr (), Suc n)
      | Inr False \<Rightarrow>
          if pe_now P n \<ge> deadline then Some (Inl NotSettled, Suc n)
          else settle_key fuel P deadline (Suc n) key)"

fun settle_keys :: "nat \<Rightarrow> publish_env \<Rightarrow> nat \<Rightarrow> nat \<Rightarrow> string list \<Rightarrow> (unit res \<times> nat) option" where
  "settle_keys fuel P deadline n [] = Some (Inr (), n)"
| "settle_keys fuel P deadline n (key # keys) =
     (case settle_key fuel P deadline n key of
        None \<Rightarrow> None
      | Some (Inl e, n1) \<Rightarrow> Some (Inl e, n1)
      | Some (Inr _, n1) \<Rightarrow> settle_keys fuel P deadline n1 keys)"

definition settle_probes :: "serve_prefix \<Rightarrow> serve_prefix \<Rightarrow> tree_index \<Rightarrow> settle_coverage \<Rightarrow> string list" where
  "settle_probes store_prefix tree_prefix index coverage =
     (let needed = needed_chunks index; n = length needed in
      tree_key tree_prefix (ti_id index)
      # (if n > 0 then map (\<lambda>i. store_key store_prefix Blake3 (needed ! i)) (sample_indices n coverage) else []))"

text \<open>\<open>now\<close> is the clock when the puts are done.\<close>

definition publish_snapshot ::
  "nat \<Rightarrow> 's store_ops \<Rightarrow> publish_env \<Rightarrow> serve_prefix \<Rightarrow> serve_prefix \<Rightarrow> tree_index \<Rightarrow> chunk_compression
   \<Rightarrow> settle_coverage \<Rightarrow> nat \<Rightarrow> nat \<Rightarrow> 's \<times> sample list \<Rightarrow> (unit res \<times> 's \<times> sample list) option" where
  "publish_snapshot fuel S P store_prefix tree_prefix index compression coverage settle now st =
     (case publish_snapshot_chunks S P store_prefix index compression st of
        (Inl e, st1) \<Rightarrow> Some (Inl e, st1)
      | (Inr _, s1, out1) \<Rightarrow>
          (case publish_index P tree_prefix index out1 of
             (Inl e, out2) \<Rightarrow> Some (Inl e, s1, out2)
           | (Inr _, out2) \<Rightarrow>
               map_option (\<lambda>(r, _). (r, s1, out2))
                 (settle_keys fuel P (now + settle) 0 (settle_probes store_prefix tree_prefix index coverage))))"

section \<open>Publishers\<close>

record publisher =
  pl_store_prefix :: serve_prefix
  pl_compression :: chunk_compression

record snapshot_publisher =
  sp_chunks :: publisher
  sp_tree_prefix :: serve_prefix
  sp_coverage :: settle_coverage
  sp_settle :: nat

definition publisher_new :: "serve_prefix \<Rightarrow> publisher" where
  "publisher_new prefix = \<lparr>pl_store_prefix = prefix, pl_compression = NoCompression\<rparr>"

definition publisher_with_compression :: "chunk_compression \<Rightarrow> publisher \<Rightarrow> publisher" where
  "publisher_with_compression compression p = p\<lparr>pl_compression := compression\<rparr>"

text \<open>The default settle budget is ten seconds, in nanoseconds.\<close>

definition publisher_snapshots :: "serve_prefix \<Rightarrow> publisher \<Rightarrow> snapshot_publisher" where
  "publisher_snapshots tree_prefix p =
     \<lparr>sp_chunks = p, sp_tree_prefix = tree_prefix, sp_coverage = settle_coverage_default, sp_settle = 10 * 1000000000\<rparr>"

definition snapshot_with_coverage :: "settle_coverage \<Rightarrow> snapshot_publisher \<Rightarrow> snapshot_publisher" where
  "snapshot_with_coverage coverage p = p\<lparr>sp_coverage := coverage\<rparr>"

definition snapshot_with_settle :: "nat \<Rightarrow> snapshot_publisher \<Rightarrow> snapshot_publisher" where
  "snapshot_with_settle settle p = p\<lparr>sp_settle := settle\<rparr>"

definition publisher_chunk :: "publish_env \<Rightarrow> publisher \<Rightarrow> hash \<Rightarrow> bytes \<Rightarrow> sample list \<Rightarrow> unit res \<times> sample list" where
  "publisher_chunk P p h b out = publish_chunk P (pl_store_prefix p) (pl_compression p) h b out"

definition publisher_chunks ::
  "'s store_ops \<Rightarrow> publish_env \<Rightarrow> publisher \<Rightarrow> hash list \<Rightarrow> 's \<times> sample list \<Rightarrow> u32 res \<times> 's \<times> sample list" where
  "publisher_chunks S P p hs st = publish_hashes S P (pl_store_prefix p) (pl_compression p) hs st"

definition publisher_store ::
  "'s store_ops \<Rightarrow> ('s \<Rightarrow> io_error + hash list) \<Rightarrow> publish_env \<Rightarrow> publisher \<Rightarrow> 's \<times> sample list
   \<Rightarrow> u32 res \<times> 's \<times> sample list" where
  "publisher_store S hashes P p st = publish_store S hashes P (pl_store_prefix p) (pl_compression p) st"

definition publisher_index ::
  "publish_env \<Rightarrow> snapshot_publisher \<Rightarrow> tree_index \<Rightarrow> sample list \<Rightarrow> unit res \<times> sample list" where
  "publisher_index P p index out = publish_index P (sp_tree_prefix p) index out"

definition publisher_chunks_for ::
  "'s store_ops \<Rightarrow> publish_env \<Rightarrow> snapshot_publisher \<Rightarrow> tree_index \<Rightarrow> 's \<times> sample list \<Rightarrow> u32 res \<times> 's \<times> sample list" where
  "publisher_chunks_for S P p index st =
     publish_snapshot_chunks S P (pl_store_prefix (sp_chunks p)) index (pl_compression (sp_chunks p)) st"

definition publisher_publish ::
  "nat \<Rightarrow> 's store_ops \<Rightarrow> publish_env \<Rightarrow> snapshot_publisher \<Rightarrow> tree_index \<Rightarrow> nat \<Rightarrow> 's \<times> sample list
   \<Rightarrow> (unit res \<times> 's \<times> sample list) option" where
  "publisher_publish fuel S P p index now st =
     publish_snapshot fuel S P (pl_store_prefix (sp_chunks p)) (sp_tree_prefix p) index (pl_compression (sp_chunks p))
       (sp_coverage p) (sp_settle p) now st"

end
