(* ===== verification/Publish_Props.thy ===== *)
theory Publish_Props
  imports Publish
begin

text \<open>
  Publishing: which keys are probed, what a successful publish has put, and that a client reads
  the snapshot back from a storage that keeps what was put.
\<close>

section \<open>The sample of the read-back\<close>

definition ascending_below :: "nat \<Rightarrow> nat list \<Rightarrow> bool" where
  "ascending_below n is \<longleftrightarrow> sorted_wrt (<) is \<and> (\<forall>i \<in> set is. i < n)"

lemma ascending_snoc: "ascending_below n is \<Longrightarrow> ascending_below (Suc n) (is @ [n])"
  by (auto simp: ascending_below_def sorted_wrt_append intro: less_SucI)

lemma ascending_butlast: "ascending_below n is \<Longrightarrow> ascending_below n (butlast is)"
  by (auto simp: ascending_below_def in_set_butlastD butlast_conv_take sorted_wrt_take)

lemma ascending_not_last:
  assumes "ascending_below (Suc n) is" "is = [] \<or> last is \<noteq> n"
  shows "ascending_below n is"
proof (cases "is" rule: rev_cases)
  case (snoc js j)
  then have "j < n" "\<forall>i \<in> set js. i < j" "sorted_wrt (<) is"
    using assms by (auto simp: ascending_below_def sorted_wrt_append)
  then show ?thesis by (auto simp: ascending_below_def snoc)
qed (simp add: ascending_below_def)

lemma ascending_step: "ascending_below n (take k (step_by n step))"
proof -
  have "sorted_wrt (<) (step_by n step)" unfolding step_by_def by (intro sorted_wrt_filter sorted_wrt_upt)
  then show ?thesis by (auto simp: ascending_below_def sorted_wrt_take step_by_def dest!: in_set_takeD)
qed

lemma sample_indices_ascending: "0 < n \<Longrightarrow> ascending_below n (sample_indices n coverage)"
proof (cases n; cases coverage)
  fix k0 m assume n: "n = Suc m" and c: "coverage = Sample k0"
  let ?picked = "take (max k0 1) (step_by n (max (n div max k0 1) 1))"
  have p: "ascending_below (Suc m) ?picked"
    unfolding n by (rule ascending_step)
  show "ascending_below n (sample_indices n coverage)"
  proof (cases "?picked \<noteq> [] \<and> last ?picked = m")
    case True
    then show ?thesis using p n c by (simp add: sample_indices_def Let_def)
  next
    case False
    then have "ascending_below m ?picked" using ascending_not_last [OF p] by blast
    then show ?thesis
      using False n c ascending_snoc ascending_butlast by (auto simp: sample_indices_def Let_def)
  qed
next
  fix m assume "n = Suc m" "coverage = AllChunks"
  then show "ascending_below n (sample_indices n coverage)"
    by (simp add: ascending_below_def sample_indices_def del: upt_Suc)
qed simp_all

lemma sample_indices_last: "0 < n \<Longrightarrow> sample_indices n coverage \<noteq> [] \<and> last (sample_indices n coverage) = n - 1"
  by (auto simp: sample_indices_def Let_def split: settle_coverage.split)

lemma sample_indices_length: "length (sample_indices n (Sample k)) \<le> max k 1"
proof -
  obtain c where c: "c = max k 1" "0 < c" by simp
  obtain picked where "picked = take c (step_by n (max (n div c) 1))" by simp
  then have "length picked \<le> c" "sample_indices n (Sample k)
      = (if picked \<noteq> [] \<and> last picked = n - 1 then picked else (if length picked \<ge> c then butlast picked else picked) @ [n - 1])"
    by (simp_all add: sample_indices_def Let_def c(1))
  then have "length (sample_indices n (Sample k)) \<le> c" using c(2) by auto
  then show ?thesis by (simp add: c(1))
qed

lemma sample_indices_first:
  assumes "0 < n" "2 \<le> k \<or> n = 1"
  shows "hd (sample_indices n (Sample k)) = 0"
proof -
  let ?k = "max k 1" let ?l = "step_by n (max (n div ?k) 1)"
  have "[0..<n] = 0 # [1..<n]" using assms(1) by (simp add: upt_conv_Cons)
  then obtain rest where l: "?l = 0 # rest" unfolding step_by_def by simp
  then obtain rest' where t: "take ?k ?l = 0 # rest'" by (cases ?k) auto
  show ?thesis
  proof (cases "n = 1")
    case True
    then have "take ?k ?l = [0]" using t by (cases k) (auto simp: step_by_def)
    then show ?thesis using True by (simp add: sample_indices_def Let_def)
  next
    case False
    then have "butlast (0 # rest') = 0 # butlast rest'" if "?k \<le> length (0 # rest')" using assms(2) that by auto
    then show ?thesis unfolding sample_indices_def using t by (auto simp: Let_def)
  qed
qed

lemma sample_indices_single:
  assumes "0 < n" "k < 2" "n \<noteq> 1"
  shows "sample_indices n (Sample k) = [n - 1]"
proof -
  have k: "max k 1 = 1" "max (n div 1) 1 = n" using assms by auto
  have "[0..<n] = 0 # [1..<n]" using assms(1) by (simp add: upt_conv_Cons)
  then have "step_by n n = [0]" using assms(1) by (auto simp: step_by_def filter_empty_conv)
  then show ?thesis using assms k by (simp add: sample_indices_def Let_def)
qed

section \<open>What is put\<close>

definition chunk_frame :: "publish_env \<Rightarrow> chunk_compression \<Rightarrow> bytes \<Rightarrow> bytes" where
  "chunk_frame P compression b = (case pack (pe_crates P) b compression of Inr framed \<Rightarrow> framed | Inl _ \<Rightarrow> [])"

definition stored_sample :: "publish_env \<Rightarrow> serve_prefix \<Rightarrow> chunk_compression \<Rightarrow> hash \<times> bytes \<Rightarrow> sample" where
  "stored_sample P prefix compression hb =
     \<lparr>sm_encoding = ENC_CHUNK, sm_key = store_key prefix Blake3 (fst hb), sm_payload = chunk_frame P compression (snd hb)\<rparr>"

lemma publish_chunk_Inr:
  assumes "publish_chunk P prefix compression h b out = (Inr u, out')"
  shows "out' = out @ [stored_sample P prefix compression (h, b)] \<and> pack (pe_crates P) b compression = Inr (chunk_frame P compression b)"
  using assms by (auto simp: publish_chunk_def put_sample_def stored_sample_def chunk_frame_def split: sum.splits if_splits)

lemma publish_group_Inr:
  assumes "publish_group P prefix compression n xs out = (Inr m, out')"
  shows "\<exists>hbs. xs = map (\<lambda>(h, b). (h, Some b)) hbs \<and> out' = out @ map (stored_sample P prefix compression) hbs
     \<and> (\<forall>(h, b) \<in> set hbs. pack (pe_crates P) b compression = Inr (chunk_frame P compression b))
     \<and> m = n + of_nat (length hbs)"
  using assms
proof (induction P prefix compression n xs out rule: publish_group.induct)
  case (3 P prefix compression n h b rest out)
  obtain out1 where p: "publish_chunk P prefix compression h b out = (Inr (), out1)"
      "publish_group P prefix compression (n + 1) rest out1 = (Inr m, out')"
    using "3.prems" by (auto simp: then_io_Inr)
  from "3.IH" [OF p(2)] obtain hbs where "rest = map (\<lambda>(h, b). (h, Some b)) hbs" "out' = out1 @ map (stored_sample P prefix compression) hbs"
     "\<forall>(h, b) \<in> set hbs. pack (pe_crates P) b compression = Inr (chunk_frame P compression b)" "m = n + 1 + of_nat (length hbs)"
    by blast
  then show ?case using publish_chunk_Inr [OF p(1)] by (intro exI [of _ "(h, b) # hbs"]) auto
qed auto

definition holds_all :: "(hash \<Rightarrow> bytes option) \<Rightarrow> hash list \<Rightarrow> bool" where
  "holds_all m hs \<longleftrightarrow> (\<forall>h \<in> set hs. m h \<noteq> None)"

definition held_pairs :: "(hash \<Rightarrow> bytes option) \<Rightarrow> hash list \<Rightarrow> (hash \<times> bytes) list" where
  "held_pairs m hs = map (\<lambda>h. (h, the (m h))) hs"

lemma zip_held:
  assumes "zip hs (map m hs) = map (\<lambda>(h, b). (h, Some b)) hbs"
  shows "holds_all m hs \<and> hbs = held_pairs m hs"
  using assms
proof (induction hs arbitrary: hbs)
  case (Cons h hs)
  then obtain b hbs' where "hbs = (h, b) # hbs'" "m h = Some b" "zip hs (map m hs) = map (\<lambda>(h, b). (h, Some b)) hbs'"
    by (cases hbs) auto
  then show ?case using Cons.IH by (auto simp: holds_all_def held_pairs_def)
qed (simp add: holds_all_def held_pairs_def)

context content_store
begin

lemma publish_groups_Inr:
  assumes "inv s" "\<forall>h \<in> set (concat gs). hash_wf h" "so_get S = get"
    and "publish_groups S P prefix compression n gs (s, out) = (Inr m, s', out')"
  shows "s' = s \<and> holds_all (contents s) (concat gs)
     \<and> out' = out @ map (stored_sample P prefix compression) (held_pairs (contents s) (concat gs))
     \<and> (\<forall>(h, b) \<in> set (held_pairs (contents s) (concat gs)). pack (pe_crates P) b compression = Inr (chunk_frame P compression b))
     \<and> m = n + of_nat (length (concat gs))"
  using assms(2,4)
proof (induction gs arbitrary: n out)
  case (Cons g gs)
  obtain bs s1 where g: "store_get_many get s g = (Inr bs, s1)"
    using Cons.prems(2) assms(3) by (auto split: prod.splits sum.splits)
  then have bs: "bs = map (contents s) g" "s1 = s" using get_many_Inr [OF assms(1) _ g] Cons.prems(1) by auto
  obtain k out1 where pg: "publish_group P prefix compression n (zip g bs) out = (Inr k, out1)"
      and rest: "publish_groups S P prefix compression k gs (s, out1) = (Inr m, s', out')"
    using Cons.prems(2) assms(3) g bs(2) by (auto split: prod.splits sum.splits)
  from publish_group_Inr [OF pg] zip_held bs(1) have one: "holds_all (contents s) g"
      "out1 = out @ map (stored_sample P prefix compression) (held_pairs (contents s) g)"
      "\<forall>(h, b) \<in> set (held_pairs (contents s) g). pack (pe_crates P) b compression = Inr (chunk_frame P compression b)"
      "k = n + of_nat (length (held_pairs (contents s) g))"
    by blast+
  have "holds_all (contents s) (concat gs)" "s' = s"
     "out' = out1 @ map (stored_sample P prefix compression) (held_pairs (contents s) (concat gs))"
     "\<forall>(h, b) \<in> set (held_pairs (contents s) (concat gs)). pack (pe_crates P) b compression = Inr (chunk_frame P compression b)"
     "m = k + of_nat (length (concat gs))"
    using Cons.IH [OF _ rest] Cons.prems(1) by auto
  with one show ?case by (auto simp: holds_all_def held_pairs_def)
qed (simp add: holds_all_def held_pairs_def)

lemma publish_hashes_Inr:
  assumes "inv s" "\<forall>h \<in> set hs. hash_wf h" "so_get S = get"
    and "publish_hashes S P prefix compression hs (s, out) = (Inr m, s', out')"
  shows "s' = s \<and> holds_all (contents s) hs
     \<and> out' = out @ map (stored_sample P prefix compression) (held_pairs (contents s) hs)
     \<and> (\<forall>(h, b) \<in> set (held_pairs (contents s) hs). pack (pe_crates P) b compression = Inr (chunk_frame P compression b))
     \<and> m = of_nat (length hs)"
proof -
  have "concat (pieces_of PUBLISH_READ_BATCH hs) = hs" by (simp add: concat_pieces_of PUBLISH_READ_BATCH_def)
  then show ?thesis
    using publish_groups_Inr [OF assms(1) _ assms(3), of "pieces_of PUBLISH_READ_BATCH hs" P prefix compression 0 out m s' out'] assms(2,4)
    by (simp add: publish_hashes_def)
qed

end

section \<open>Settling\<close>

definition answered :: "publish_env \<Rightarrow> string \<Rightarrow> bool" where
  "answered P key \<longleftrightarrow> (\<exists>n rs s. pe_get P n key = Inr rs \<and> Inr s \<in> set rs)"

lemma probe_key_True: "probe_key P n key = Inr True \<Longrightarrow> answered P key"
  by (fastforce simp: probe_key_def answered_def list_ex_iff split: sum.splits)

lemma settle_key_Inr: "settle_key fuel P deadline n key = Some (Inr u, m) \<Longrightarrow> answered P key"
  by (induction fuel P deadline n key rule: settle_key.induct)
     (auto split: sum.splits bool.splits if_splits dest: probe_key_True)

lemma settle_keys_Inr: "settle_keys fuel P deadline n keys = Some (Inr u, m) \<Longrightarrow> key \<in> set keys \<Longrightarrow> answered P key"
  by (induction fuel P deadline n keys rule: settle_keys.induct)
     (auto split: option.splits prod.splits sum.splits dest: settle_key_Inr)

text \<open>The read-back gives up: a key is not probed again once the deadline has passed.\<close>

lemma settle_key_returns:
  "n \<le> j \<Longrightarrow> deadline \<le> pe_now P j \<Longrightarrow> j - n < fuel \<Longrightarrow> \<exists>r m. settle_key fuel P deadline n key = Some (r, m)"
proof (induction fuel arbitrary: n)
  case (Suc fuel)
  show ?case
  proof (cases "n = j")
    case True
    then show ?thesis using Suc.prems by (auto split: sum.split bool.split)
  next
    case False
    then have "Suc n \<le> j" "j - Suc n < fuel" using Suc.prems by auto
    then show ?thesis using Suc.IH Suc.prems(2) by (auto split: sum.split bool.split)
  qed
qed simp

lemma settle_keys_returns:
  assumes "\<forall>i. deadline \<le> pe_now P (j + i)" "j < fuel"
  shows "\<exists>r m. settle_keys fuel P deadline n keys = Some (r, m)"
proof (induction keys arbitrary: n)
  case (Cons key keys)
  have "\<exists>r m. settle_key fuel P deadline n key = Some (r, m)"
  proof (cases "n \<le> j")
    case True
    then show ?thesis using assms settle_key_returns [OF True] by (metis add.right_neutral diff_le_self le_less_trans)
  next
    case False
    then have "deadline \<le> pe_now P n" using assms(1) by (metis le_add_diff_inverse less_imp_le not_le)
    then show ?thesis using settle_key_returns [of n n deadline P fuel] assms(2) by simp
  qed
  then show ?case using Cons by (auto split: sum.split)
qed simp

lemma publish_snapshot_returns:
  assumes "\<forall>i. now + settle \<le> pe_now P (j + i)" "j < fuel"
  shows "\<exists>x. publish_snapshot fuel S P sp tp index compression coverage settle now st = Some x"
  using settle_keys_returns [OF assms, of 0 "settle_probes sp tp index coverage"]
  by (auto simp: publish_snapshot_def split: prod.split sum.split)

lemma settle_probes_All:
  "set (settle_probes store_prefix tree_prefix index AllChunks)
     = insert (tree_key tree_prefix (ti_id index)) (store_key store_prefix Blake3 ` set (needed_chunks index))"
proof -
  have "(!) (needed_chunks index) ` {0..<length (needed_chunks index)} = set (needed_chunks index)"
    by (metis list.set_map map_nth set_upt)
  then show ?thesis by (auto simp: settle_probes_def Let_def sample_indices_def image_image [symmetric] simp flip: image_image)
qed

section \<open>A storage, and a client that reads from it\<close>

text \<open>
  A storage keeps the last sample put on a key and answers a get on that key with it; it knows
  nothing of batched queries.
\<close>

definition storage_answer :: "sample list \<Rightarrow> string \<Rightarrow> reply list" where
  "storage_answer puts key = (case filter (\<lambda>s. sm_key s = key) puts of [] \<Rightarrow> [] | ss \<Rightarrow> [Inr (last ss)])"

definition backed_by :: "store_net \<Rightarrow> sample list \<Rightarrow> bool" where
  "backed_by N puts \<longleftrightarrow> (\<forall>n key. sn_get N n key None = Inr (storage_answer puts key))"

lemma storage_answer_eq:
  "storage_answer puts key =
     (let fs = filter (\<lambda>s. sm_key s = key) puts in if fs = [] then [] else [Inr (last fs)])"
  by (simp add: storage_answer_def Let_def split: list.split)

lemma storage_answer_last:
  assumes "s \<in> set new" "sm_key s = key" "\<forall>x \<in> set new. sm_key x = key \<longrightarrow> x = s"
  shows "storage_answer (old @ new) key = [Inr s]"
proof -
  let ?f = "filter (\<lambda>s. sm_key s = key) new"
  have ne: "?f \<noteq> []" using assms(1,2) by (auto simp: filter_empty_conv)
  then have "last ?f \<in> set ?f" by (rule last_in_set)
  then have "last ?f = s" using assms(3) by simp
  then show ?thesis using ne by (simp add: storage_answer_eq)
qed

lemma store_key_inj: "hash_wf h \<Longrightarrow> hash_wf k \<Longrightarrow> store_key p a h = store_key p a k \<longleftrightarrow> h = k"
  using hash_display_inj by (auto simp: store_key_def)

text \<open>What a publisher that went through has put, after whatever the storage held before.\<close>

definition published_samples ::
  "publish_env \<Rightarrow> serve_prefix \<Rightarrow> serve_prefix \<Rightarrow> chunk_compression \<Rightarrow> tree_index \<Rightarrow> bytes \<Rightarrow> (hash \<Rightarrow> bytes option) \<Rightarrow> sample list" where
  "published_samples P sp tp compression index payload m =
     map (stored_sample P sp compression) (held_pairs m (needed_chunks index))
     @ [\<lparr>sm_encoding = ENC_INDEX, sm_key = tree_key tp (ti_id index), sm_payload = payload\<rparr>]"

lemma publish_index_Inr:
  assumes "publish_index P tp index out = (Inr u, out')"
  obtains payload where "pc_index (pe_postcard P) index = Inr payload"
    and "out' = out @ [\<lparr>sm_encoding = ENC_INDEX, sm_key = tree_key tp (ti_id index), sm_payload = payload\<rparr>]"
  using assms by (auto simp: publish_index_def put_sample_def split: sum.splits if_splits)

text \<open>Reading back: the index by its id, and every chunk by its hash.\<close>

lemma storage_index:
  assumes "backed_by N (old @ published_samples P sp tp compression index payload m)"
    and "yc_tree_prefix c = tp" "id_is_valid (ti_id index)" "index_verdict N c (ti_id index) root payload = Inr index"
    and "\<forall>h \<in> set (needed_chunks index). store_key sp Blake3 h \<noteq> tree_key tp (ti_id index)"
  shows "fetch_index_matching N n c (ti_id index) root = (Inr index, Suc n)"
proof -
  let ?s = "\<lparr>sm_encoding = ENC_INDEX, sm_key = tree_key tp (ti_id index), sm_payload = payload\<rparr>"
  have "storage_answer (old @ published_samples P sp tp compression index payload m) (tree_key tp (ti_id index)) = [Inr ?s]"
    using assms(5) by (intro storage_answer_last) (auto simp: published_samples_def stored_sample_def held_pairs_def)
  then have "sn_get N n (tree_key tp (ti_id index)) None = Inr [Inr ?s]" using assms(1) by (simp add: backed_by_def)
  moreover have "blob_id_new (ti_id index) = Inr (ti_id index)" using assms(3) by (simp add: blob_id_new_Inr)
  ultimately show ?thesis using assms(2,4) by (simp add: fetch_index_matching_def index_payload_def)
qed

lemma storage_chunk:
  assumes "backed_by N (old @ published_samples P sp tp compression index payload m)"
    and "h \<in> set (needed_chunks index)" "m h = Some b" "\<forall>h \<in> set (needed_chunks index). hash_wf h"
    and "pack (pe_crates P) b compression = Inr (chunk_frame P compression b)" "sn_crates N = pe_crates P" "zstd_ok (pe_crates P)"
    and "cr_blake3 (pe_crates P) b = h" "length b \<le> MAX_UNPACKED" "sc_prefix c = sp" "length b \<le> sc_max_chunk_bytes c"
    and "\<forall>h \<in> set (needed_chunks index). store_key sp Blake3 h \<noteq> tree_key tp (ti_id index)"
  shows "fetch_chunk N n c h = Inr b"
proof -
  let ?s = "stored_sample P sp compression (h, b)"
  have "storage_answer (old @ published_samples P sp tp compression index payload m) (store_key sp Blake3 h) = [Inr ?s]"
    using assms(2-4,12) store_key_inj
    by (intro storage_answer_last) (auto simp: published_samples_def stored_sample_def held_pairs_def)
  then have "sn_get N n (store_key sp Blake3 h) None = Inr [Inr ?s]" using assms(1) by (simp add: backed_by_def)
  moreover have "unpack (sn_crates N) (chunk_frame P compression b) = Inr b"
    using pack_unpack [OF assms(7,9,5)] assms(6) by (simp add: unpack_def)
  moreover have "length (chunk_frame P compression b) \<le> sc_max_chunk_bytes c + 5"
    using pack_length [OF assms(5)] assms(11) by simp
  ultimately show ?thesis
    using assms(6,8,10) by (simp add: fetch_chunk_def fetch_one_chunk_def stored_sample_def max_frame_def)
qed

context content_store
begin

lemma publish_snapshot_Inr:
  assumes "inv s" "\<forall>h \<in> set (needed_chunks index). hash_wf h" "so_get S = get"
    and "publish_snapshot fuel S P sp tp index compression coverage settle now (s, out) = Some (Inr u, s', out')"
  obtains payload where "s' = s" "holds_all (contents s) (needed_chunks index)" "pc_index (pe_postcard P) index = Inr payload"
    "out' = out @ published_samples P sp tp compression index payload (contents s)"
    "\<forall>(h, b) \<in> set (held_pairs (contents s) (needed_chunks index)). pack (pe_crates P) b compression = Inr (chunk_frame P compression b)"
    "\<forall>key \<in> set (settle_probes sp tp index coverage). answered P key"
proof -
  obtain k s1 out1 where pc: "publish_hashes S P sp compression (needed_chunks index) (s, out) = (Inr k, s1, out1)"
    using assms(4) by (auto simp: publish_snapshot_def publish_snapshot_chunks_def split: prod.splits sum.splits)
  note c = publish_hashes_Inr [OF assms(1-3) pc]
  obtain out2 where pi: "publish_index P tp index out1 = (Inr (), out2)" and eq: "s' = s1" "out' = out2"
      and st: "\<exists>n. settle_keys fuel P (now + settle) 0 (settle_probes sp tp index coverage) = Some (Inr u, n)"
    using assms(4) pc by (auto simp: publish_snapshot_def publish_snapshot_chunks_def split: prod.splits sum.splits)
  obtain payload where p: "pc_index (pe_postcard P) index = Inr payload"
      "out2 = out1 @ [\<lparr>sm_encoding = ENC_INDEX, sm_key = tree_key tp (ti_id index), sm_payload = payload\<rparr>]"
    by (rule publish_index_Inr [OF pi])
  show ?thesis
    by (rule that [of payload]) (use c p eq st settle_keys_Inr in \<open>auto simp: published_samples_def\<close>)
qed

text \<open>
  A published snapshot, read from a storage by a client of the same prefixes: the index that was
  published, and for every chunk it needs the bytes the publisher's store holds.
\<close>

lemma published_snapshot_readback:
  assumes "inv s" "\<forall>h \<in> set (needed_chunks index). hash_wf h" "so_get S = get"
    and "publish_snapshot fuel S P sp tp index compression coverage settle now (s, out) = Some (Inr u, s', out')"
    and "backed_by N out'" "sn_crates N = pe_crates P" "sn_postcard N = pe_postcard P" "zstd_ok (pe_crates P)" "postcard_ok (pe_postcard P)"
    and "\<forall>h \<in> set (needed_chunks index). store_key sp Blake3 h \<noteq> tree_key tp (ti_id index)"
    and "id_is_valid (ti_id index)" "tree_validate (pc_identity (pe_postcard P)) (cr_blake3 (pe_crates P)) index = Inr ()"
    and "yc_tree_prefix c = tp" "\<forall>b. pc_index (pe_postcard P) index = Inr b \<longrightarrow> length b \<le> yc_max_index_bytes c"
    and "\<forall>h b. contents s h = Some b \<longrightarrow> cr_blake3 (pe_crates P) b = h \<and> length b \<le> MAX_UNPACKED \<and> length b \<le> sc_max_chunk_bytes sc"
    and "sc_prefix sc = sp"
  shows "map sm_key out' = map sm_key out @ map (store_key sp Blake3) (needed_chunks index) @ [tree_key tp (ti_id index)]"
    and "fetch_index_matching N n c (ti_id index) (Some (ti_root_hash index)) = (Inr index, Suc n)"
    and "h \<in> set (needed_chunks index) \<Longrightarrow> \<exists>b. contents s h = Some b \<and> fetch_chunk N n sc h = Inr b"
proof -
  obtain payload where p: "holds_all (contents s) (needed_chunks index)" "pc_index (pe_postcard P) index = Inr payload"
      "out' = out @ published_samples P sp tp compression index payload (contents s)"
      "\<forall>(h, b) \<in> set (held_pairs (contents s) (needed_chunks index)). pack (pe_crates P) b compression = Inr (chunk_frame P compression b)"
    by (rule publish_snapshot_Inr [OF assms(1-4)])
  show "map sm_key out' = map sm_key out @ map (store_key sp Blake3) (needed_chunks index) @ [tree_key tp (ti_id index)]"
    by (simp add: p(3) published_samples_def stored_sample_def held_pairs_def)
  have "index_verdict N c (ti_id index) (Some (ti_root_hash index)) payload = Inr index"
    using assms(6,7,9,12,14) p(2) by (auto simp: index_verdict_def postcard_ok_def)
  then show "fetch_index_matching N n c (ti_id index) (Some (ti_root_hash index)) = (Inr index, Suc n)"
    using assms(5,10,11,13) p(3) by (intro storage_index) auto
  show "\<exists>b. contents s h = Some b \<and> fetch_chunk N n sc h = Inr b" if h: "h \<in> set (needed_chunks index)"
  proof -
    obtain b where b: "contents s h = Some b" using p(1) h by (auto simp: holds_all_def)
    then have "(h, b) \<in> set (held_pairs (contents s) (needed_chunks index))" using h by (force simp: held_pairs_def)
    then have "pack (pe_crates P) b compression = Inr (chunk_frame P compression b)" using p(4) by auto
    then show ?thesis
      using storage_chunk [OF assms(5) [unfolded p(3)] h b assms(2) _ assms(6,8) _ _ assms(16) _ assms(10)] assms(15) b by auto
  qed
qed

end

end
