(* ===== verification/Seed.thy ===== *)
theory Seed
  imports Tree_Client_Props
begin

text \<open>
  Local seeding (\<open>src/src/seed.rs\<close>): chunks a snapshot needs are taken from zero buffers and from
  local trees before anything is fetched.
\<close>

section \<open>Seeding\<close>

text \<open>
  A candidate tree as the walk sees it: a directory may be unreadable, a file may not open, or its
  reader may fail after some chunks. \<open>SeedOther\<close> is a link, a special file or one without metadata.
\<close>

datatype seed_node =
    SeedDir "seed_node list option"
  | SeedFile "(bytes \<times> nat option) option"
  | SeedOther

record seed_stats =
  ss_from_local :: u32
  ss_from_zero :: u32
  ss_still_missing :: u32

definition seed_stats_default :: seed_stats where
  "seed_stats_default = \<lparr>ss_from_local = 0, ss_from_zero = 0, ss_still_missing = 0\<rparr>"

record 's seed_state =
  sd_store :: 's
  sd_missing :: "hash list"
  sd_stats :: seed_stats

text \<open>\<open>if missing.remove(&h) { store.put(..)?; count += 1 }\<close>\<close>

definition seed_put ::
  "'s chunk_put \<Rightarrow> (seed_stats \<Rightarrow> seed_stats) \<Rightarrow> hash \<Rightarrow> bytes \<Rightarrow> 's seed_state \<Rightarrow> unit res \<times> 's seed_state" where
  "seed_put put bump h b st =
     (if h \<in> set (sd_missing st)
      then let st1 = st\<lparr>sd_missing := removeAll h (sd_missing st)\<rparr> in
           case put (sd_store st1) h b of
             (Inl e, s) \<Rightarrow> (Inl (Io e), st1\<lparr>sd_store := s\<rparr>)
           | (Inr _, s) \<Rightarrow> (Inr (), st1\<lparr>sd_store := s, sd_stats := bump (sd_stats st1)\<rparr>)
      else (Inr (), st))"

definition bump_zero :: "seed_stats \<Rightarrow> seed_stats" where
  "bump_zero st = st\<lparr>ss_from_zero := ss_from_zero st + 1\<rparr>"

definition bump_local :: "seed_stats \<Rightarrow> seed_stats" where
  "bump_local st = st\<lparr>ss_from_local := ss_from_local st + 1\<rparr>"

fun seed_zeros :: "'s chunk_put \<Rightarrow> (bytes \<Rightarrow> hash) \<Rightarrow> u32 list \<Rightarrow> 's seed_state \<Rightarrow> unit res \<times> 's seed_state" where
  "seed_zeros put blake3 [] st = (Inr (), st)"
| "seed_zeros put blake3 (len # lens) st =
     (if sd_missing st = [] then (Inr (), st)
      else let zeros = replicate (unat len) 0 in
           then_io (seed_put put bump_zero (blake3 zeros) zeros st) (\<lambda>_. seed_zeros put blake3 lens))"

text \<open>The chunks of one file, up to a read error or until nothing is missing.\<close>

fun seed_chunks :: "'s chunk_put \<Rightarrow> (bytes \<Rightarrow> hash) \<Rightarrow> bytes list \<Rightarrow> 's seed_state \<Rightarrow> unit res \<times> 's seed_state" where
  "seed_chunks put blake3 [] st = (Inr (), st)"
| "seed_chunks put blake3 (b # bs) st =
     then_io (seed_put put bump_local (blake3 b) b st) (\<lambda>_ st1.
       if sd_missing st1 = [] then (Inr (), st1) else seed_chunks put blake3 bs st1)"

definition readable_chunks :: "cdc_cutter \<Rightarrow> cdc_params \<Rightarrow> bytes \<times> nat option \<Rightarrow> bytes list" where
  "readable_chunks cutter cdc file =
     (let chunks = cdc_chunk_reader cutter cdc (fst file) in
      case snd file of None \<Rightarrow> chunks | Some n \<Rightarrow> take n chunks)"

fun seed_from_tree ::
    "'s chunk_put \<Rightarrow> (bytes \<Rightarrow> hash) \<Rightarrow> cdc_cutter \<Rightarrow> cdc_params \<Rightarrow> seed_node \<Rightarrow> 's seed_state \<Rightarrow> unit res \<times> 's seed_state"
  and seed_entries ::
    "'s chunk_put \<Rightarrow> (bytes \<Rightarrow> hash) \<Rightarrow> cdc_cutter \<Rightarrow> cdc_params \<Rightarrow> seed_node list \<Rightarrow> 's seed_state \<Rightarrow> unit res \<times> 's seed_state" where
  "seed_from_tree put blake3 cutter cdc (SeedDir (Some es)) st = seed_entries put blake3 cutter cdc es st"
| "seed_from_tree put blake3 cutter cdc _ st = (Inr (), st)"
| "seed_entries put blake3 cutter cdc [] st = (Inr (), st)"
| "seed_entries put blake3 cutter cdc (e # es) st =
     (if sd_missing st = [] then (Inr (), st)
      else then_io
        (case e of
           SeedFile (Some file) \<Rightarrow> seed_chunks put blake3 (readable_chunks cutter cdc file) st
         | SeedDir _ \<Rightarrow> seed_from_tree put blake3 cutter cdc e st
         | _ \<Rightarrow> (Inr (), st))
        (\<lambda>_. seed_entries put blake3 cutter cdc es))"

fun seed_roots ::
  "'s chunk_put \<Rightarrow> (bytes \<Rightarrow> hash) \<Rightarrow> cdc_cutter \<Rightarrow> cdc_params \<Rightarrow> seed_node list \<Rightarrow> 's seed_state \<Rightarrow> unit res \<times> 's seed_state" where
  "seed_roots put blake3 cutter cdc [] st = (Inr (), st)"
| "seed_roots put blake3 cutter cdc (root # roots) st =
     (if sd_missing st = [] then (Inr (), st)
      else then_io (seed_from_tree put blake3 cutter cdc root st) (\<lambda>_. seed_roots put blake3 cutter cdc roots))"

text \<open>\<open>hash_order\<close> is the order in which the \<open>HashSet\<close> of chunk lengths is visited.\<close>

definition seed_store ::
  "'s chunk_has \<Rightarrow> 's chunk_put \<Rightarrow> (bytes \<Rightarrow> hash) \<Rightarrow> cdc_cutter \<Rightarrow> (u32 list \<Rightarrow> u32 list) \<Rightarrow> tree_index
   \<Rightarrow> seed_node list \<Rightarrow> 's \<Rightarrow> seed_stats res \<times> 's" where
  "seed_store has put blake3 cutter hash_order index roots s =
     (let needed = needed_chunks index in
      case store_has_many has s needed of
        Inl e \<Rightarrow> (Inl (Io e), s)
      | Inr present \<Rightarrow>
          let missing = map fst (filter (\<lambda>(_, p). \<not> p) (zip needed present));
              lens = hash_order (remdups (map cr_len (all_refs (ti_entries index))));
              st = \<lparr>sd_store = s, sd_missing = missing, sd_stats = seed_stats_default\<rparr>
          in case then_io (seed_zeros put blake3 lens st)
                    (\<lambda>_. seed_roots put blake3 cutter (ti_cdc index) roots) of
               (Inl e, st1) \<Rightarrow> (Inl e, sd_store st1)
             | (Inr _, st1) \<Rightarrow>
                 (Inr ((sd_stats st1)\<lparr>ss_still_missing := of_nat (length (sd_missing st1))\<rparr>), sd_store st1))"

section \<open>What seeding does to a store\<close>

text \<open>
  Of the store: what was there stays, what is new is a needed chunk under its own hash. Of the
  bookkeeping: the missing list is exact, and every chunk taken off it is counted once.
\<close>

definition seeded_from :: "(bytes \<Rightarrow> hash) \<Rightarrow> hash list \<Rightarrow> (hash \<Rightarrow> bytes option) \<Rightarrow> (hash \<Rightarrow> bytes option) \<Rightarrow> bool" where
  "seeded_from blake3 needed m0 m \<longleftrightarrow> (\<forall>h. m0 h \<noteq> None \<longrightarrow> m h = m0 h)
     \<and> (\<forall>h b. m h = Some b \<longrightarrow> m0 h = None \<longrightarrow> h \<in> set needed \<and> blake3 b = h)"

lemma seeded_from_refl [simp]: "seeded_from blake3 needed m m"
  by (auto simp: seeded_from_def)

lemma seeded_from_update:
  "seeded_from blake3 needed m0 m \<Longrightarrow> m0 h = None \<Longrightarrow> h \<in> set needed \<Longrightarrow> blake3 b = h \<Longrightarrow>
   seeded_from blake3 needed m0 (m(h \<mapsto> b))"
  by (auto simp: seeded_from_def)

definition seed_exact :: "hash list \<Rightarrow> nat \<Rightarrow> (hash \<Rightarrow> bytes option) \<Rightarrow> 's seed_state \<Rightarrow> bool" where
  "seed_exact needed n0 m st \<longleftrightarrow> distinct (sd_missing st) \<and> set (sd_missing st) = {h \<in> set needed. m h = None}
     \<and> ss_from_local (sd_stats st) + ss_from_zero (sd_stats st) + of_nat (length (sd_missing st)) = of_nat n0"

definition bumps :: "(seed_stats \<Rightarrow> seed_stats) \<Rightarrow> bool" where
  "bumps f \<longleftrightarrow> (\<forall>st. ss_from_local (f st) + ss_from_zero (f st) = ss_from_local st + ss_from_zero st + 1)"

lemma bumps_zero_local: "bumps bump_zero" "bumps bump_local"
  by (simp_all add: bumps_def bump_zero_def bump_local_def)

context content_store
begin

definition seed_inv :: "(bytes \<Rightarrow> hash) \<Rightarrow> hash list \<Rightarrow> nat \<Rightarrow> (hash \<Rightarrow> bytes option) \<Rightarrow> unit res \<times> 's seed_state \<Rightarrow> bool" where
  "seed_inv blake3 needed n0 m0 out \<longleftrightarrow> inv (sd_store (snd out)) \<and> seeded_from blake3 needed m0 (contents (sd_store (snd out)))
     \<and> (is_ok (fst out) \<longrightarrow> seed_exact needed n0 (contents (sd_store (snd out))) (snd out))"

lemma seed_put_inv:
  assumes "seed_inv blake3 needed n0 m0 (Inr (), st)" "good h b" "blake3 b = h" "bumps bump"
  shows "seed_inv blake3 needed n0 m0 (seed_put put bump h b st)"
proof (cases "h \<in> set (sd_missing st)")
  case True
  then have h: "h \<in> set needed" "contents (sd_store st) h = None" using assms(1) by (auto simp: seed_inv_def seed_exact_def)
  then have "m0 h = None" using assms(1) by (auto simp: seed_inv_def seeded_from_def)
  obtain r s where p: "put (sd_store st) h b = (r, s)" by (meson surj_pair)
  show ?thesis
  proof (cases r)
    case (Inl e)
    then have "s = sd_store st" using put_Inl p by blast
    then show ?thesis using True p Inl assms(1) by (simp add: seed_put_def seed_inv_def)
  next
    case (Inr u)
    then have s: "inv s" "contents s = (contents (sd_store st))(h \<mapsto> b)"
      using put_Inr [of "sd_store st" h b s] p assms(1,2) by (auto simp: seed_inv_def)
    have ex: "seed_exact needed n0 (contents (sd_store st)) st" using assms(1) by (simp add: seed_inv_def)
    let ?miss = "removeAll h (sd_missing st)"
    have len: "length (sd_missing st) = Suc (length ?miss)"
      using True ex by (metis distinct_card distinct_removeAll card_Diff_singleton List.finite_set seed_exact_def set_removeAll card_Suc_Diff1)
    have "ss_from_local (bump (sd_stats st)) + ss_from_zero (bump (sd_stats st)) + of_nat (length ?miss) = of_nat n0"
      using ex assms(4) len by (auto simp: seed_exact_def bumps_def algebra_simps)
    then have "seed_exact needed n0 (contents s) (st\<lparr>sd_missing := ?miss, sd_store := s, sd_stats := bump (sd_stats st)\<rparr>)"
      using ex by (auto simp: seed_exact_def s(2) distinct_removeAll)
    moreover have "seeded_from blake3 needed m0 (contents s)"
      unfolding s(2) using assms(1,3) h(1) \<open>m0 h = None\<close> by (intro seeded_from_update) (auto simp: seed_inv_def)
    ultimately show ?thesis using True p Inr s(1) by (simp add: seed_put_def seed_inv_def)
  qed
next
  case False
  then show ?thesis using assms(1) by (simp add: seed_put_def)
qed

lemma seed_then:
  assumes "seed_inv blake3 needed n0 m0 r" "\<And>st. seed_inv blake3 needed n0 m0 (Inr (), st) \<Longrightarrow> seed_inv blake3 needed n0 m0 (f st)"
  shows "seed_inv blake3 needed n0 m0 (then_io r (\<lambda>_. f))"
  using assms by (cases r; cases "fst r") (auto simp: seed_inv_def)

lemma seed_zeros_inv:
  assumes "\<forall>len \<in> set lens. good (blake3 (replicate (unat len) 0)) (replicate (unat len) 0)"
    and "seed_inv blake3 needed n0 m0 (Inr (), st)"
  shows "seed_inv blake3 needed n0 m0 (seed_zeros put blake3 lens st)"
  using assms
proof (induction lens arbitrary: st)
  case (Cons len lens)
  then show ?case
    using bumps_zero_local(1) by (auto simp: Let_def intro!: seed_then seed_put_inv)
qed simp

lemma seed_chunks_inv:
  assumes "\<forall>b \<in> set bs. good (blake3 b) b" and "seed_inv blake3 needed n0 m0 (Inr (), st)"
  shows "seed_inv blake3 needed n0 m0 (seed_chunks put blake3 bs st)"
  using assms
proof (induction bs arbitrary: st)
  case (Cons b bs)
  then show ?case
    using bumps_zero_local(2) by (auto intro!: seed_then seed_put_inv)
qed simp

lemma seed_entries_inv:
  assumes pieces: "\<And>data b. b \<in> set (cdc_chunk_reader cutter cdc data) \<Longrightarrow> good (blake3 b) b"
    and dirs: "\<And>e st. e \<in> set es \<Longrightarrow> seed_inv blake3 needed n0 m0 (Inr (), st) \<Longrightarrow>
        seed_inv blake3 needed n0 m0 (seed_from_tree put blake3 cutter cdc e st)"
    and "seed_inv blake3 needed n0 m0 (Inr (), st)"
  shows "seed_inv blake3 needed n0 m0 (seed_entries put blake3 cutter cdc es st)"
  using dirs assms(3)
proof (induction es arbitrary: st)
  case (Cons e es)
  have "good (blake3 b) b" if "b \<in> set (readable_chunks cutter cdc x)" for b x
    using pieces [of b "fst x"] that by (auto simp: readable_chunks_def Let_def split: option.splits dest: in_set_takeD)
  then show ?case
    using Cons by (auto intro!: seed_then seed_chunks_inv split: seed_node.split option.split)
qed simp

lemma seed_from_tree_inv:
  assumes pieces: "\<And>data b. b \<in> set (cdc_chunk_reader cutter cdc data) \<Longrightarrow> good (blake3 b) b"
    and "seed_inv blake3 needed n0 m0 (Inr (), st)"
  shows "seed_inv blake3 needed n0 m0 (seed_from_tree put blake3 cutter cdc node st)"
  using assms(2)
proof (induction node arbitrary: st)
  case (SeedDir es)
  then show ?case using seed_entries_inv [OF pieces] by (cases es) auto
qed simp_all

lemma seed_roots_inv:
  assumes pieces: "\<And>data b. b \<in> set (cdc_chunk_reader cutter cdc data) \<Longrightarrow> good (blake3 b) b"
    and "seed_inv blake3 needed n0 m0 (Inr (), st)"
  shows "seed_inv blake3 needed n0 m0 (seed_roots put blake3 cutter cdc roots st)"
  using assms(2)
proof (induction roots arbitrary: st)
  case (Cons root roots)
  then show ?case using seed_from_tree_inv [OF pieces] by (auto intro!: seed_then)
qed simp

lemma seed_missing:
  assumes "inv s" "\<forall>h \<in> set hs. hash_wf h" "store_has_many has s hs = Inr present"
  shows "map fst (filter (\<lambda>(_, p). \<not> p) (zip hs present)) = filter (\<lambda>h. contents s h = None) hs"
proof -
  have "present = map (\<lambda>h. contents s h \<noteq> None) hs" by (rule has_many_Inr [OF assms])
  then show ?thesis by (induction hs arbitrary: present) auto
qed

lemma seed_store_sound:
  assumes "inv s" "\<forall>h \<in> set (needed_chunks index). hash_wf h"
    and pieces: "\<And>data b. b \<in> set (cdc_chunk_reader cutter (ti_cdc index) data) \<Longrightarrow> good (blake3 b) b"
    and zeros: "\<And>c. c \<in> set (all_refs (ti_entries index)) \<Longrightarrow> good (blake3 (replicate (unat (cr_len c)) 0)) (replicate (unat (cr_len c)) 0)"
    and order: "\<And>ls. set (hash_order ls) = set ls"
    and run: "seed_store has put blake3 cutter hash_order index roots s = (r, s')"
  shows "inv s' \<and> seeded_from blake3 (needed_chunks index) (contents s) (contents s')
     \<and> (\<forall>st. r = Inr st \<longrightarrow> ss_from_local st + ss_from_zero st + ss_still_missing st
            = of_nat (length (filter (\<lambda>h. contents s h = None) (needed_chunks index)))
          \<and> ss_still_missing st = of_nat (length (filter (\<lambda>h. contents s' h = None) (needed_chunks index))))"
proof (cases "store_has_many has s (needed_chunks index)")
  case (Inl e)
  then show ?thesis using run assms(1) by (auto simp: seed_store_def)
next
  case (Inr present)
  let ?needed = "needed_chunks index"
  let ?missing = "filter (\<lambda>h. contents s h = None) ?needed"
  let ?lens = "hash_order (remdups (map cr_len (all_refs (ti_entries index))))"
  let ?st = "\<lparr>sd_store = s, sd_missing = ?missing, sd_stats = seed_stats_default\<rparr>"
  let ?out = "then_io (seed_zeros put blake3 ?lens ?st) (\<lambda>_. seed_roots put blake3 cutter (ti_cdc index) roots)"
  have "seed_inv blake3 ?needed (length ?missing) (contents s) (Inr (), ?st)"
    using assms(1) needed_chunks_spec(1) [of index] by (auto simp: seed_inv_def seed_exact_def seed_stats_default_def)
  then have inv: "seed_inv blake3 ?needed (length ?missing) (contents s) ?out"
    using zeros order by (intro seed_then seed_zeros_inv seed_roots_inv [OF pieces]) auto
  obtain q st1 where out: "?out = (q, st1)" by (meson surj_pair)
  have res: "(r, s') = (case q of Inl e \<Rightarrow> (Inl e, sd_store st1)
      | Inr _ \<Rightarrow> (Inr ((sd_stats st1)\<lparr>ss_still_missing := of_nat (length (sd_missing st1))\<rparr>), sd_store st1))"
    using run Inr out seed_missing [OF assms(1,2) Inr] by (simp add: seed_store_def Let_def split: sum.split)
  then have s': "s' = sd_store st1" by (auto split: sum.splits)
  have i: "inv s'" "seeded_from blake3 ?needed (contents s) (contents s')"
    "is_ok q \<Longrightarrow> seed_exact ?needed (length ?missing) (contents s') st1"
    using inv out s' by (auto simp: seed_inv_def)
  show ?thesis
  proof (cases q)
    case (Inl e)
    then show ?thesis using i res by simp
  next
    case ok: (Inr u)
    then have ex: "seed_exact ?needed (length ?missing) (contents s') st1" using i(3) by simp
    let ?left = "filter (\<lambda>h. contents s' h = None) ?needed"
    have "set (sd_missing st1) = set ?left" "distinct (sd_missing st1)" "distinct ?left"
      using ex needed_chunks_spec(1) [of index] by (simp_all add: seed_exact_def)
    then have "length (sd_missing st1) = length ?left"
      using distinct_card [of "sd_missing st1"] distinct_card [of ?left] by simp
    with ex res ok i(1,2) show ?thesis by (simp add: seed_exact_def)
  qed
qed

end

text \<open>For the directory store, and an index that validates.\<close>

lemma seed_into_dir:
  assumes "dir_inv C s" and "cutter_lossless cutter" and "\<And>b. hash_wf (cr_blake3 C b)" and "\<forall>h \<in> set (needed_chunks index). hash_wf h"
    and valid: "tree_validate enc (cr_blake3 C) index = Inr ()" and order: "\<And>ls. set (hash_order ls) = set ls"
    and run: "seed_store (dir_has C) (dir_put C) (cr_blake3 C) cutter hash_order index roots s = (r, s')"
  shows "dir_inv C s' \<and> seeded_from (cr_blake3 C) (needed_chunks index) (dir_contents C s) (dir_contents C s')
     \<and> (\<forall>st. r = Inr st \<longrightarrow> ss_from_local st + ss_from_zero st + ss_still_missing st
            = of_nat (length (filter (\<lambda>h. dir_contents C s h = None) (needed_chunks index)))
          \<and> ss_still_missing st = of_nat (length (filter (\<lambda>h. dir_contents C s' h = None) (needed_chunks index))))"
proof (rule dirs.seed_store_sound [OF assms(1,4) _ _ order run])
  have cdc: "cdc_validate (ti_cdc index) = Inr ()" using valid by (simp add: tree_validate_Inr)
  note mx = cdc_validate_max [OF cdc]
  show "good_chunk C (cr_blake3 C b) b" if "b \<in> set (cdc_chunk_reader cutter (ti_cdc index) data)" for data b
    using assms(2,3) cdc mx that by (fastforce simp: cutter_lossless_def good_chunk_def MAX_UNPACKED_def)
  show "good_chunk C (cr_blake3 C (replicate (unat (cr_len c)) 0)) (replicate (unat (cr_len c)) 0)"
    if "c \<in> set (all_refs (ti_entries index))" for c
    using assms(3) validated_lens [OF valid that] mx by (auto simp: good_chunk_def MAX_UNPACKED_def word_le_nat_alt)
qed

end
