(* ===== verification/Exchange_Samples.thy ===== *)
theory Exchange_Samples
  imports Client_Samples Fanout_Exchange Publish_Props Seed
begin

text \<open>
  Concrete publishers and receivers: a fanout stream with foreign samples around the published
  ones, a snapshot published into a storage and read back from it, and a local tree to seed from.
\<close>

section \<open>A fanout stream\<close>

definition fan_codec :: "fanout_message \<Rightarrow> bytes res" where
  "fan_codec msg =
     (if msg = \<lparr>fx_version = WIRE_VERSION, fx_frame = ManifestFrame toy_manifest\<rparr> then Inr [0]
      else if msg = \<lparr>fx_version = WIRE_VERSION, fx_frame = SliceFrame 0 toy_content\<rparr> then Inr [1]
      else Inl Encode)"

definition fan_decode :: "bytes \<Rightarrow> fanout_message res" where
  "fan_decode b =
     (if b = [0] then Inr \<lparr>fx_version = WIRE_VERSION, fx_frame = ManifestFrame toy_manifest\<rparr>
      else if b = [1] then Inr \<lparr>fx_version = WIRE_VERSION, fx_frame = SliceFrame 0 toy_content\<rparr>
      else Inl Encode)"

definition toy_publisher :: fanout_publisher where
  "toy_publisher = \<lparr>fp_server = toy_server_env, fp_enc = fan_codec, fp_declare = (\<lambda>_. True), fp_put = (\<lambda>_. True)\<rparr>"

definition toy_samples :: "sample list" where
  "toy_samples = [fan_sample ''p/a/fanout'' [0], fan_sample ''p/a/fanout'' [1]]"

definition fan_junk :: sample where
  "fan_junk = \<lparr>sm_encoding = ENC_SLICE, sm_key = ''p/a/fanout'', sm_payload = [1]\<rparr>"

definition toy_stream :: "nat \<Rightarrow> fan_turn" where
  "toy_stream i = \<lparr>ft_now = i, ft_cancelled = False,
     ft_wait = Delivered (if i = 1 then fan_sample ''p/a/fanout'' [0] else if i = 2 then fan_sample ''p/a/fanout'' [1] else fan_junk)\<rparr>"

definition toy_receiver :: fanout_env where
  "toy_receiver = \<lparr>fn_client = toy_env, fn_dec = fan_decode, fn_subscribe = (\<lambda>_. True), fn_started = 0, fn_drained = 0\<rparr>"

definition toy_fan_config :: fanout_config where
  "toy_fan_config = \<lparr>fo_heartbeat = 1, fo_stall_timeout = 10, fo_overwrite = Refuse, fo_max_early_bytes = 10,
     fo_max_blob_size = 100, fo_cache_samples = 4\<rparr>"

lemma toy_fanout:
  "fanout_file toy_publisher ''p'' toy_spec (Inr toy_content) (Inr toy_content) = Inr (toy_manifest, Inr (), toy_samples)"
proof -
  have "fanout_manifest toy_server_env toy_spec toy_content = Inr (toy_manifest, toy_chunks, [7])" by code_simp
  moreover have "fanout_key ''p'' ''a'' = ''p/a/fanout''" "m_id toy_manifest = ''a''" "map of_nat [0..<unat (tc_count toy_chunks)] = [0 :: u32]"
    by code_simp+
  moreover have "se_encode_slice toy_server_env ob content r = Inr content" for ob content r by (simp add: toy_server_env_def)
  ultimately show ?thesis
    by (simp add: fanout_file_def fanout_task_def toy_publisher_def from_io_def fanout_put_def fan_codec_def toy_samples_def fan_sample_def)
qed

lemma toy_fan_peer: "fan_peer toy_publisher toy_manifest toy_receiver toy_fan_config toy_disk"
  using toy_bao_serves
  by (auto simp: fan_peer_def toy_publisher_def toy_receiver_def fan_codec_def fan_decode_def toy_fan_config_def split: if_splits)
     (simp_all add: toy_env_def toy_server_env_def toy_disk_def toy_manifest_def)

lemma toy_delivers: "delivers toy_receiver toy_fan_config ''a'' (Some toy_root) toy_stream 1 3 toy_samples"
proof -
  have "prompt toy_receiver toy_fan_config toy_stream 3"
    unfolding prompt_def by (intro exI [of _ 0]) (auto simp: toy_stream_def toy_fan_config_def)
  moreover have "fan_frame toy_receiver fan_junk = None" by (simp add: fan_frame_def fan_junk_def)
  ultimately show ?thesis
    by (auto simp: delivers_def toy_samples_def toy_stream_def intro: exI [of _ 1] exI [of _ 2])
qed

lemma toy_clock: "clock_moves toy_stream"
proof -
  have "t < ft_now (toy_stream (max i (Suc t)))" for t i by (simp add: toy_stream_def)
  then show ?thesis unfolding clock_moves_def by (meson max.cobounded1)
qed

section \<open>A published snapshot\<close>

definition toy_storage :: publish_env where
  "toy_storage = \<lparr>pe_crates = toy_crates, pe_postcard = toy_postcard, pe_put = (\<lambda>_. True),
     pe_get = (\<lambda>_ _. Inr [Inr toy_frame]), pe_now = (\<lambda>n. n)\<rparr>"

definition toy_puts :: "sample list" where
  "toy_puts = [toy_frame, \<lparr>sm_encoding = ENC_INDEX, sm_key = tree_key ''t'' ''t'', sm_payload = [9]\<rparr>]"

definition backed_net :: store_net where
  "backed_net = toy_net\<lparr>sn_get := (\<lambda>_ key _. Inr (storage_answer toy_puts key))\<rparr>"

lemma toy_published:
  "publish_snapshot 1 (dir_ops toy_crates) toy_storage ''s'' ''t'' toy_index NoCompression AllChunks 0 0 (kept_dir, [])
     = Some (Inr (), kept_dir, toy_puts)"
proof -
  have p: "pieces_of 32 [toy_hash] = [[toy_hash]]" by (simp add: pieces_of.simps)
  have g: "store_get_many (dir_get toy_crates) kept_dir [toy_hash] = (Inr [Some toy_content], kept_dir)"
    by (simp add: kept_get)
  have "publish_snapshot_chunks (dir_ops toy_crates) toy_storage ''s'' toy_index NoCompression (kept_dir, []) = (Inr 1, kept_dir, [toy_frame])"
    using p g toy_pack
    by (simp add: publish_snapshot_chunks_def publish_hashes_def PUBLISH_READ_BATCH_def toy_needed dir_ops_def publish_chunk_def
        put_sample_def toy_storage_def toy_frame_def)
  moreover have "publish_index toy_storage ''t'' toy_index [toy_frame] = (Inr (), toy_puts)"
    by (simp add: publish_index_def toy_storage_def toy_postcard_def put_sample_def toy_puts_def toy_index_def)
  moreover have "settle_probes ''s'' ''t'' toy_index AllChunks = [tree_key ''t'' (ti_id toy_index), store_key ''s'' Blake3 toy_hash]"
    by (simp add: settle_probes_def toy_needed sample_indices_def)
  ultimately show ?thesis
    by (simp add: publish_snapshot_def probe_key_def toy_storage_def)
qed

lemma toy_backed_by: "backed_by backed_net toy_puts"
  by (simp add: backed_by_def backed_net_def)

lemma toy_keys_differ: "store_key ''s'' Blake3 toy_hash \<noteq> tree_key ''t'' ''t''"
  by (simp add: store_key_def tree_key_def)

lemma kept_contents: "dir_contents toy_crates kept_dir = [toy_hash \<mapsto> toy_content]"
  using kept_dir_ok toy_dir_empty by simp

section \<open>A tree to seed from\<close>

definition toy_roots :: "seed_node list" where
  "toy_roots = [SeedDir (Some [SeedOther, SeedFile None, SeedFile (Some (toy_content, None))])]"

lemma toy_seeded:
  "seed_store (dir_has toy_crates) (dir_put toy_crates) pad_hash toy_cutter id toy_index toy_roots toy_dir
     = (Inr \<lparr>ss_from_local = 1, ss_from_zero = 0, ss_still_missing = 0\<rparr>, kept_dir)"
proof -
  have z: "pad_hash [0, 0, 0] \<noteq> toy_hash" by (simp add: toy_hash_def pad_hash_def toy_content_def)
  have "cdc_chunk_reader toy_cutter toy_cdc toy_content = [toy_content]"
    by (simp add: cdc_chunk_reader_def toy_cutter_def toy_cdc_def cdc_default_def pieces_of.simps toy_content_def)
  then have c: "readable_chunks toy_cutter (ti_cdc toy_index) (toy_content, None) = [toy_content]"
    by (simp add: readable_chunks_def toy_index_def)
  have "all_refs (ti_entries toy_index) = [toy_ref]" by (simp add: toy_index_def toy_entries_def all_refs_def)
  moreover have "unat (3 :: u32) = 3" by simp
  moreover have "replicate 3 (0 :: u8) = [0, 0, 0]" by (simp add: numeral_3_eq_3)
  moreover have "store_has_many (dir_has toy_crates) toy_dir [toy_hash] = Inr [False]"
    by (simp add: store_has_many_def toy_has_not)
  moreover have "pad_hash toy_content = toy_hash" by (simp add: toy_hash_def)
  ultimately show ?thesis
    using z c toy_put
    by (simp add: seed_store_def toy_needed seed_put_def toy_roots_def Let_def seed_stats_default_def bump_local_def)
qed

end
