(* ===== verification/Spec2Isabelle.thy ===== *)
theory Spec2Isabelle
  imports Exchange_Samples
begin

text \<open>
  zblob moves content-addressed data over Zenoh. This development models its library crate
  (\<open>src/src\<close>) and proves what its transfers promise.

  \<^bold>\<open>The program.\<close> Tier 1 moves one blob: a server registers a blob under an id, a client fetches its
  manifest, asks for ranges of fixed-size chunks, verifies every slice against the bao root of the
  manifest, and keeps a sidecar from which an interrupted download resumes; it can stripe one blob
  over several holders, and it can push a blob to a server. Tier 2 moves directory trees: a
  snapshot is an index of entries whose files are lists of content-defined chunks, the chunks live
  in content-addressed stores, and a client fetches an index, then the chunks its own store is
  missing, and materializes the tree below a directory. A blob can also be fanned out to many
  subscribers as one stream, a snapshot can be published into a storage, and a store can be seeded
  from local trees before anything is fetched. Around them are the key and selector grammar, the wire messages, path safety, chunk containers and garbage collection.

  \<^bold>\<open>Conventions.\<close> Machine integers are words of their width, \<open>usize\<close> is \<open>nat\<close>, a Rust string is the
  list of its bytes, \<open>Result\<close> is a sum with the error on the left, a struct is a record and an
  enum a datatype. State is passed explicitly; \<open>then_io\<close> is the question-mark operator in code that
  changes state. Code outside the crate is a parameter: BLAKE3, postcard, bao-tree, zstd, the AEAD,
  FastCDC, Zenoh's key-expression check, the network, the clock, the cancellation token and the
  faults of file operations; what is used of them is a named predicate (\<open>bao_pins\<close>, \<open>bao_serves\<close>,
  \<open>codec_ok\<close>, \<open>crates_ok\<close>, \<open>cutter_lossless\<close>) that states the documented
  behaviour, and \<open>Samples\<close>, \<open>Store_Samples\<close>, \<open>Client_Samples\<close> and \<open>Exchange_Samples\<close> hold
  instances that meet them.

  \<^bold>\<open>Theories.\<close>
  \<^item> \<open>Prelude\<close>, \<open>Strings\<close>, \<open>Bitfield\<close>: results, words, the string functions of the standard library,
    and the locale \<open>bitfield\<close> of presence bits, interpreted for resume states (\<open>Resume\<close>, extended to
    \<open>markable\<close>), availability and probe answers (\<open>Wire_Props\<close>).
  \<^item> \<open>Errors\<close> (\<open>error.rs\<close>), \<open>HashId\<close> (\<open>hash.rs\<close>, \<open>id.rs\<close>), \<open>Chunks\<close> (\<open>chunk.rs\<close>), \<open>Wire\<close>, \<open>Wire_Props\<close>
    (\<open>wire.rs\<close>), \<open>Keys\<close>, \<open>Keys_Props\<close> (\<open>keys.rs\<close>, \<open>prefix.rs\<close>), \<open>Paths\<close> (\<open>paths.rs\<close>), \<open>Manifests\<close>
    (\<open>manifest.rs\<close>): round trips of the grammars, exact validation, tiling of a blob by its chunks,
    and that a validated symlink cannot resolve outside the tree.
  \<^item> \<open>Resume\<close> (\<open>resume.rs\<close>), \<open>Verify\<close> (\<open>verify.rs\<close>), \<open>Download\<close>, \<open>Download_Props\<close>, \<open>Download_Top\<close>,
    \<open>Striping\<close>, \<open>Striping_Props\<close>, \<open>Client\<close>, \<open>Client_Props\<close>, \<open>Upload\<close>, \<open>Upload_Props\<close> (\<open>client.rs\<close>): bits are
    set only over verified bytes, a saved sidecar claims only durable chunks, success means the
    pinned blob is in place, the loops return, a query asks for holes only.
  \<^item> \<open>Server\<close>, \<open>Server_Props\<close> (\<open>server.rs\<close>), \<open>Slice_Exchange\<close>, \<open>Push_Exchange\<close>: what handlers keep of the
    registry and the pushes, and the two ends composed: a download from, and an upload to, a server
    of this development complete.
  \<^item> \<open>Containers\<close> (\<open>compress.rs\<close>, \<open>crypt.rs\<close>), \<open>Stores\<close>, \<open>Stores_Props\<close> (\<open>store.rs\<close>): the locale
    \<open>content_store\<close> is the contract of a store, a map from hashes to bytes; the memory store and the
    directory store are its interpretations, and the tier-2 clients are proved inside it.
  \<^item> \<open>Trees\<close>, \<open>Trees_Props\<close>, \<open>Tree_Serving\<close>, \<open>Tree_Client\<close>, \<open>Tree_Client_Props\<close>, \<open>Materialize\<close>,
    \<open>Materialize_Props\<close> (\<open>tree.rs\<close>), \<open>Store_Client\<close>, \<open>Store_Exchange\<close> (\<open>store_client.rs\<close>), \<open>Gc\<close>
    (\<open>gc.rs\<close>): a built snapshot is stored and valid, a pinned index is the snapshot, a fetch fills the
    store, a tree download changes nothing outside its root, a sweep keeps what is live.
  \<^item> \<open>Fanout\<close>, \<open>Fanout_Props\<close>, \<open>Fanout_Exchange\<close> (\<open>fanout.rs\<close>): a receiver places the pinned blob or
    nothing whatever it is sent, no stream holds it open, and a publisher's stream reaches it.
  \<^item> \<open>Publish\<close>, \<open>Publish_Props\<close> (\<open>publish.rs\<close>), \<open>Seed\<close> (\<open>seed.rs\<close>): a published snapshot is read back
    from a storage by the tree client, the read-back ends and samples what it says, and seeding adds
    needed chunks only and counts them once; proved in \<open>content_store\<close>.

  \<^bold>\<open>Fuel and bounds.\<close> A structural recursion carries each loop over a received list. The retry loop
  of a download has fuel, and \<open>download_returns\<close> shows that 2 to the 32 times one more than the
  allowed attempts is enough: a turn gains a chunk or spends an attempt. The striped loop has the
  same bound where its dealing ends; the dealing itself may not end and is a \<open>partial_function\<close> in
  the option monad, with the input on which it spins. The fetch pool has fuel in the number of tasks.
  The two loops of a fanout reception and the settle loop of a publish have fuel for turns, and it is
  enough once the clock has passed the stall timeout or the deadline.
  Symlink resolution has the source's own hop budget.

  \<^bold>\<open>Not modelled.\<close> Task spawning, queryable and publisher declarations and the in-flight semaphores
  (the runtime's; handlers are modelled whole, and the push handlers in the steps between lock
  releases); Debug and Display output and error texts; the future-builder structs, which are the
  calling convention of the operations; the on-disk outboard and the bao encoder behind
  \<open>verify.rs\<close>, which are calls into bao-tree; statistics sums and the tracing macros of \<open>obs.rs\<close>;
  the channel sink of \<open>progress.rs\<close>; \<open>cancel.rs\<close>, a wrapper whose effect is an input of each loop;
  elapsed times in statistics.
\<close>





text \<open>
  C3. Whatever query the server handles, a push included: every blob it serves has an outboard
  computed from bytes of the manifest's length with the manifest's root, no served blob is ever
  replaced or dropped by a push, every push in progress has the geometry of its own manifest,
  and there are never more pushes than the configured cap.
\<close>

theorem handlers_keep_registrations:
  assumes "server_inv E cap v" and "\<And>push. sv_push cfg = Some push \<Longrightarrow> pu_max_concurrent push = cap"
    and "serve_one E cfg q v = (out, v')"
  shows "server_inv E cap v' \<and> bs_registry v \<subseteq>\<^sub>m bs_registry v' \<and> length (bs_pushes v') \<le> cap"
  using serve_one_keeps [OF assms] by (auto simp: keeps_def server_inv_def)

theorem handlers_keep_registrations_witness:
  "\<exists>out v'. serve_one toy_server_env toy_server_config toy_offer toy_server = (out, v')
     \<and> server_inv toy_server_env 1 v' \<and> length (bs_pushes v') \<le> 1"
proof -
  obtain out v' where run: "serve_one toy_server_env toy_server_config toy_offer toy_server = (out, v')" by fastforce
  have "server_inv toy_server_env 1 toy_server" by (simp add: server_inv_def toy_server_def)
  from handlers_keep_registrations [OF this _ run] run show ?thesis by (auto simp: toy_server_config_def toy_push_def)
qed

text \<open>
  C4. Materializing a snapshot with the default policy, over any existing files and symlinks in
  the destination and with unlink working, changes nothing outside the destination, removes no
  directory, and leaves every existing inode's data alone; when it returns Ok, only entry paths
  were replaced and every file entry is a file whose data is the concatenation of chunks that
  hash to the index's addresses.
\<close>

theorem tree_download_stays_in_its_root:
  assumes "\<not> mp_replace_directories pol" and "root_ok dest fs" and "unlink_works fs"
    and "run_download_tree S N c pol polls events n bid root dest temps (fs, s) = Some (r, temps', fs', s')"
  shows "(\<forall>q. \<not> prefix dest q \<longrightarrow> fs_nodes fs' q = fs_nodes fs q)
    \<and> (\<forall>q. is_dir_node (fs_nodes fs q) \<longrightarrow> is_dir_node (fs_nodes fs' q))
    \<and> (\<forall>i < fs_next fs. fs_inodes fs' i = fs_inodes fs i)
    \<and> (is_ok r \<longrightarrow> (\<exists>t m. fetch_index_matching N n c bid root = (Inr t, m)
         \<and> extends dest (landings dest (ti_entries t)) fs fs'
         \<and> (\<forall>e \<in> set (ti_entries t). entry_there (cr_blake3 (sn_crates N)) dest e fs')))"
  using run_download_tree_sound [of pol dest "(fs, s)" S N c polls events n bid root temps r temps' "(fs', s')"] assms
  by (auto simp: extends_def)

theorem tree_download_stays_in_its_root_witness:
  "\<exists>r temps fs' s'. run_download_tree (dir_ops toy_crates) toy_net toy_client policy_default (\<lambda>_. False) [Run 0, Join 0] 0
      ''t'' (Some (pad_hash [5])) [''d''] None (toy_fs, toy_dir) = Some (r, temps, fs', s')
    \<and> fs_nodes fs' [''secret''] = fs_nodes toy_fs [''secret'']"
proof -
  obtain r temps fs' s' where run: "run_download_tree (dir_ops toy_crates) toy_net toy_client policy_default (\<lambda>_. False)
      [Run 0, Join 0] 0 ''t'' (Some (pad_hash [5])) [''d''] None (toy_fs, toy_dir) = Some (r, temps, fs', s')"
    using toy_tree_run by blast
  have "\<not> mp_replace_directories policy_default" by (simp add: policy_default_def)
  from tree_download_stays_in_its_root [OF this toy_fs_ok run] run show ?thesis by auto
qed











text \<open>
  C10. Fetching the missing chunks of a snapshot into a directory store, with any batch size,
  any interleaving of the concurrent fetches and any peers, keeps the store's invariant and
  everything it held, adds only bytes that hash to their address, and when it returns Ok every
  needed chunk is in the store.
\<close>

theorem fetch_fills_the_store:
  assumes "dir_inv C s" and "sn_crates N = C" and "0 < yc_fetch_concurrency c"
    and "\<forall>r \<in> set needed. hash_wf (cr_hash r)"
    and "fetch_missing (dir_ops C) N c polls events n needed tot s = Some (r, f)"
  shows "dir_inv C (fm_store f) \<and> dom (dir_contents C s) \<subseteq> dom (dir_contents C (fm_store f))
    \<and> (hash_sound (cr_blake3 C) (dir_contents C s) \<longrightarrow> hash_sound (cr_blake3 C) (dir_contents C (fm_store f)))
    \<and> (is_ok r \<longrightarrow> cr_hash ` set needed \<subseteq> dom (dir_contents C (fm_store f)))"
proof -
  have acc: "dirs.accepts C (sn_crates N)" using assms(2) by (simp add: dirs.accepts_def)
  have ops: "so_has (dir_ops C) = dir_has C" "so_put (dir_ops C) = dir_put C" by (simp_all add: dir_ops_def)
  from dirs.fetch_missing_inv [OF assms(1) acc ops assms(3,4,5)] assms(2)
  show ?thesis by (auto simp: dirs.fetch_inv_def dirs.held_def grows_def)
qed

theorem fetch_fills_the_store_witness:
  "fetch_missing (dir_ops toy_crates) toy_net toy_client (\<lambda>_. False) [Run 0, Join 0] 1 [toy_ref] 1 toy_dir
     = Some (Inr (), toy_fetched)
   \<and> dir_contents toy_crates (fm_store toy_fetched) toy_hash \<noteq> None"
proof -
  have "sn_crates toy_net = toy_crates" "0 < yc_fetch_concurrency toy_client" by (simp_all add: toy_net_def toy_client_def)
  from fetch_fills_the_store [OF toy_dir_inv this _ toy_fetch_missing(1)] toy_fetch_missing(1) show ?thesis by auto
qed



text \<open>
  C12. A snapshot published from a directory store into a storage that keeps the last sample of
  every key, whatever it held before, has put each needed chunk and the index under its own key,
  and a client of the same prefixes gets back the index under its pinned root and for every
  needed chunk the bytes the publisher's store holds.
\<close>

theorem published_snapshot_is_read_back:
  assumes "dir_inv C s" and "hash_sound (cr_blake3 C) (dir_contents C s)" and "\<forall>h \<in> set (needed_chunks index). hash_wf h"
    and "publish_snapshot fuel (dir_ops C) P sp tp index compression coverage settle now (s, out) = Some (Inr u, s', out')"
    and "pe_crates P = C" "sn_crates N = C" "crates_ok C" "sn_postcard N = pe_postcard P" "postcard_ok (pe_postcard P)"
    and "backed_by N out'" and "\<forall>h \<in> set (needed_chunks index). store_key sp Blake3 h \<noteq> tree_key tp (ti_id index)"
    and "id_is_valid (ti_id index)" and "tree_validate (pc_identity (pe_postcard P)) (cr_blake3 C) index = Inr ()"
    and "yc_tree_prefix c = tp" and "\<forall>b. pc_index (pe_postcard P) index = Inr b \<longrightarrow> length b \<le> yc_max_index_bytes c"
    and "sc_prefix sc = sp" and "\<forall>h b. dir_contents C s h = Some b \<longrightarrow> length b \<le> sc_max_chunk_bytes sc"
  shows "s' = s
    \<and> map sm_key out' = map sm_key out @ map (store_key sp Blake3) (needed_chunks index) @ [tree_key tp (ti_id index)]
    \<and> fetch_index_matching N n c (ti_id index) (Some (ti_root_hash index)) = (Inr index, Suc n)
    \<and> (\<forall>h \<in> set (needed_chunks index). \<exists>b. dir_contents C s h = Some b \<and> fetch_chunk N n sc h = Inr b)"
proof -
  have get: "so_get (dir_ops C) = dir_get C" by (simp add: dir_ops_def)
  have same: "s' = s" by (rule dirs.publish_snapshot_Inr [OF assms(1,3) get assms(4)])
  have held: "\<forall>h b. dir_contents C s h = Some b \<longrightarrow> cr_blake3 (pe_crates P) b = h \<and> length b \<le> MAX_UNPACKED \<and> length b \<le> sc_max_chunk_bytes sc"
    using assms(2,5,17) dir_contents_bound by (auto simp: hash_sound_def)
  have lib: "sn_crates N = pe_crates P" "zstd_ok (pe_crates P)" using assms(5-7) by (simp_all add: crates_ok_def)
  have valid: "tree_validate (pc_identity (pe_postcard P)) (cr_blake3 (pe_crates P)) index = Inr ()" using assms(5,13) by simp
  note readback = dirs.published_snapshot_readback [OF assms(1,3) get assms(4,10) lib(1) assms(8) lib(2) assms(9,11,12)
      valid assms(14,15) held assms(16)]
  show ?thesis using same readback by blast
qed

theorem published_snapshot_is_read_back_witness:
  "fetch_index_matching backed_net 0 toy_client ''t'' (Some (pad_hash [5])) = (Inr toy_index, 1)
   \<and> fetch_chunk backed_net 0 \<lparr>sc_prefix = ''s'', sc_max_chunk_bytes = 100\<rparr> toy_hash = Inr toy_content"
proof -
  let ?sc = "\<lparr>sc_prefix = ''s'', sc_max_chunk_bytes = 100\<rparr>"
  have idx: "ti_id toy_index = ''t''" "ti_root_hash toy_index = pad_hash [5]" "id_is_valid ''t''"
      "pc_index toy_postcard toy_index = Inr [9]"
    by (simp_all add: toy_index_def toy_postcard_def) code_simp
  have "hash_sound (cr_blake3 toy_crates) (dir_contents toy_crates kept_dir)"
    by (simp add: hash_sound_def kept_contents toy_hash_def)
  from published_snapshot_is_read_back [OF kept_dir_ok [THEN conjunct1] this _ toy_published, of backed_net toy_client ?sc 0]
  show ?thesis
    using idx toy_backed_by toy_keys_differ toy_crates_ok toy_postcard_ok toy_index_valid
    by (simp add: toy_needed kept_contents backed_net_def toy_storage_def) (simp add: toy_net_def toy_client_def toy_content_def)
qed



text \<open>
  C14. A garbage-collection sweep of a directory store never removes a chunk that a readable
  tag, a live temp tag or an extra root refers to; when it returns Ok the store holds exactly
  the live part of what it held, and when it stops early it has still removed only garbage.
\<close>

theorem sweep_keeps_what_is_live:
  assumes "dir_inv C s" and "temp_inv temps" and "gc_live K d temps roots = Inr live"
    and "sweep dir_remove dir_hashes K d temps roots s = (r, s')"
  shows "dir_inv C s'
    \<and> (\<forall>name rec. tag_get K name d = Inr (Some rec) \<longrightarrow> (\<forall>h \<in> set (tr_chunks rec). dir_contents C s' h = dir_contents C s h))
    \<and> (\<forall>g hs. tt_alive temps g = Some hs \<longrightarrow> (\<forall>h \<in> set hs. dir_contents C s' h = dir_contents C s h))
    \<and> (\<forall>t \<in> set roots. \<forall>h \<in> set (needed_chunks t). dir_contents C s' h = dir_contents C s h)
    \<and> (is_ok r \<longrightarrow> dir_contents C s' = dir_contents C s |` live)"
  using dirs.sweep_contents [OF assms(1,3,4)] gc_live_covers [OF assms(3,2)] by blast

theorem sweep_keeps_what_is_live_witness:
  "gc_live toy_tags no_tags temp_new [toy_index] = Inr {toy_hash}
   \<and> (\<exists>r s'. sweep dir_remove dir_hashes toy_tags no_tags temp_new [toy_index] kept_dir = (r, s')
        \<and> dir_contents toy_crates s' toy_hash = Some toy_content)"
proof -
  obtain r s' where run: "sweep dir_remove dir_hashes toy_tags no_tags temp_new [toy_index] kept_dir = (r, s')" by fastforce
  have t: "temp_inv temp_new" by (simp add: temp_inv_def temp_new_def)
  have inv: "dir_inv toy_crates kept_dir" using kept_dir_ok by simp
  from sweep_keeps_what_is_live [OF inv t toy_live run] run show ?thesis
    using kept_dir_ok toy_live by (auto simp: toy_needed)
qed

text \<open>
  C15. A download always returns, with a result or an error: a turn of the retry loop either
  gains a chunk or spends one of the allowed attempts, so chunk count times attempts bounds the
  turns, whatever the network answers.
\<close>

theorem download_returns:
  assumes "2 ^ 32 * Suc (unat (max_attempts (cc_retry cfg))) \<le> fuel"
  shows "\<exists>r d'. download_to_inner fuel E cfg bid expected_root ow now d = Some (r, d')"
  using assms by (rule download_to_inner_returns)

theorem download_returns_witness:
  "\<exists>r d'. download_to_inner (2 ^ 32 * 2) toy_env toy_config ''a'' None Replace 0 torn_disk = Some (r, d')"
  by (rule download_returns) (simp add: toy_config_def)

text \<open>
  C16. When the client's chunk budget per query is at least four times the number of holders,
  and eight, a striped download always returns: the dealing of every round ends, and a round
  either gains a chunk or spends an attempt.
\<close>

theorem striped_download_returns:
  assumes "4 * max (length holders) 2 \<le> unat (query_budget cfg m)" and "stripe_manifest root holders = Inr (m, c)"
    and "Suc (unat (tc_count c)) * Suc (unat (max_attempts (cc_retry cfg))) \<le> fuel"
  shows "\<exists>r d'. download_striped_inner fuel E N cfg root holders ow d = Some (r, d')"
proof -
  have "dealing_ends cfg m holders" "fill_fuel cfg c \<le> fuel" using assms(1,3) by (simp_all add: dealing_ends_def fill_fuel_def)
  then show ?thesis using download_striped_inner_returns [OF _ assms(2)] by fastforce
qed

theorem striped_download_returns_witness:
  "\<exists>r d'. download_striped_inner 4 toy_env (\<lambda>_ _. []) toy_config (Some toy_root) toy_holders Refuse toy_disk = Some (r, d')"
proof -
  have "tc_count toy_chunks = 1" by code_simp
  then show ?thesis
    using toy_dealing_ends by (intro striped_download_returns [OF _ toy_stripe_manifest]) (simp_all add: dealing_ends_def toy_config_def)
qed

text \<open>
  C17. No stream of samples holds a fanout receiver open: as long as the clock moves on, some
  number of turns is enough for it to return, even when samples keep coming for ever and none of
  them is of use.
\<close>

theorem fanout_receiver_returns:
  assumes "clock_moves S"
  shows "\<exists>n. \<forall>fuel. n \<le> fuel \<longrightarrow> (\<exists>r d'. receive_fanout fuel E cfg qp bid root S d = Some (r, d'))"
  using receive_fanout_halts [OF assms, of E cfg qp bid root d] by fastforce

theorem fanout_receiver_returns_witness:
  "\<exists>n r d'. receive_fanout n toy_receiver toy_fan_config ''p'' ''other'' None toy_stream toy_disk = Some (r, d')"
  using fanout_receiver_returns [OF toy_clock, of toy_receiver toy_fan_config "''p''" "''other''" None toy_disk] by blast

text \<open>
  C18. Publishing with a read-back returns once the clock has passed the deadline, and an Ok
  means that every probed key was answered: the index and, with full coverage, every chunk the
  snapshot needs.
\<close>

theorem publishing_settles:
  assumes "dir_inv C s" and "\<forall>h \<in> set (needed_chunks index). hash_wf h" and "\<forall>i. now + settle \<le> pe_now P (j + i)" and "j < fuel"
  shows "\<exists>r s' out'. publish_snapshot fuel (dir_ops C) P sp tp index compression coverage settle now (s, out) = Some (r, s', out')
    \<and> (is_ok r \<longrightarrow> answered P (tree_key tp (ti_id index))
         \<and> (coverage = AllChunks \<longrightarrow> (\<forall>h \<in> set (needed_chunks index). answered P (store_key sp Blake3 h))))"
proof -
  have get: "so_get (dir_ops C) = dir_get C" by (simp add: dir_ops_def)
  obtain r s' out' where run: "publish_snapshot fuel (dir_ops C) P sp tp index compression coverage settle now (s, out) = Some (r, s', out')"
    using publish_snapshot_returns [OF assms(3,4)] by (metis prod_cases3)
  have "\<forall>key \<in> set (settle_probes sp tp index coverage). answered P key" if "is_ok r"
  proof -
    obtain u where u: "r = Inr u" using \<open>is_ok r\<close> by (auto simp: is_ok_iff)
    show ?thesis by (rule dirs.publish_snapshot_Inr [OF assms(1,2) get run [unfolded u]])
  qed
  moreover have "tree_key tp (ti_id index) \<in> set (settle_probes sp tp index coverage)" by (simp add: settle_probes_def Let_def)
  ultimately show ?thesis using run settle_probes_All [of sp tp index] by auto
qed

theorem publishing_settles_witness:
  "\<exists>s' out'. publish_snapshot 1 (dir_ops toy_crates) toy_storage ''s'' ''t'' toy_index NoCompression AllChunks 0 0 (kept_dir, [])
       = Some (Inr (), s', out') \<and> answered toy_storage (store_key ''s'' Blake3 toy_hash)"
  using publishing_settles [OF kept_dir_ok [THEN conjunct1], of toy_index 0 0 toy_storage 0 1 "''s''" "''t''" NoCompression AllChunks "[]"]
    toy_published by (simp add: toy_needed)

text \<open>
  C19. An index fetched for an id and a pinned root validates, carries that id and that root,
  whatever the peers answered, whether it came whole or was assembled from shards.
\<close>

theorem pinned_index_is_the_snapshot:
  assumes "fetch_index_matching N n c bid (Some root) = (Inr t, m)"
  shows "tree_validate (pc_identity (sn_postcard N)) (cr_blake3 (sn_crates N)) t = Inr () \<and> ti_id t = bid
    \<and> ti_root_hash t = root
    \<and> root_digest (pc_identity (sn_postcard N)) (cr_blake3 (sn_crates N)) (ti_entries t) = Inr root"
  using fetch_index_matching_Inr [OF assms] by (auto simp: tree_validate_Inr)

theorem pinned_index_is_the_snapshot_witness:
  "fetch_index_matching toy_net 0 toy_client ''t'' (Some (pad_hash [5])) = (Inr toy_index, 1)
   \<and> ti_root_hash toy_index = pad_hash [5]"
  using pinned_index_is_the_snapshot [OF toy_fetch_index [of 0]] toy_fetch_index [of 0] by simp

text \<open>
  C20. The three views of a resume state agree with one reference, the set of chunks whose bit
  is set: the received count is its size, the hole list is exactly its complement in sorted,
  non-adjacent ranges, and complete means it is everything; marking a chunk adds that chunk and
  nothing else.
\<close>

theorem resume_views_agree:
  assumes "resume_for s m c"
  shows "unat (resume_received s) = card {i. resume_is_set s i}
    \<and> (\<forall>k. in_ranges (missing_ranges s (tc_count c)) k \<longleftrightarrow> k < tc_count c \<and> \<not> resume_is_set s k)
    \<and> ranges_coalesced (tc_count c) (missing_ranges s (tc_count c))
    \<and> (resume_is_complete s (tc_count c) \<longleftrightarrow> missing_ranges s (tc_count c) = [])
    \<and> (\<forall>i < tc_count c. {k. resume_is_set (snd (resume_mark s i)) k} = insert i {k. resume_is_set s k})"
  using resume.count_card [OF resume_for_sized [OF assms]] missing_ranges_spec[where n = "tc_count c" and s = s]
    resume_complete_iff [OF assms] missing_ranges_empty [of s "tc_count c"]
    resume.mark_is_set [OF resume_for_sized [OF assms]] resume_for_count [OF assms] resume_for_room [OF assms]
  by auto

theorem resume_views_agree_witness:
  "unat (resume_received (toy_state 1)) = card {i. resume_is_set (toy_state 1) i}
   \<and> resume_is_complete (toy_state 1) (tc_count toy_chunks)"
proof -
  have "resume_is_complete (toy_state 1) (tc_count toy_chunks)" by code_simp
  then show ?thesis using resume_views_agree [OF toy_resume_for [of 1]] by blast
qed



text \<open>
  C22. Every range set the loop asks for while chunks are missing is not empty, names only
  missing chunks, and its selector text is parsed back to the same ranges by a server whose cap
  is at least the client's budget for that manifest.
\<close>

theorem queries_ask_for_holes_only:
  assumes "\<exists>k < n. \<not> resume_is_set s k" and "query_budget cfg m \<le> cap"
  shows "query_holes cfg m n s \<noteq> []
     \<and> (\<forall>k. in_ranges (query_holes cfg m n s) k \<longrightarrow> k < n \<and> \<not> resume_is_set s k)
     \<and> parse_ranges (''ranges='' @ format_ranges (query_holes cfg m n s)) n cap
         = Inr (query_holes cfg m n s)"
proof -
  have ne: "query_holes cfg m n s \<noteq> []"
    using assms(1) by (intro query_holes_nonempty) (auto simp: missing_ranges_empty)
  have "ranges_ok n cap (query_holes cfg m n s)"
    using query_holes_ok[of n cfg m s] assms(2) by (simp add: ranges_ok_def word_le_nat_alt)
  then show ?thesis using ne query_holes_missing parse_format_ranges by blast
qed

theorem queries_ask_for_holes_only_witness:
  "query_holes toy_config toy_manifest 1 (toy_state 0) = [(0, 1)]
     \<and> parse_ranges (''ranges='' @ format_ranges [(0, 1)]) 1 512 = Inr [(0, 1)]"
proof -
  have q: "query_holes toy_config toy_manifest 1 (toy_state 0) = [(0, 1)]" by code_simp
  have "\<not> resume_is_set (toy_state 0) 0" "query_budget toy_config toy_manifest \<le> 512" by code_simp+
  then have "\<exists>k < 1. \<not> resume_is_set (toy_state 0) k" by (intro exI [of _ 0]) simp
  from queries_ask_for_holes_only [OF this \<open>query_budget toy_config toy_manifest \<le> 512\<close>] q
  show ?thesis by simp
qed



text \<open>
  C24. A round of a striped download asks each holder only for chunks that are missing and that
  it claims, at most a query's budget of them and in ascending order; outside the endgame no
  chunk is asked for twice from one holder, and the selector for a share is parsed back to
  ranges that name chunks of that share only.
\<close>

theorem striped_shares_are_missing_and_claimed:
  assumes "deal cfg m n holders rejects s = Some asg" and "live_holders cfg rejects \<noteq> []" and "h < length holders" and "asg ! h \<noteq> []"
  shows "h \<in> set (live_holders cfg rejects) \<and> length (asg ! h) \<le> unat (query_budget cfg m) \<and> sorted (asg ! h)
    \<and> (\<forall>i. i \<in> set (asg ! h) \<longrightarrow> i < n \<and> \<not> resume_is_set s i \<and> claims (holders ! h) i)
    \<and> (2 * max (length (live_holders cfg rejects)) 2 < length (missing_chunks s n) \<longrightarrow> distinct (asg ! h)
        \<and> parse_ranges (''ranges='' @ format_ranges (coalesce (asg ! h))) n (query_budget cfg m) = Inr (coalesce (asg ! h))
        \<and> (\<forall>k. in_ranges (coalesce (asg ! h)) k \<longrightarrow> k \<in> set (asg ! h)))"
proof -
  let ?copies = "deal_copy_count (live_holders cfg rejects) (missing_chunks s n)"
  let ?is = "take (unat (query_budget cfg m) * length (live_holders cfg rejects)) (missing_chunks s n)"
  have ok: "h \<in> set (live_holders cfg rejects)" "length (asg ! h) \<le> unat (query_budget cfg m)"
      "\<forall>i \<in> set (asg ! h). i \<in> set ?is \<and> claims (holders ! h) i" "sorted (asg ! h)" "?copies \<le> 1 \<longrightarrow> distinct (asg ! h)"
    using deal_shares [OF assms(1,2)] assms(3,4) by (auto simp: shares_ok_def)
  have mem: "i < n \<and> \<not> resume_is_set s i \<and> claims (holders ! h) i" if "i \<in> set (asg ! h)" for i
    using ok(3) that missing_chunks_set [of i s n] by (blast dest: in_set_takeD)
  have "distinct (asg ! h) \<and> parse_ranges (''ranges='' @ format_ranges (coalesce (asg ! h))) n (query_budget cfg m) = Inr (coalesce (asg ! h))
      \<and> (\<forall>k. in_ranges (coalesce (asg ! h)) k \<longrightarrow> k \<in> set (asg ! h))"
    if "2 * max (length (live_holders cfg rejects)) 2 < length (missing_chunks s n)"
  proof -
    have "?copies \<le> 1" using that by (simp add: deal_copy_count_def)
    then have d: "distinct (asg ! h)" using ok(5) by blast
    then have "sorted_wrt (<) (asg ! h)" using ok(4) by (simp add: strict_sorted_iff)
    note c = coalesce_accepted [OF this _ assms(4) ok(2)]
    show ?thesis using d c mem by blast
  qed
  then show ?thesis using ok mem by blast
qed

theorem striped_shares_are_missing_and_claimed_witness:
  "deal toy_config toy_manifest 1 lone_holders [0, 0] (toy_state 0) = Some [[0, 0], []]
   \<and> \<not> resume_is_set (toy_state 0) 0 \<and> claims (lone_holders ! 0) 0"
proof -
  have live: "live_holders toy_config [0, 0] \<noteq> []" by code_simp
  have "0 < length lone_holders" by (simp add: lone_holders_def)
  from striped_shares_are_missing_and_claimed [OF lone_deal live this] lone_deal show ?thesis by simp
qed



text \<open>
  C26. Seeding a directory store from zero buffers and local trees, whatever the trees hold and
  whichever of their files cannot be read: the store's invariant and everything it held are
  kept, what is new is a chunk the snapshot needs under its own hash, and on Ok the counters add
  up: chunks found and chunks still missing are together the ones that were missing, and those
  reported missing are the ones that still are.
\<close>

theorem seeding_adds_only_needed_chunks:
  assumes "dir_inv C s" and "cutter_lossless cutter" and "\<And>b. hash_wf (cr_blake3 C b)" and "\<forall>h \<in> set (needed_chunks index). hash_wf h"
    and "tree_validate enc (cr_blake3 C) index = Inr ()" and "\<And>ls. set (hash_order ls) = set ls"
    and "seed_store (dir_has C) (dir_put C) (cr_blake3 C) cutter hash_order index roots s = (r, s')"
  shows "dir_inv C s' \<and> (\<forall>h. dir_contents C s h \<noteq> None \<longrightarrow> dir_contents C s' h = dir_contents C s h)
    \<and> (\<forall>h b. dir_contents C s' h = Some b \<longrightarrow> dir_contents C s h = None \<longrightarrow> h \<in> set (needed_chunks index) \<and> cr_blake3 C b = h)
    \<and> (\<forall>st. r = Inr st \<longrightarrow> ss_from_local st + ss_from_zero st + ss_still_missing st
            = of_nat (length (filter (\<lambda>h. dir_contents C s h = None) (needed_chunks index)))
          \<and> ss_still_missing st = of_nat (length (filter (\<lambda>h. dir_contents C s' h = None) (needed_chunks index))))"
  using seed_into_dir [OF assms] unfolding seeded_from_def by blast

theorem seeding_adds_only_needed_chunks_witness:
  "seed_store (dir_has toy_crates) (dir_put toy_crates) pad_hash toy_cutter id toy_index toy_roots toy_dir
     = (Inr \<lparr>ss_from_local = 1, ss_from_zero = 0, ss_still_missing = 0\<rparr>, kept_dir)
   \<and> dir_inv toy_crates kept_dir"
proof -
  have "seed_store (dir_has toy_crates) (dir_put toy_crates) (cr_blake3 toy_crates) toy_cutter id toy_index toy_roots toy_dir
      = (Inr \<lparr>ss_from_local = 1, ss_from_zero = 0, ss_still_missing = 0\<rparr>, kept_dir)" using toy_seeded by simp
  from seeding_adds_only_needed_chunks [OF toy_dir_inv toy_cutter_lossless _ _ _ _ this, of "pc_identity toy_postcard"]
    toy_index_valid show ?thesis by (simp add: toy_needed toy_seeded)
qed

text \<open>
  C27. A chunk fetch returns only bytes that hash to the address asked for, of the length asked
  for, and at most 16 MiB long; and it does return such bytes whenever some reply carries them,
  whatever the other replies are.
\<close>

theorem fetched_chunks_are_verified:
  assumes "sn_get N n key None = Inr rs"
  shows "(\<forall>b k. fetch_one_chunk N n key h want_len mx = Inr (b, k) \<longrightarrow>
           cr_blake3 (sn_crates N) b = h \<and> length b \<le> MAX_UNPACKED \<and> (\<forall>len. want_len = Some len \<longrightarrow> of_nat (length b) = len))
    \<and> ((\<exists>r \<in> set rs. good_reply (sn_crates N) h want_len mx r) \<longrightarrow> is_ok (fetch_one_chunk N n key h want_len mx))"
  using assms chunk_replies_verified chunk_replies_found [of "sn_crates N" h want_len mx 0 rs]
  by (auto simp: fetch_one_chunk_def is_ok_iff)

theorem fetched_chunks_are_verified_witness:
  "fetch_one_chunk toy_net 0 (store_key ''s'' Blake3 toy_hash) toy_hash (Some 3) 10 = Inr (toy_content, 0)
   \<and> pad_hash toy_content = toy_hash"
proof -
  have "sn_get toy_net 0 (store_key ''s'' Blake3 toy_hash) None = Inr [Inr toy_frame]" by (simp add: toy_net_def store_key_def)
  from fetched_chunks_are_verified [OF this, of toy_hash "Some 3" 10]
  show ?thesis using toy_fetch_chunk by (auto simp: toy_net_def)
qed

text \<open>
  C28. An index validates exactly when its version and chunking parameters are supported, every
  entry has a safe path and, for a file, chunks of allowed size that sum to its size, no two
  entries land on the same path, its symlinks are confined, and its root is the digest of its
  entries.
\<close>

theorem tree_validation_is_exact:
  "tree_validate enc blake3 t = Inr () \<longleftrightarrow>
     ti_version t = WIRE_VERSION \<and> cdc_validate (ti_cdc t) = Inr ()
     \<and> (\<forall>e \<in> set (ti_entries t). entry_ok (ti_cdc t) e) \<and> distinct (map landing (ti_entries t))
     \<and> assert_symlinks_confined (declared_links (ti_entries t)) = Inr ()
     \<and> root_digest enc blake3 (ti_entries t) = Inr (ti_root_hash t)"
  by (rule tree_validate_Inr)

theorem tree_validation_is_exact_witness:
  "entry_ok toy_cdc (File ''f'' 420 7 3 [toy_ref])"
  using tree_validation_is_exact [of "pc_identity toy_postcard" pad_hash toy_index] toy_index_valid
  by (simp add: toy_index_def toy_entries_def)

text \<open>
  C29. In a validated snapshot no path of plain names, resolved through the snapshot's own
  symlinks in any nesting, ever leaves the snapshot's root.
\<close>

theorem symlinks_of_a_valid_tree_do_not_escape:
  assumes "tree_validate enc blake3 t = Inr ()"
  shows "\<not> kernel_resolve (map_of (declared_links (ti_entries t))) cur (map Normal names) None"
  using assms by (intro confined_reader) (simp add: tree_validate_Inr)

theorem symlinks_of_a_valid_tree_do_not_escape_witness:
  "\<not> kernel_resolve (map_of [([''l''], ''f'')]) [] [Normal ''l'', Normal ''x''] None"
proof -
  have "tree_validate (\<lambda>_. Inr [5]) pad_hash linked_index = Inr ()" by (rule linked_index_valid)
  from symlinks_of_a_valid_tree_do_not_escape [OF this, of "[]" "[''l'', ''x'']"]
  show ?thesis by (simp add: linked_links)
qed

text \<open>
  C30. A range set the server accepts is not empty, has at most 128 spans, each a non-empty
  range inside the blob, in increasing order and disjoint, with no more chunks in all than the
  server's limit, whatever the selector text was.
\<close>

theorem served_ranges_are_bounded:
  assumes "parse_ranges params n cap = Inr rs"
  shows "rs \<noteq> [] \<and> length rs \<le> 128 \<and> (\<forall>r \<in> set rs. fst r < snd r \<and> snd r \<le> n)
    \<and> sorted_wrt (\<lambda>r s. snd r \<le> fst s) rs \<and> sum_list (map (\<lambda>r. unat (snd r) - unat (fst r)) rs) \<le> unat cap"
  using parse_ranges_sound [OF assms]
  by (simp add: ranges_ok_def ranges_sorted_def range_total_def MAX_RANGE_SPANS_def)

theorem served_ranges_are_bounded_witness:
  "parse_ranges ''x=1&ranges=0-2,5'' 6 3 = Inr [(0, 2), (5, 6)]
   \<and> sum_list (map (\<lambda>r :: range. unat (snd r) - unat (fst r)) [(0, 2), (5, 6)]) \<le> unat (3 :: u32)"
proof -
  have p: "parse_ranges ''x=1&ranges=0-2,5'' 6 3 = Inr [(0, 2), (5, 6)]" by code_simp
  show ?thesis using served_ranges_are_bounded [OF p] p by simp
qed



text \<open>
  C32. Accepted chunk geometry tiles the blob: every byte lies in exactly one chunk, every chunk
  is a non-empty range inside the blob, and its 32-bit length is the length of its range and at
  most the chunk size, with no wrap-around for any index.
\<close>

theorem chunks_tile_the_blob:
  assumes "transfer_chunks_new cs len = Inr c"
  shows "(\<forall>b < len. \<exists>!i. i < tc_count c \<and> fst (byte_range c i) \<le> b \<and> b < snd (byte_range c i))
    \<and> (\<forall>i < tc_count c. fst (byte_range c i) < snd (byte_range c i) \<and> snd (byte_range c i) \<le> len
         \<and> unat (len_of c i) = unat (snd (byte_range c i)) - unat (fst (byte_range c i)) \<and> len_of c i \<le> cs)"
proof -
  have c: "tc_wf c" "tc_chunk_size c = cs" "tc_total_len c = len"
    using assms by (simp_all add: transfer_chunks_new_Inr)
  have "\<exists>!i. i < tc_count c \<and> fst (byte_range c i) \<le> b \<and> b < snd (byte_range c i)" if "b < len" for b
    using that c byte_in_one_chunk by simp
  moreover have "fst (byte_range c i) < snd (byte_range c i) \<and> snd (byte_range c i) \<le> len
      \<and> unat (len_of c i) = unat (snd (byte_range c i)) - unat (fst (byte_range c i)) \<and> len_of c i \<le> cs"
    if "i < tc_count c" for i
    using that c chunk_nonempty [OF c(1) that] unat_len_of [OF c(1), of i] by (simp add: word_le_nat_alt)
  ultimately show ?thesis by blast
qed

theorem chunks_tile_the_blob_witness:
  "transfer_chunks_new 65536 65537 = Inr \<lparr>tc_chunk_size = 65536, tc_total_len = 65537\<rparr>
   \<and> (\<exists>!i. i < tc_count \<lparr>tc_chunk_size = 65536, tc_total_len = 65537\<rparr>
        \<and> fst (byte_range \<lparr>tc_chunk_size = 65536, tc_total_len = 65537\<rparr> i) \<le> 65536
        \<and> 65536 < snd (byte_range \<lparr>tc_chunk_size = 65536, tc_total_len = 65537\<rparr> i))"
proof -
  have c: "transfer_chunks_new 65536 65537 = Inr \<lparr>tc_chunk_size = 65536, tc_total_len = 65537\<rparr>" by code_simp
  then show ?thesis using chunks_tile_the_blob [OF c] by simp
qed

text \<open>
  C33. A want list answered by the chunk server and drained by the client of the same prefix
  yields exactly the wanted chunks the server's store holds, each once, in the order asked for,
  over any compression.
\<close>

theorem batch_answers_are_what_is_held:
  assumes "dir_inv C s" and "postcard_ok P" and "\<not> has_wildcard (tv_store_prefix cfg)"
    and "wanted \<noteq> []" "distinct (map cr_hash wanted)" "length wanted \<le> tv_max_want_list cfg"
    and "\<forall>c \<in> set wanted. hash_wf (cr_hash c)"
    and "\<forall>c \<in> set wanted. \<forall>b. dir_contents C s (cr_hash c) = Some b \<longrightarrow>
      cr_blake3 C b = cr_hash c \<and> length b \<le> MAX_UNPACKED \<and> cr_len c = of_nat (length b)"
    and "pc_want P (want_list_new (map cr_hash wanted)) = Inr payload"
    and "q = \<lparr>tq_key = store_batch_key (tv_store_prefix cfg) Blake3, tq_payload = Some payload, tq_accepts_any = True, tq_open = k\<rparr>"
    and "length wanted \<le> k"
    and "serve_chunk_query (dir_ops C) C P cfg q s = ((Inr (), replies), s')"
  shows "drain_round C (tv_store_prefix cfg) (expected_lens wanted) [] [] replies
     = held_chunks (dir_contents C s) (map cr_hash wanted)"
proof (rule dirs.batch_exchange [OF assms(1) _ _ assms(2-12)])
  show "so_get (dir_ops C) = dir_get C" by (simp add: dir_ops_def)
  show "zstd_ok C" using assms(1) by (simp add: dir_inv_def crates_ok_def)
qed

theorem batch_answers_are_what_is_held_witness:
  "drain_round toy_crates ''s'' (expected_lens [toy_ref]) [] [] [Inr toy_frame]
     = held_chunks (dir_contents toy_crates kept_dir) [toy_hash]"
proof -
  have p: "\<not> has_wildcard (tv_store_prefix toy_serving)" by code_simp
  have w: "pc_want toy_postcard (want_list_new (map cr_hash [toy_ref])) = Inr [8]" by (simp add: toy_postcard_def)
  have "dir_contents toy_crates kept_dir toy_hash = Some toy_content" using kept_dir_ok by simp
  then have held: "\<forall>c \<in> set [toy_ref]. \<forall>b. dir_contents toy_crates kept_dir (cr_hash c) = Some b \<longrightarrow>
      cr_blake3 toy_crates b = cr_hash c \<and> length b \<le> MAX_UNPACKED \<and> cr_len c = of_nat (length b)"
    using toy_content_small by (simp add: toy_hash_def) (simp add: toy_content_def)
  have "length [toy_ref] \<le> tv_max_want_list toy_serving" by (simp add: toy_serving_def)
  from batch_answers_are_what_is_held [OF conjunct1 [OF kept_dir_ok] toy_postcard_ok p _ _ this _ held w refl _ toy_batch]
  show ?thesis by (simp add: toy_serving_def)
qed

text \<open>
  C34. A presence probe answered by the chunk server and decoded by the client names exactly the
  addresses of the question that the server's store holds.
\<close>

theorem probe_answers_are_what_is_held:
  assumes "dir_inv C s" and "postcard_ok P" and "\<not> has_wildcard (tv_store_prefix cfg)"
    and "length hs < 2 ^ 32" "\<forall>h \<in> set hs. hash_wf h"
    and "want_list_validate (want_list_new hs) (tv_max_want_list cfg) = Inr ()"
    and "pc_want P (want_list_new hs) = Inr payload" "tq_key q = store_have_key (tv_store_prefix cfg) Blake3"
      "tq_payload q = Some payload"
    and "serve_chunk_query (dir_ops C) C P cfg q s = ((Inr (), replies), s')"
  shows "\<exists>bits. probe_replies P (length hs) [] replies = [(store_have_key (tv_store_prefix cfg) Blake3, bits)]
     \<and> held_of hs bits = filter (\<lambda>h. dir_contents C s h \<noteq> None) hs"
proof (rule dirs.probe_exchange [OF assms(1) _ assms(2-10)])
  show "so_has (dir_ops C) = dir_has C" by (simp add: dir_ops_def)
qed

theorem probe_answers_are_what_is_held_witness:
  "\<exists>bits. probe_replies toy_postcard 1 [] [Inr toy_bits] = [(store_have_key ''s'' Blake3, bits)] \<and> held_of [toy_hash] bits = [toy_hash]"
proof -
  have p: "\<not> has_wildcard (tv_store_prefix toy_serving)" by code_simp
  have w: "pc_want toy_postcard (want_list_new [toy_hash]) = Inr [8]" by (simp add: toy_postcard_def)
  have "want_list_validate (want_list_new [toy_hash]) (tv_max_want_list toy_serving) = Inr ()"
    by (simp add: want_list_validate_Inr want_list_new_def toy_serving_def)
  from probe_answers_are_what_is_held [OF conjunct1 [OF kept_dir_ok] toy_postcard_ok p _ _ this w _ _ toy_probe]
  show ?thesis using kept_dir_ok by (simp add: toy_serving_def)
qed





text \<open>
  C37. A chunk that is packed, whatever the compression, is unpacked to the same bytes, a sealed
  container opens to the container it was made from, and nothing a peer sends unpacks to more
  than 16 MiB.
\<close>

theorem containers_round_trip:
  assumes "crates_ok C" and "length bs \<le> MAX_UNPACKED" and "pack C bs compression = Inr packed"
  shows "try_unpack C packed = Inr bs
    \<and> (\<forall>key h sealed. seal C key h packed = Inr sealed \<longrightarrow> open_sealed C key h sealed = Some packed)
    \<and> (\<forall>frame out. try_unpack C frame = Inr out \<longrightarrow> length out \<le> 16 * 1024 * 1024)"
  using assms pack_unpack seal_open try_unpack_bound by (auto simp: crates_ok_def MAX_UNPACKED_def)

theorem containers_round_trip_witness: "try_unpack toy_crates (0 # toy_content) = Inr toy_content"
  using containers_round_trip [OF toy_crates_ok toy_content_small toy_pack] by simp




text \<open>
  C40. Setting an extension field either succeeds, and then that field and only that field reads
  differently, or fails with MalformedMessage, and then the whole extension list is gone: every
  field reads as absent.
\<close>

theorem extensions_set_and_get:
  assumes "ext_set_u32 e i n = (r, e')"
  shows "if is_ok r then ext_get_u32 e' i = Some n \<and> (\<forall>j. j \<noteq> i \<longrightarrow> ext_get e' j = ext_get e j)
         else r = Inl MalformedMessage \<and> (\<forall>j. ext_get e' j = None)"
proof (cases r)
  case (Inr u)
  then have "ext_set_u32 e i n = (Inr (), e')" using assms by simp
  then show ?thesis
    using Inr ext_set_u32_get ext_set_get [of e i "to_le_bytes 4 n" e'] by (auto simp: ext_set_u32_def)
next
  case (Inl err)
  then show ?thesis using assms ext_set_error [of e i "to_le_bytes 4 n" err e'] by (simp add: ext_set_u32_def ext_get_def)
qed

theorem extensions_set_and_get_witness:
  "ext_set_u32 [(1, replicate 300 0)] 2 5 = (Inl MalformedMessage, [])
   \<and> (\<forall>j. ext_get [] j = None)"
proof -
  have r: "ext_set_u32 [(1, replicate 300 0)] 2 5 = (Inl MalformedMessage, [])" by code_simp
  show ?thesis using extensions_set_and_get [OF r] r by simp
qed

end
